(* ===== verification/RkPrelude.thy ===== *)
theory RkPrelude
  imports Main "HOL-Library.Word" "HOL-Library.AList"
begin

text \<open>
  Shared vocabulary of the development: machine integers, Rust strings as lists of UTF-8
  bytes (an HOL \<open>char\<close> is one byte, so \<open>length\<close> is Rust's \<open>str::len\<close>), panics as
  values, mutexes that can be poisoned, number formatting, and the interface that every
  table keyed by a name satisfies (\<open>handle_table\<close>).
\<close>

type_synonym u8 = "8 word"
type_synonym u16 = "16 word"
type_synonym u32 = "32 word"
type_synonym u64 = "64 word"

lemma unat_u8_less: "unat (w :: u8) < 256"
  using unsigned_less [of w, where 'a = nat] by simp

lemma unat_u16_less: "unat (w :: u16) < 65536"
  using unsigned_less [of w, where 'a = nat] by simp

lemma unat_u64_less: "unat (w :: u64) < 2 ^ 64"
  using unsigned_less [of w, where 'a = nat] by simp

section \<open>Panics and mutexes\<close>

text \<open>A Rust body that may unwind either panics or returns.\<close>

datatype 'a outcome = Panicked | Returned 'a

text \<open>
  \<open>std::sync::Mutex\<close>: a lock taken by a thread that panicked is poisoned, and
  \<open>lock()\<close> is an error from then on. \<open>None\<close> is that error.
\<close>

record 'a mutex =
  poisoned :: bool
  guarded :: 'a

definition new_mutex :: "'a \<Rightarrow> 'a mutex" where
  "new_mutex x = \<lparr>poisoned = False, guarded = x\<rparr>"

definition lock_get :: "'a mutex \<Rightarrow> 'a option" where
  "lock_get m = (if poisoned m then None else Some (guarded m))"

definition lock_set :: "'a \<Rightarrow> 'a mutex \<Rightarrow> 'a mutex" where
  "lock_set x m = m\<lparr>guarded := x\<rparr>"

lemma lock_get_new [simp]: "lock_get (new_mutex x) = Some x"
  by (simp add: lock_get_def new_mutex_def)

lemma lock_get_set [simp]: "lock_get (lock_set x m) = (if poisoned m then None else Some x)"
  by (simp add: lock_get_def lock_set_def)

lemma poisoned_set [simp]: "poisoned (lock_set x m) = poisoned m"
  by (simp add: lock_set_def)

lemma guarded_set [simp]: "guarded (lock_set x m) = x"
  by (simp add: lock_set_def)

lemma poisoned_new [simp]: "\<not> poisoned (new_mutex x)"
  by (simp add: new_mutex_def)

lemma guarded_new [simp]: "guarded (new_mutex x) = x"
  by (simp add: new_mutex_def)

lemma lock_get_healthy [simp]: "\<not> poisoned m \<Longrightarrow> lock_get m = Some (guarded m)"
  by (simp add: lock_get_def)

section \<open>Rust strings\<close>

type_synonym rstr = string

definition byte :: "char \<Rightarrow> nat" where
  "byte c = of_char c"

lemma byte_less [simp]: "byte c < 256"
  by (simp add: byte_def)

lemma byte_char_of [simp]: "byte (char_of n) = n mod 256"
  by (simp add: byte_def of_char_of)

lemma byte_inject [simp]: "byte a = byte b \<longleftrightarrow> a = b"
  by (simp add: byte_def)

definition cont_byte :: "char \<Rightarrow> bool" where
  "cont_byte c \<longleftrightarrow> 0x80 \<le> byte c \<and> byte c \<le> 0xBF"

text \<open>
  \<open>std::str::from_utf8\<close> accepts exactly the well-formed sequences of the Unicode
  standard: no overlong forms, no surrogates, nothing above U+10FFFF.
\<close>

fun utf8_valid :: "string \<Rightarrow> bool" where
  "utf8_valid [] = True"
| "utf8_valid (a # r) =
     (if byte a < 0x80 then utf8_valid r
      else if 0xC2 \<le> byte a \<and> byte a \<le> 0xDF then
        (case r of b # r2 \<Rightarrow> cont_byte b \<and> utf8_valid r2 | [] \<Rightarrow> False)
      else if 0xE0 \<le> byte a \<and> byte a \<le> 0xEF then
        (case r of b # c # r3 \<Rightarrow>
             (if byte a = 0xE0 then 0xA0 \<le> byte b \<and> byte b \<le> 0xBF
              else if byte a = 0xED then 0x80 \<le> byte b \<and> byte b \<le> 0x9F
              else cont_byte b) \<and> cont_byte c \<and> utf8_valid r3
         | _ \<Rightarrow> False)
      else if 0xF0 \<le> byte a \<and> byte a \<le> 0xF4 then
        (case r of b # c # d # r4 \<Rightarrow>
             (if byte a = 0xF0 then 0x90 \<le> byte b \<and> byte b \<le> 0xBF
              else if byte a = 0xF4 then 0x80 \<le> byte b \<and> byte b \<le> 0x8F
              else cont_byte b) \<and> cont_byte c \<and> cont_byte d \<and> utf8_valid r4
         | _ \<Rightarrow> False)
      else False)"

definition ascii :: "string \<Rightarrow> bool" where
  "ascii s \<longleftrightarrow> (\<forall>c \<in> set s. byte c < 0x80)"

lemma ascii_Nil [simp]: "ascii []"
  by (simp add: ascii_def)

lemma ascii_Cons [simp]: "ascii (c # s) \<longleftrightarrow> byte c < 0x80 \<and> ascii s"
  by (simp add: ascii_def)

lemma ascii_append [simp]: "ascii (s @ t) \<longleftrightarrow> ascii s \<and> ascii t"
  by (auto simp: ascii_def)

lemma ascii_utf8_valid: "ascii s \<Longrightarrow> utf8_valid s"
  by (induction s) auto

text \<open>\<open>str::starts_with\<close> and \<open>str::contains\<close> for a string pattern.\<close>

definition starts_with :: "string \<Rightarrow> string \<Rightarrow> bool" where
  "starts_with s p \<longleftrightarrow> take (length p) s = p"

fun contains :: "string \<Rightarrow> string \<Rightarrow> bool" where
  "contains [] p \<longleftrightarrow> p = []"
| "contains (c # s) p \<longleftrightarrow> starts_with (c # s) p \<or> contains s p"

lemma starts_with_append [simp]: "starts_with (p @ s) p"
  by (simp add: starts_with_def)

lemma starts_with_iff: "starts_with s p \<longleftrightarrow> (\<exists>t. s = p @ t)"
  by (metis append_take_drop_id starts_with_append starts_with_def)

lemma contains_iff: "contains s p \<longleftrightarrow> (\<exists>u v. s = u @ p @ v)"
proof (induction s)
  case Nil
  then show ?case by auto
next
  case (Cons c s)
  have "(\<exists>u v. c # s = u @ p @ v) \<longleftrightarrow> (\<exists>v. c # s = p @ v) \<or> (\<exists>u v. s = u @ p @ v)"
    by (metis append_Cons append_Nil list.sel(3) tl_append2)
  with Cons show ?case by (simp add: starts_with_iff)
qed

lemma contains_middle: "contains (u @ p @ v) p"
  by (auto simp: contains_iff)

text \<open>
  Indexing a \<open>str\<close> by a byte range panics unless both ends are in range and on a
  character boundary.
\<close>

definition is_char_boundary :: "string \<Rightarrow> nat \<Rightarrow> bool" where
  "is_char_boundary s i \<longleftrightarrow>
     i = 0 \<or> i = length s \<or> (i < length s \<and> \<not> cont_byte (s ! i))"

definition str_slice :: "string \<Rightarrow> nat \<Rightarrow> nat \<Rightarrow> string outcome" where
  "str_slice s a b =
     (if a \<le> b \<and> b \<le> length s \<and> is_char_boundary s a \<and> is_char_boundary s b
      then Returned (take (b - a) (drop a s)) else Panicked)"

lemma ascii_is_char_boundary: "ascii s \<Longrightarrow> i \<le> length s \<Longrightarrow> is_char_boundary s i"
  by (auto simp: is_char_boundary_def ascii_def cont_byte_def not_le dest!: nth_mem)

lemma str_slice_ascii:
  "ascii s \<Longrightarrow> a \<le> b \<Longrightarrow> b \<le> length s \<Longrightarrow> str_slice s a b = Returned (take (b - a) (drop a s))"
  by (simp add: str_slice_def ascii_is_char_boundary)

text \<open>
  \<open>str::trim\<close> removes characters with the Unicode property White\_Space at both ends;
  \<open>ws_char\<close> lists their UTF-8 encodings.
\<close>

definition ws_char :: "string \<Rightarrow> bool" where
  "ws_char s =
     (case map byte s of
        [a] \<Rightarrow> (9 \<le> a \<and> a \<le> 13) \<or> a = 32
      | [a, b] \<Rightarrow> a = 0xC2 \<and> (b = 0x85 \<or> b = 0xA0)
      | [a, b, c] \<Rightarrow>
          (a = 0xE1 \<and> b = 0x9A \<and> c = 0x80)
        \<or> (a = 0xE2 \<and> b = 0x80 \<and> ((0x80 \<le> c \<and> c \<le> 0x8A) \<or> c = 0xA8 \<or> c = 0xA9 \<or> c = 0xAF))
        \<or> (a = 0xE2 \<and> b = 0x81 \<and> c = 0x9F)
        \<or> (a = 0xE3 \<and> b = 0x80 \<and> c = 0x80)
      | _ \<Rightarrow> False)"

definition ws_front :: "string \<Rightarrow> nat" where
  "ws_front s = (if ws_char (take 1 s) then 1 else if ws_char (take 2 s) then 2
                 else if ws_char (take 3 s) then 3 else 0)"

definition ws_back :: "string \<Rightarrow> nat" where
  "ws_back s = (let r = rev s in
     if ws_char (rev (take 1 r)) then 1 else if ws_char (rev (take 2 r)) then 2
     else if ws_char (rev (take 3 r)) then 3 else 0)"

function trim_start :: "string \<Rightarrow> string" where
  "trim_start s = (if s = [] \<or> ws_front s = 0 then s else trim_start (drop (ws_front s) s))"
  by pat_completeness auto
termination
  by (relation "measure length") auto

function trim_end :: "string \<Rightarrow> string" where
  "trim_end s =
     (if s = [] \<or> ws_back s = 0 then s else trim_end (take (length s - ws_back s) s))"
  by pat_completeness auto
termination
  by (relation "measure length") auto

declare trim_start.simps [simp del] trim_end.simps [simp del]

definition trim :: "string \<Rightarrow> string" where
  "trim s = trim_end (trim_start s)"

text \<open>A string whose first and last bytes are printing ASCII is left alone.\<close>

definition solid :: "char \<Rightarrow> bool" where
  "solid c \<longleftrightarrow> 0x20 < byte c \<and> byte c < 0x80"

lemma ws_char_solid_first: "solid c \<Longrightarrow> \<not> ws_char (c # s)"
  by (auto simp: ws_char_def solid_def split: list.splits)

lemma ws_char_solid_last: "solid c \<Longrightarrow> \<not> ws_char (s @ [c])"
  by (cases s rule: rev_cases; cases "butlast s" rule: rev_cases;
      cases "butlast (butlast s)" rule: rev_cases)
    (auto simp: ws_char_def solid_def split: list.splits)

lemma ws_front_solid: "solid c \<Longrightarrow> ws_front (c # s) = 0"
  by (simp add: ws_front_def numeral_2_eq_2 numeral_3_eq_3 ws_char_solid_first)

lemma ws_back_solid: "solid c \<Longrightarrow> ws_back (s @ [c]) = 0"
  by (simp add: ws_back_def numeral_2_eq_2 numeral_3_eq_3 ws_char_solid_last
      ws_char_solid_last [of c "[]", simplified])

lemma trim_solid:
  assumes "s \<noteq> []" "solid (hd s)" "solid (last s)"
  shows "trim s = s"
proof -
  from assms(1) have "s = hd s # tl s" and "s = butlast s @ [last s]" by simp_all
  then have "ws_front s = 0" and "ws_back s = 0"
    using ws_front_solid [OF assms(2), of "tl s"] ws_back_solid [OF assms(3), of "butlast s"]
    by simp_all
  then show ?thesis
    by (simp add: trim_def trim_start.simps [of s] trim_end.simps [of s])
qed

section \<open>Numbers as text\<close>

definition digit_char :: "nat \<Rightarrow> char" where
  "digit_char d = char_of (if d < 10 then 48 + d else 87 + d)"

text \<open>Rust's \<open>Display\<close> of an unsigned integer.\<close>

fun nat_dec :: "nat \<Rightarrow> string" where
  "nat_dec n = (if n < 10 then [digit_char n] else nat_dec (n div 10) @ [digit_char (n mod 10)])"

declare nat_dec.simps [simp del]

definition u64_dec :: "u64 \<Rightarrow> string" where
  "u64_dec w = nat_dec (unat w)"

text \<open>\<open>char::to_digit(radix)\<close> for a radix of at most 36.\<close>

definition to_digit :: "nat \<Rightarrow> char \<Rightarrow> nat option" where
  "to_digit radix c =
     (let b = byte c;
          d = (if 48 \<le> b \<and> b \<le> 57 then b - 48
               else if 97 \<le> b \<and> b \<le> 122 then b - 87
               else if 65 \<le> b \<and> b \<le> 90 then b - 55 else 36)
      in if d < radix then Some d else None)"

lemma to_digit_digit_char: "d < radix \<Longrightarrow> radix \<le> 36 \<Longrightarrow> to_digit radix (digit_char d) = Some d"
  by (auto simp: to_digit_def digit_char_def Let_def)

lemma to_digit_less: "to_digit radix c = Some d \<Longrightarrow> d < radix"
  by (auto simp: to_digit_def Let_def split: if_splits)

lemma to_digit_solid: "to_digit radix c = Some d \<Longrightarrow> radix \<le> 36 \<Longrightarrow> solid c"
  by (auto simp: to_digit_def solid_def Let_def split: if_splits)

text \<open>The value of a digit string, most significant digit first.\<close>

fun digits_value :: "nat \<Rightarrow> nat \<Rightarrow> string \<Rightarrow> nat" where
  "digits_value radix acc [] = acc"
| "digits_value radix acc (c # s) =
     (case to_digit radix c of
        Some d \<Rightarrow> digits_value radix (acc * radix + d) s
      | None \<Rightarrow> acc)"

definition is_digit :: "nat \<Rightarrow> char \<Rightarrow> bool" where
  "is_digit radix c \<longleftrightarrow> to_digit radix c \<noteq> None"

lemma digits_value_snoc:
  "\<forall>x \<in> set s. is_digit radix x \<Longrightarrow> to_digit radix c = Some d \<Longrightarrow>
     digits_value radix acc (s @ [c]) = digits_value radix acc s * radix + d"
  by (induction s arbitrary: acc) (auto simp: is_digit_def)

lemma nat_dec_digits: "\<forall>c \<in> set (nat_dec n). is_digit 10 c"
proof (induction n rule: nat_dec.induct)
  case (1 n)
  then show ?case
    by (subst nat_dec.simps) (auto simp: is_digit_def to_digit_digit_char)
qed

lemma nat_dec_value: "digits_value 10 0 (nat_dec n) = n"
proof (induction n rule: nat_dec.induct)
  case (1 n)
  show ?case
  proof (cases "n < 10")
    case True
    then show ?thesis by (subst nat_dec.simps) (simp add: to_digit_digit_char)
  next
    case False
    then show ?thesis
      by (subst nat_dec.simps)
        (simp add: 1 digits_value_snoc [OF nat_dec_digits to_digit_digit_char])
  qed
qed

lemma nat_dec_nonempty [simp]: "nat_dec n \<noteq> []"
  by (subst nat_dec.simps) simp

lemma nat_dec_length: "n < 10 ^ k \<Longrightarrow> 0 < k \<Longrightarrow> length (nat_dec n) \<le> k"
proof (induction k arbitrary: n)
  case 0
  then show ?case by simp
next
  case (Suc k)
  show ?case
  proof (cases "n < 10")
    case True
    then show ?thesis by (subst nat_dec.simps) simp
  next
    case False
    with Suc.prems(1) have "0 < k" by (cases k) auto
    moreover from Suc.prems(1) have "n div 10 < 10 ^ k"
      by (simp add: less_mult_imp_div_less mult.commute)
    ultimately have "length (nat_dec (n div 10)) \<le> k" by (rule Suc.IH [rotated])
    with False show ?thesis by (subst nat_dec.simps) simp
  qed
qed

lemma digit_char_not_zero: "0 < d \<Longrightarrow> d < 10 \<Longrightarrow> digit_char d \<noteq> CHR ''0''"
proof
  assume "0 < d" "d < 10" "digit_char d = CHR ''0''"
  then have "byte (digit_char d) = byte (CHR ''0'')" by simp
  with \<open>0 < d\<close> \<open>d < 10\<close> show False by (simp add: digit_char_def) (simp add: byte_def)
qed

lemma hd_nat_dec: "0 < n \<Longrightarrow> hd (nat_dec n) \<noteq> CHR ''0''"
proof (induction n rule: nat_dec.induct)
  case (1 n)
  show ?case
  proof (cases "n < 10")
    case True
    with 1 show ?thesis by (subst nat_dec.simps) (simp add: digit_char_not_zero)
  next
    case False
    with 1 show ?thesis by (subst nat_dec.simps) simp
  qed
qed

section \<open>The interface of a table keyed by a name\<close>

text \<open>
  The program keeps four tables under a mutex (endpoints by handle, sessions by id,
  streams by session and stream id, heap strings by pointer). Their clients only rely on
  what a lookup returns after an insertion and after a removal.
\<close>

locale handle_table =
  fixes find_in :: "'t \<Rightarrow> 'k \<Rightarrow> 'v option"
    and put_in :: "'k \<Rightarrow> 'v \<Rightarrow> 't \<Rightarrow> 't"
    and drop_from :: "'k \<Rightarrow> 't \<Rightarrow> 't"
  assumes find_put: "find_in (put_in k v t) k' = (if k' = k then Some v else find_in t k')"
    and find_drop: "find_in (drop_from k t) k' = (if k' = k then None else find_in t k')"
begin

lemma find_put_same [simp]: "find_in (put_in k v t) k = Some v"
  by (simp add: find_put)

lemma find_put_other: "k' \<noteq> k \<Longrightarrow> find_in (put_in k v t) k' = find_in t k'"
  by (simp add: find_put)

lemma dropped_is_gone [simp]: "find_in (drop_from k t) k = None"
  by (simp add: find_drop)

lemma drop_twice: "find_in (drop_from k (drop_from k t)) = find_in (drop_from k t)"
  by (rule ext) (simp add: find_drop)

lemma drop_put_cancels: "find_in t k = None \<Longrightarrow> find_in (drop_from k (put_in k v t)) = find_in t"
  by (rule ext) (simp add: find_drop find_put)

lemma put_put_commute:
  "k \<noteq> k' \<Longrightarrow> find_in (put_in k v (put_in k' v' t)) = find_in (put_in k' v' (put_in k v t))"
  by (rule ext) (simp add: find_put)

end

text \<open>The tables of the model are association lists with \<open>HashMap\<close>'s semantics.\<close>

type_synonym ('k, 'v) table = "('k \<times> 'v) list"

definition retain :: "('k \<Rightarrow> bool) \<Rightarrow> ('k, 'v) table \<Rightarrow> ('k, 'v) table" where
  "retain p t = filter (\<lambda>(k, _). p k) t"

lemma map_of_retain: "map_of (retain p t) k = (if p k then map_of t k else None)"
  by (induction t) (auto simp: retain_def)

lemma set_retain_keys: "fst ` set (retain p t) = {k \<in> fst ` set t. p k}"
  by (force simp: retain_def)

interpretation tab: handle_table map_of AList.update AList.delete
  by unfold_locales (simp_all add: update_conv' delete_conv')

lemma distinct_keys_update: "distinct (map fst t) \<Longrightarrow> distinct (map fst (AList.update k v t))"
  by (rule distinct_update)

lemma distinct_keys_retain: "distinct (map fst t) \<Longrightarrow> distinct (map fst (retain p t))"
  by (simp add: retain_def distinct_map_filter)

end
