(* ===== verification/RkStatus.thy ===== *)
theory RkStatus
  imports RkPrelude
begin

text \<open>
  The closed set of statuses (\<open>rust/src/status.rs\<close>), the names under which they cross the C
  boundary, and the Dart reader of those names (\<open>lib/src/status.dart\<close>).
\<close>

section \<open>The interface of an enumeration that crosses by name\<close>

text \<open>
  Every enumeration of the program that leaves the library leaves it as a name. What a reader
  relies on is the same for statuses and for event kinds: the list of variants is complete,
  the names are pairwise different, and no name holds a NUL byte.
\<close>

definition NUL :: char where
  "NUL = char_of (0::nat)"

text \<open>What a C reader sees at a pointer: the bytes up to the first NUL, if there is one.\<close>

definition c_read :: "string \<Rightarrow> string option" where
  "c_read mem = (if NUL \<in> set mem then Some (takeWhile (\<lambda>c. c \<noteq> NUL) mem) else None)"

lemma c_read_terminated: "NUL \<notin> set s \<Longrightarrow> c_read (s @ NUL # rest) = Some s"
  by (auto simp: c_read_def takeWhile_append2 takeWhile_tail)

lemma c_read_no_NUL: "c_read mem = Some s \<Longrightarrow> NUL \<notin> set s"
  by (auto simp: c_read_def dest: set_takeWhileD split: if_splits)

locale named_enum =
  fixes variants :: "'a list"
    and enum_name :: "'a \<Rightarrow> string"
  assumes complete: "v \<in> set variants"
    and names_differ: "distinct (map enum_name variants)"
    and no_nul: "NUL \<notin> set (enum_name v)"
begin

lemma enum_name_inj: "enum_name v = enum_name w \<longleftrightarrow> v = w"
  using names_differ complete [of v] complete [of w]
  by (auto simp: distinct_map dest: inj_onD)

text \<open>A reader that searches the variants by name finds the one that was sent.\<close>

lemma find_by_name: "find (\<lambda>v. enum_name v = n) variants = (if \<exists>v. enum_name v = n
    then Some (THE v. enum_name v = n) else None)"
proof (cases "\<exists>v. enum_name v = n")
  case True
  then obtain v where v: "enum_name v = n" by blast
  then have the: "(THE v. enum_name v = n) = v"
    by (auto simp: enum_name_inj)
  have "find (\<lambda>v. enum_name v = n) variants \<noteq> None"
    using v complete [of v] by (auto simp: find_None_iff)
  then obtain w where "find (\<lambda>v. enum_name v = n) variants = Some w" by blast
  then have "enum_name w = n" by (auto simp: find_Some_iff)
  with v have "w = v" by (simp add: enum_name_inj [symmetric])
  with \<open>find _ variants = Some w\<close> the True show ?thesis by simp
next
  case False
  then show ?thesis by (simp add: find_None_iff)
qed

lemma find_sent: "find (\<lambda>w. enum_name w = enum_name v) variants = Some v"
  by (subst find_by_name) (auto simp: enum_name_inj)

lemma read_back: "c_read (enum_name v @ NUL # rest) = Some (enum_name v)"
  by (rule c_read_terminated [OF no_nul])

end

section \<open>Statuses\<close>

datatype Status =
    StatusOk
  | InvalidArgument
  | UnknownHandle
  | PortInUse
  | BindFailed
  | BadCertificate
  | PeerGone
  | WouldBlock
  | NotRunning
  | Panic
  | Unsupported

definition status_ALL :: "Status list" where
  "status_ALL = [StatusOk, InvalidArgument, UnknownHandle, PortInUse, BindFailed, BadCertificate,
          PeerGone, WouldBlock, NotRunning, Panic, Unsupported]"

fun name_with_nul :: "Status \<Rightarrow> string" where
  "name_with_nul StatusOk = ''ok'' @ [NUL]"
| "name_with_nul InvalidArgument = ''invalidArgument'' @ [NUL]"
| "name_with_nul UnknownHandle = ''unknownHandle'' @ [NUL]"
| "name_with_nul PortInUse = ''portInUse'' @ [NUL]"
| "name_with_nul BindFailed = ''bindFailed'' @ [NUL]"
| "name_with_nul BadCertificate = ''badCertificate'' @ [NUL]"
| "name_with_nul PeerGone = ''peerGone'' @ [NUL]"
| "name_with_nul WouldBlock = ''wouldBlock'' @ [NUL]"
| "name_with_nul NotRunning = ''notRunning'' @ [NUL]"
| "name_with_nul Panic = ''panic'' @ [NUL]"
| "name_with_nul Unsupported = ''unsupported'' @ [NUL]"

text \<open>\<open>name\<close> indexes the terminated name, so in Rust it could panic.\<close>

definition name :: "Status \<Rightarrow> string outcome" where
  "name s = (let with_nul = name_with_nul s in str_slice with_nul 0 (length with_nul - 1))"

text \<open>The pointer is modelled by the static bytes it points to.\<close>

definition as_c_str :: "Status \<Rightarrow> string" where
  "as_c_str s = name_with_nul s"

definition plain_name :: "Status \<Rightarrow> string" where
  "plain_name s = butlast (name_with_nul s)"

lemma name_with_nul_split: "name_with_nul s = plain_name s @ [NUL]"
  by (cases s) (simp_all add: plain_name_def)

lemma ALL_complete: "s \<in> set status_ALL"
  by (cases s) (simp_all add: status_ALL_def)

lemma plain_names_distinct: "distinct (map plain_name status_ALL)"
  by (simp add: status_ALL_def plain_name_def)

lemma plain_name_ascii: "ascii (plain_name s)"
  by (cases s) (simp_all add: plain_name_def byte_def)

lemma plain_name_no_nul: "NUL \<notin> set (plain_name s)"
  by (cases s) (simp_all add: plain_name_def NUL_def char_of_def)

lemma plain_name_nonempty: "plain_name s \<noteq> []"
  by (cases s) (simp_all add: plain_name_def)

interpretation status: named_enum status_ALL plain_name
  by unfold_locales (rule ALL_complete plain_names_distinct plain_name_no_nul)+

instantiation Status :: enum
begin

definition enum_Status :: "Status list" where
  "enum_Status = status_ALL"

definition enum_all_Status :: "(Status \<Rightarrow> bool) \<Rightarrow> bool" where
  "enum_all_Status P \<longleftrightarrow> list_all P status_ALL"

definition enum_ex_Status :: "(Status \<Rightarrow> bool) \<Rightarrow> bool" where
  "enum_ex_Status P \<longleftrightarrow> list_ex P status_ALL"

instance
proof
  show "(UNIV :: Status set) = set enum_class.enum"
    using ALL_complete by (auto simp: enum_Status_def)
  show "distinct (enum_class.enum :: Status list)"
    by (simp add: enum_Status_def status_ALL_def)
  show "enum_class.enum_all P \<longleftrightarrow> Ball UNIV P" for P :: "Status \<Rightarrow> bool"
    using ALL_complete by (auto simp: enum_all_Status_def list_all_iff)
  show "enum_class.enum_ex P \<longleftrightarrow> Bex UNIV P" for P :: "Status \<Rightarrow> bool"
    using ALL_complete by (auto simp: enum_ex_Status_def list_ex_iff)
qed

end

section \<open>The Dart reader\<close>

datatype RkQuicStatus =
    D_ok | D_invalidArgument | D_unknownHandle | D_portInUse | D_bindFailed
  | D_badCertificate | D_peerGone | D_wouldBlock | D_notRunning | D_panic
  | D_unsupported | D_unrecognised

fun wireName :: "RkQuicStatus \<Rightarrow> string" where
  "wireName D_ok = ''ok''"
| "wireName D_invalidArgument = ''invalidArgument''"
| "wireName D_unknownHandle = ''unknownHandle''"
| "wireName D_portInUse = ''portInUse''"
| "wireName D_bindFailed = ''bindFailed''"
| "wireName D_badCertificate = ''badCertificate''"
| "wireName D_peerGone = ''peerGone''"
| "wireName D_wouldBlock = ''wouldBlock''"
| "wireName D_notRunning = ''notRunning''"
| "wireName D_panic = ''panic''"
| "wireName D_unsupported = ''unsupported''"
| "wireName D_unrecognised = ''unrecognised''"

definition RkQuicStatus_values :: "RkQuicStatus list" where
  "RkQuicStatus_values = [D_ok, D_invalidArgument, D_unknownHandle, D_portInUse, D_bindFailed,
     D_badCertificate, D_peerGone, D_wouldBlock, D_notRunning, D_panic, D_unsupported,
     D_unrecognised]"

definition statusFromWireName :: "string option \<Rightarrow> RkQuicStatus" where
  "statusFromWireName w =
     (case w of
        None \<Rightarrow> D_unrecognised
      | Some n \<Rightarrow>
          if n = [] then D_unrecognised
          else (case find (\<lambda>s. wireName s = n) RkQuicStatus_values of
                  Some s \<Rightarrow> s | None \<Rightarrow> D_unrecognised))"

interpretation dart_status: named_enum RkQuicStatus_values wireName
proof
  show "v \<in> set RkQuicStatus_values" for v
    by (cases v) (simp_all add: RkQuicStatus_values_def)
  show "distinct (map wireName RkQuicStatus_values)"
    by (simp add: RkQuicStatus_values_def)
  show "NUL \<notin> set (wireName v)" for v
    by (cases v) (simp_all add: NUL_def char_of_def)
qed

lemma name_str_slice: "name s = Returned (plain_name s)"
  by (simp add: name_def as_c_str_def name_with_nul_split str_slice_ascii ascii_def NUL_def
      plain_name_ascii [unfolded ascii_def])

lemma c_read_as_c_str: "c_read (as_c_str s @ rest) = Some (plain_name s)"
  using status.read_back [of s rest] by (simp add: as_c_str_def name_with_nul_split)

text \<open>
  Every status is handed to C as a string a C reader can read, whatever follows it in
  static storage: it is terminated, not truncated by an interior NUL, and reads as
  \<open>Status::name\<close>, which never panics; different statuses read differently, and the Dart
  reader resolves each of them to a status of its own, never to \<open>unrecognised\<close>.
\<close>

lemma status_crosses_by_name:
  "\<exists>n. name s = Returned n \<and> c_read (as_c_str s @ rest) = Some n \<and>
       wireName (statusFromWireName (Some n)) = n \<and>
       statusFromWireName (Some n) \<noteq> D_unrecognised \<and>
       (c_read (as_c_str t @ rest) = Some n \<longleftrightarrow> t = s)"
proof -
  have "\<exists>d. wireName d = plain_name s \<and> d \<noteq> D_unrecognised"
    by (cases s) (auto simp: plain_name_def intro: wireName.simps exI [of _ D_ok]
      exI [of _ D_invalidArgument] exI [of _ D_unknownHandle] exI [of _ D_portInUse]
      exI [of _ D_bindFailed] exI [of _ D_badCertificate] exI [of _ D_peerGone]
      exI [of _ D_wouldBlock] exI [of _ D_notRunning] exI [of _ D_panic] exI [of _ D_unsupported])
  then obtain d where d: "wireName d = plain_name s" "d \<noteq> D_unrecognised" by blast
  then have "statusFromWireName (Some (plain_name s)) = d"
    using dart_status.find_sent [of d] plain_name_nonempty [of s]
    by (simp add: statusFromWireName_def)
  with d show ?thesis
    by (auto simp: name_str_slice c_read_as_c_str status.enum_name_inj)
qed

end
