(* ===== verification/RkFfi.thy ===== *)
theory RkFfi
  imports RkStatus
begin

text \<open>
  The three rules of the C boundary (\<open>rust/src/ffi.rs\<close>) and the per-thread error detail
  (\<open>rust/src/lib.rs\<close>): memory the library hands out and takes back, pointers it writes
  through, the guard that turns a panic into a status, and \<open>rk_quic_last_error\<close>.

  Memory is explicit. A pointer is a number and null is 0. \<open>heap\<close> holds the C strings the
  library allocated and the caller owns, with their terminator; the three cell tables hold
  what was written through the caller's out-pointers. The allocator returns a fresh non-null
  address: no address is reused.
\<close>

section \<open>State\<close>

type_synonym thread = nat
type_synonym ptr = nat

record ffi_state =
  last_error :: "thread \<Rightarrow> rstr option"
  heap :: "(ptr, string) table"
  next_ptr :: ptr
  cells_u64 :: "(ptr, u64) table"
  cells_u16 :: "(ptr, u16) table"
  cells_ptr :: "(ptr, ptr) table"

definition RK_QUIC_ABI_VERSION :: u32 where
  "RK_QUIC_ABI_VERSION = 2"

definition rk_quic_abi_version :: u32 where
  "rk_quic_abi_version = RK_QUIC_ABI_VERSION"

definition VERSION :: string where
  "VERSION = ''0.3.0'' @ [NUL]"

definition rk_quic_version :: string where
  "rk_quic_version = VERSION"

section \<open>Operations\<close>

text \<open>
  \<open>borrow_c_string\<close>: the argument is null (\<open>None\<close>) or the memory from the pointer on, which
  the caller promises to hold a NUL. The result is its text up to there, if it is UTF-8.
\<close>

definition borrow_c_string :: "string option \<Rightarrow> rstr option" where
  "borrow_c_string s =
     (case s of
        None \<Rightarrow> None
      | Some mem \<Rightarrow>
          (case c_read mem of
             None \<Rightarrow> None
           | Some text \<Rightarrow> if utf8_valid text then Some text else None))"

definition write_out :: "ptr \<Rightarrow> 'a \<Rightarrow> (ptr, 'a) table \<Rightarrow> (ptr, 'a) table" where
  "write_out out value cells = (if out \<noteq> 0 then AList.update out value cells else cells)"

definition NUL_REPLACEMENT :: string where
  "NUL_REPLACEMENT = ''<string contained a NUL>''"

definition into_owned_c_string ::
  "rstr \<Rightarrow> 'a ffi_state_scheme \<Rightarrow> ptr \<times> 'a ffi_state_scheme" where
  "into_owned_c_string value st =
     (let content = (if NUL \<in> set value then NUL_REPLACEMENT else value);
          p = next_ptr st
      in (p, st\<lparr>heap := AList.update p (content @ [NUL]) (heap st), next_ptr := Suc p\<rparr>))"

text \<open>\<open>None\<close> is undefined behaviour: the pointer is not one the library has outstanding.\<close>

definition rk_quic_string_free ::
  "ptr \<Rightarrow> 'a ffi_state_scheme \<Rightarrow> 'a ffi_state_scheme option" where
  "rk_quic_string_free s st =
     (if s = 0 then Some st
      else (case map_of (heap st) s of
              None \<Rightarrow> None
            | Some _ \<Rightarrow> Some (st\<lparr>heap := AList.delete s (heap st)\<rparr>)))"

definition set_last_error ::
  "thread \<Rightarrow> rstr \<Rightarrow> 'a ffi_state_scheme \<Rightarrow> 'a ffi_state_scheme" where
  "set_last_error t message st = st\<lparr>last_error := (last_error st)(t := Some message)\<rparr>"

definition clear_last_error :: "thread \<Rightarrow> 'a ffi_state_scheme \<Rightarrow> 'a ffi_state_scheme" where
  "clear_last_error t st = st\<lparr>last_error := (last_error st)(t := None)\<rparr>"

definition rk_quic_last_error ::
  "thread \<Rightarrow> 'a ffi_state_scheme \<Rightarrow> ptr \<times> 'a ffi_state_scheme" where
  "rk_quic_last_error t st =
     (case last_error st t of
        Some message \<Rightarrow> into_owned_c_string message (clear_last_error t st)
      | None \<Rightarrow> (0, clear_last_error t st))"

text \<open>
  \<open>guard\<close>: the body has run and left a state behind; a panic inside it becomes the status
  \<open>panic\<close>. What the body did before it panicked stays done.
\<close>

definition guard :: "Status outcome \<times> 's \<Rightarrow> string \<times> 's" where
  "guard body =
     (case body of
        (Returned status, st) \<Rightarrow> (as_c_str status, st)
      | (Panicked, st) \<Rightarrow> (as_c_str Panic, st))"

section \<open>The invariant of the allocator and its lemmas\<close>

definition ffi_wf :: "'a ffi_state_scheme \<Rightarrow> bool" where
  "ffi_wf st \<longleftrightarrow> 0 < next_ptr st \<and> (\<forall>p. map_of (heap st) p \<noteq> None \<longrightarrow> 0 < p \<and> p < next_ptr st)"

lemma ffi_wf_fresh: "ffi_wf st \<Longrightarrow> map_of (heap st) (next_ptr st) = None"
  by (metis ffi_wf_def less_irrefl)

lemma ffi_wf_into_owned: "ffi_wf st \<Longrightarrow> ffi_wf (snd (into_owned_c_string v st))"
  by (auto simp: ffi_wf_def into_owned_c_string_def Let_def tab.find_put less_Suc_eq)

lemma ffi_wf_set_error [simp]: "ffi_wf (set_last_error t m st) = ffi_wf st"
  by (simp add: ffi_wf_def set_last_error_def)

lemma ffi_wf_clear_error [simp]: "ffi_wf (clear_last_error t st) = ffi_wf st"
  by (simp add: ffi_wf_def clear_last_error_def)

lemma ffi_wf_cells [simp]:
  "ffi_wf (st\<lparr>cells_u64 := a\<rparr>) = ffi_wf st"
  "ffi_wf (st\<lparr>cells_u16 := b\<rparr>) = ffi_wf st"
  "ffi_wf (st\<lparr>cells_ptr := c\<rparr>) = ffi_wf st"
  by (simp_all add: ffi_wf_def)

lemma ffi_wf_last_error: "ffi_wf st \<Longrightarrow> ffi_wf (snd (rk_quic_last_error t st))"
  by (simp add: rk_quic_last_error_def ffi_wf_into_owned split: option.splits)

lemma ffi_wf_free: "ffi_wf st \<Longrightarrow> rk_quic_string_free p st = Some st' \<Longrightarrow> ffi_wf st'"
  by (auto simp: rk_quic_string_free_def ffi_wf_def tab.find_drop split: if_splits option.splits)

lemma last_error_set [simp]:
  "last_error (set_last_error t m st) t' = (if t' = t then Some m else last_error st t')"
  by (simp add: set_last_error_def)

lemma last_error_clear [simp]:
  "last_error (clear_last_error t st) t' = (if t' = t then None else last_error st t')"
  by (simp add: clear_last_error_def)

lemma into_owned_frame [simp]:
  "last_error (snd (into_owned_c_string v st)) = last_error st"
  "cells_u64 (snd (into_owned_c_string v st)) = cells_u64 st"
  "cells_u16 (snd (into_owned_c_string v st)) = cells_u16 st"
  "cells_ptr (snd (into_owned_c_string v st)) = cells_ptr st"
  "ffi_state.more (snd (into_owned_c_string v st)) = ffi_state.more st"
  by (simp_all add: into_owned_c_string_def Let_def)

lemma set_error_frame [simp]:
  "heap (set_last_error t m st) = heap st" "next_ptr (set_last_error t m st) = next_ptr st"
  "cells_u64 (set_last_error t m st) = cells_u64 st"
  "cells_u16 (set_last_error t m st) = cells_u16 st"
  "cells_ptr (set_last_error t m st) = cells_ptr st"
  "ffi_state.more (set_last_error t m st) = ffi_state.more st"
  by (simp_all add: set_last_error_def)

lemma clear_error_frame [simp]:
  "heap (clear_last_error t st) = heap st" "next_ptr (clear_last_error t st) = next_ptr st"
  "cells_u64 (clear_last_error t st) = cells_u64 st"
  "cells_u16 (clear_last_error t st) = cells_u16 st"
  "cells_ptr (clear_last_error t st) = cells_ptr st"
  "ffi_state.more (clear_last_error t st) = ffi_state.more st"
  by (simp_all add: clear_last_error_def)

lemma map_of_write_out:
  "map_of (write_out out v cells) q = (if q = out \<and> out \<noteq> 0 then Some v else map_of cells q)"
  by (simp add: write_out_def tab.find_put)

lemma NUL_not_in_replacement: "NUL \<notin> set NUL_REPLACEMENT"
  by (simp add: NUL_REPLACEMENT_def NUL_def char_of_def)

lemma into_owned_readable:
  "into_owned_c_string v st = (p, st') \<Longrightarrow>
     \<exists>mem. map_of (heap st') p = Some mem \<and>
           c_read mem = Some (if NUL \<in> set v then NUL_REPLACEMENT else v)"
  using c_read_terminated [of "if NUL \<in> set v then NUL_REPLACEMENT else v" "[]"]
    NUL_not_in_replacement
  by (auto simp: into_owned_c_string_def Let_def)

lemma guard_name: "\<exists>s. fst (guard body) = as_c_str s"
  by (auto simp: guard_def split: prod.splits outcome.splits)

lemma guard_simps [simp]:
  "guard (Returned s, st) = (as_c_str s, st)"
  "guard (Panicked, st) = (as_c_str Panic, st)"
  by (simp_all add: guard_def)

lemma as_c_str_inj [simp]: "as_c_str s = as_c_str t \<longleftrightarrow> s = t"
  by (simp add: as_c_str_def name_with_nul_split status.enum_name_inj)

section \<open>The contract every entry point keeps\<close>

text \<open>
  Every \<open>extern "C"\<close> entry point promises the same things about the boundary state: the
  answer is a status name, the detail of another thread is not touched, no string the caller
  owns is freed or changed, and the allocator stays well formed. What a client of the library
  may conclude about a whole sequence of calls follows from these alone.
\<close>

fun run_calls :: "(thread \<Rightarrow> 'c \<Rightarrow> 's \<Rightarrow> string \<times> 's) \<Rightarrow> (thread \<times> 'c) list \<Rightarrow> 's \<Rightarrow> 's" where
  "run_calls call [] st = st"
| "run_calls call ((t, c) # cs) st = run_calls call cs (snd (call t c st))"

locale ffi_entry =
  fixes call :: "thread \<Rightarrow> 'c \<Rightarrow> 'a ffi_state_scheme \<Rightarrow> string \<times> 'a ffi_state_scheme"
  assumes answers_by_name: "\<exists>s. fst (call t c st) = as_c_str s"
    and other_detail: "t' \<noteq> t \<Longrightarrow> last_error (snd (call t c st)) t' = last_error st t'"
    and keeps_owned: "ffi_wf st \<Longrightarrow> map_of (heap st) p = Some m \<Longrightarrow>
                        map_of (heap (snd (call t c st))) p = Some m"
    and keeps_wf: "ffi_wf st \<Longrightarrow> ffi_wf (snd (call t c st))"
begin

lemma run_keeps_wf: "ffi_wf st \<Longrightarrow> ffi_wf (run_calls call cs st)"
proof (induction cs arbitrary: st)
  case (Cons c cs)
  then show ?case by (cases c) (simp add: keeps_wf)
qed simp

lemma run_keeps_detail:
  "\<forall>(t', c) \<in> set cs. t' \<noteq> t \<Longrightarrow> last_error (run_calls call cs st) t = last_error st t"
proof (induction cs arbitrary: st)
  case (Cons c cs)
  then show ?case by (cases c) (auto simp: other_detail)
qed simp

lemma run_keeps_owned:
  "ffi_wf st \<Longrightarrow> map_of (heap st) p = Some m \<Longrightarrow>
     map_of (heap (run_calls call cs st)) p = Some m"
proof (induction cs arbitrary: st)
  case (Cons c cs)
  then show ?case by (cases c) (simp add: keeps_wf keeps_owned)
qed simp

lemma answer_readable:
  "\<exists>s. c_read (fst (call t c st) @ rest) = Some (plain_name s)"
  using answers_by_name [of t c st] c_read_as_c_str by metis

end

section \<open>Properties\<close>

text \<open>
  The detail of a failure is reported once and to its own thread: after
  \<open>set_last_error\<close> the next \<open>rk_quic_last_error\<close> of that thread returns a non-null string
  that reads as the message (or as the fixed replacement when the message holds a NUL), a
  second read is null, other threads' slots are untouched, and handing the string back with
  \<open>rk_quic_string_free\<close> leaves the heap as it was.
\<close>

lemma last_error_reported_once:
  assumes "ffi_wf st"
    and "rk_quic_last_error t (set_last_error t m st) = (p, st1)"
  shows "p \<noteq> 0 \<and>
    (\<exists>mem. map_of (heap st1) p = Some mem \<and>
       c_read mem = Some (if NUL \<in> set m then NUL_REPLACEMENT else m)) \<and>
    fst (rk_quic_last_error t st1) = 0 \<and>
    (\<forall>t'. t' \<noteq> t \<longrightarrow> last_error st1 t' = last_error st t') \<and>
    (\<exists>st2. rk_quic_string_free p st1 = Some st2 \<and> map_of (heap st2) = map_of (heap st))"
proof -
  let ?st = "clear_last_error t (set_last_error t m st)"
  from assms(2) have io: "into_owned_c_string m ?st = (p, st1)"
    by (simp add: rk_quic_last_error_def)
  then have p: "p = next_ptr st" and err: "last_error st1 = last_error ?st"
    and hp: "heap st1 = AList.update p ((if NUL \<in> set m then NUL_REPLACEMENT else m) @ [NUL]) (heap st)"
    by (auto simp: into_owned_c_string_def Let_def)
  from assms(1) p have "p \<noteq> 0" and fresh: "map_of (heap st) p = None"
    by (auto simp: ffi_wf_def ffi_wf_fresh)
  moreover have "fst (rk_quic_last_error t st1) = 0"
    by (simp add: rk_quic_last_error_def err)
  moreover have "\<exists>st2. rk_quic_string_free p st1 = Some st2 \<and> map_of (heap st2) = map_of (heap st)"
    using \<open>p \<noteq> 0\<close> fresh by (auto simp: rk_quic_string_free_def hp tab.drop_put_cancels)
  ultimately show ?thesis
    using into_owned_readable [OF io] by (auto simp: err)
qed

definition empty_ffi :: ffi_state where
  "empty_ffi = \<lparr>last_error = (\<lambda>_. None), heap = [], next_ptr = 1, cells_u64 = [],
                cells_u16 = [], cells_ptr = []\<rparr>"

lemma ffi_wf_empty [simp]: "ffi_wf empty_ffi"
  by (simp add: ffi_wf_def empty_ffi_def)

lemma last_error_reported_once_witness:
  "\<exists>p st1. rk_quic_last_error 7 (set_last_error 7 ''port 4433 is taken'' empty_ffi) = (p, st1) \<and>
     p \<noteq> 0 \<and> fst (rk_quic_last_error 7 st1) = 0"
proof -
  obtain p st1 where
    r: "rk_quic_last_error 7 (set_last_error 7 ''port 4433 is taken'' empty_ffi) = (p, st1)"
    by fastforce
  from last_error_reported_once [OF ffi_wf_empty r] r show ?thesis by blast
qed

end
