(* ===== verification/RkSockAddr.thy ===== *)
theory RkSockAddr
  imports RkPrelude
begin

text \<open>
  The part of the standard library that \<open>ServerConfig::parse\<close> and \<open>transport::start\<close> use on
  addresses: \<open>str::parse::<SocketAddr>\<close> (the recursive-descent parser of
  \<open>core::net::parser\<close>) and the \<open>Display\<close> of a \<open>SocketAddr\<close>. A reader consumes a prefix and
  returns the value with the rest, or \<open>None\<close> having consumed nothing.
\<close>

datatype SocketAddr =
    V4 u8 u8 u8 u8 u16
  | V6 "u16 list" u32 u16

section \<open>Readers\<close>

type_synonym 'a reader = "string \<Rightarrow> ('a \<times> string) option"

definition read_given_char :: "char \<Rightarrow> unit reader" where
  "read_given_char c s = (case s of x # r \<Rightarrow> if x = c then Some ((), r) else None | [] \<Rightarrow> None)"

text \<open>
  A number in the given radix: the longest run of digits, at most \<open>max_digits\<close> of them where
  there is a limit, no superfluous leading zero unless allowed, not above the target type.
\<close>

definition read_number ::
  "nat \<Rightarrow> nat option \<Rightarrow> bool \<Rightarrow> nat \<Rightarrow> nat reader" where
  "read_number radix max_digits allow_zero_prefix max_value s =
     (let ds = takeWhile (is_digit radix) s;
          v = digits_value radix 0 ds
      in if ds = [] then None
         else if (case max_digits of Some m \<Rightarrow> m < length ds | None \<Rightarrow> False) then None
         else if \<not> allow_zero_prefix \<and> hd ds = CHR ''0'' \<and> 1 < length ds then None
         else if max_value < v then None
         else Some (v, dropWhile (is_digit radix) s))"

definition read_separator :: "char \<Rightarrow> nat \<Rightarrow> 'a reader \<Rightarrow> 'a reader" where
  "read_separator sep index inner s =
     (if 0 < index
      then (case read_given_char sep s of Some (_, r) \<Rightarrow> inner r | None \<Rightarrow> None)
      else inner s)"

text \<open>The loop over the remaining octets of an IPv4 address; \<open>i\<close> is the loop index.\<close>

fun read_octets :: "nat \<Rightarrow> nat \<Rightarrow> u8 list reader" where
  "read_octets 0 i s = Some ([], s)"
| "read_octets (Suc n) i s =
     (case read_separator (CHR ''.'') i (read_number 10 (Some 3) False 255) s of
        None \<Rightarrow> None
      | Some (v, r) \<Rightarrow>
          (case read_octets n (Suc i) r of
             None \<Rightarrow> None
           | Some (vs, r') \<Rightarrow> Some (of_nat v # vs, r')))"

definition read_ipv4_addr :: "u8 list reader" where
  "read_ipv4_addr s = read_octets 4 0 s"

text \<open>
  \<open>read_groups\<close>: up to \<open>n\<close> further groups of an IPv6 address, and whether a trailing embedded
  IPv4 address was read (which needs at least two groups of room).
\<close>

fun octet_pairs :: "u8 list \<Rightarrow> u16 list" where
  "octet_pairs (a # b # r) = (ucast a * 256 + ucast b) # octet_pairs r"
| "octet_pairs _ = []"

fun read_groups :: "nat \<Rightarrow> nat \<Rightarrow> string \<Rightarrow> u16 list \<times> bool \<times> string" where
  "read_groups 0 i s = ([], False, s)"
| "read_groups (Suc n) i s =
     (case (if 0 < n then read_separator (CHR '':'') i read_ipv4_addr s else None) of
        Some (os, r) \<Rightarrow> (octet_pairs os, True, r)
      | None \<Rightarrow>
          (case read_separator (CHR '':'') i (read_number 16 (Some 4) True 65535) s of
             None \<Rightarrow> ([], False, s)
           | Some (g, r) \<Rightarrow>
               (case read_groups n (Suc i) r of
                  (gs, v4, r') \<Rightarrow> (of_nat g # gs, v4, r'))))"

definition read_ipv6_addr :: "u16 list reader" where
  "read_ipv6_addr s =
     (case read_groups 8 0 s of
        (head, head_ipv4, r) \<Rightarrow>
          if length head = 8 then Some (head, r)
          else if head_ipv4 then None
          else (case read_given_char (CHR '':'') r of
                  None \<Rightarrow> None
                | Some (_, r1) \<Rightarrow>
                    (case read_given_char (CHR '':'') r1 of
                       None \<Rightarrow> None
                     | Some (_, r2) \<Rightarrow>
                         (case read_groups (8 - (length head + 1)) 0 r2 of
                            (tail, _, r3) \<Rightarrow>
                              Some (head @ replicate (8 - length head - length tail) 0 @ tail,
                                    r3)))))"

definition read_port :: "u16 reader" where
  "read_port s =
     (case read_given_char (CHR '':'') s of
        None \<Rightarrow> None
      | Some (_, r) \<Rightarrow> map_option (\<lambda>(v, r'). (of_nat v, r')) (read_number 10 None True 65535 r))"

definition read_scope_id :: "u32 reader" where
  "read_scope_id s =
     (case read_given_char (CHR ''%'') s of
        None \<Rightarrow> None
      | Some (_, r) \<Rightarrow>
          map_option (\<lambda>(v, r'). (of_nat v, r')) (read_number 10 None True 4294967295 r))"

definition read_socket_addr_v4 :: "SocketAddr reader" where
  "read_socket_addr_v4 s =
     (case read_ipv4_addr s of
        Some ([a, b, c, d], r) \<Rightarrow> map_option (\<lambda>(p, r'). (V4 a b c d p, r')) (read_port r)
      | _ \<Rightarrow> None)"

definition read_socket_addr_v6 :: "SocketAddr reader" where
  "read_socket_addr_v6 s =
     (case read_given_char (CHR ''['') s of
        None \<Rightarrow> None
      | Some (_, r) \<Rightarrow>
          (case read_ipv6_addr r of
             None \<Rightarrow> None
           | Some (ip, r1) \<Rightarrow>
               (case (case read_scope_id r1 of Some x \<Rightarrow> x | None \<Rightarrow> (0, r1)) of
                  (scope, r2) \<Rightarrow>
                    (case read_given_char (CHR '']'') r2 of
                       None \<Rightarrow> None
                     | Some (_, r3) \<Rightarrow>
                         map_option (\<lambda>(p, r'). (V6 ip scope p, r')) (read_port r3)))))"

definition parse_socket_addr :: "string \<Rightarrow> SocketAddr option" where
  "parse_socket_addr s =
     (case (case read_socket_addr_v4 s of Some x \<Rightarrow> Some x | None \<Rightarrow> read_socket_addr_v6 s) of
        Some (addr, []) \<Rightarrow> Some addr
      | _ \<Rightarrow> None)"

section \<open>Display\<close>

fun intersperse_str :: "string \<Rightarrow> string list \<Rightarrow> string" where
  "intersperse_str sep [] = []"
| "intersperse_str sep [x] = x"
| "intersperse_str sep (x # y # r) = x @ sep @ intersperse_str sep (y # r)"

fun nat_hex :: "nat \<Rightarrow> string" where
  "nat_hex n = (if n < 16 then [digit_char n] else nat_hex (n div 16) @ [digit_char (n mod 16)])"

declare nat_hex.simps [simp del]

definition show_groups :: "u16 list \<Rightarrow> string" where
  "show_groups gs = intersperse_str '':'' (map (\<lambda>g. nat_hex (unat g)) gs)"

text \<open>The first longest run of zero groups, as start and length, scanning left to right.\<close>

fun zero_run :: "u16 list \<Rightarrow> nat \<Rightarrow> nat \<times> nat \<Rightarrow> nat \<times> nat \<Rightarrow> nat \<times> nat" where
  "zero_run [] i cur longest = longest"
| "zero_run (g # gs) i (start, len) longest =
     (if g = 0 then
        (let cur = (if len = 0 then (i, 1) else (start, Suc len)) in
         zero_run gs (Suc i) cur (if snd longest < snd cur then cur else longest))
      else zero_run gs (Suc i) (0, 0) longest)"

definition display_ipv6 :: "u16 list \<Rightarrow> string" where
  "display_ipv6 gs =
     (if length gs = 8 \<and> take 6 gs = [0, 0, 0, 0, 0, 0xFFFF] then
        ''::ffff:'' @ intersperse_str ''.''
          (map (\<lambda>g. nat_dec (unat g div 256) @ ''.'' @ nat_dec (unat g mod 256)) (drop 6 gs))
      else
        (case zero_run gs 0 (0, 0) (0, 0) of
           (start, len) \<Rightarrow>
             if 1 < len then show_groups (take start gs) @ ''::'' @ show_groups (drop (start + len) gs)
             else show_groups gs))"

fun display_socket_addr :: "SocketAddr \<Rightarrow> string" where
  "display_socket_addr (V4 a b c d p) =
     intersperse_str ''.'' (map (\<lambda>o'. nat_dec (unat o')) [a, b, c, d]) @ '':'' @ nat_dec (unat p)"
| "display_socket_addr (V6 gs scope p) =
     ''['' @ display_ipv6 gs @ (if scope = 0 then [] else ''%'' @ nat_dec (unat scope)) @ '']:''
       @ nat_dec (unat p)"

section \<open>Reading back what was displayed\<close>

lemma non_digit_sep [simp]:
  "\<not> is_digit 10 (CHR ''.'')" "\<not> is_digit 10 (CHR '':'')" "\<not> is_digit 16 (CHR '':'')"
  by (simp_all add: is_digit_def to_digit_def byte_def)

lemma read_number_dec:
  assumes "n \<le> max_value"
    and "case max_digits of Some m \<Rightarrow> length (nat_dec n) \<le> m | None \<Rightarrow> True"
    and "rest = [] \<or> \<not> is_digit 10 (hd rest)"
  shows "read_number 10 max_digits allow max_value (nat_dec n @ rest) = Some (n, rest)"
proof -
  have tw: "takeWhile (is_digit 10) (nat_dec n @ rest) = nat_dec n"
    and dw: "dropWhile (is_digit 10) (nat_dec n @ rest) = rest"
    using nat_dec_digits [of n] assms(3)
    by (simp_all add: takeWhile_append2 dropWhile_append2) (cases rest; simp)+
  have zero: "hd (nat_dec n) = CHR ''0'' \<Longrightarrow> length (nat_dec n) = 1"
    using hd_nat_dec [of n] by (cases "n = 0") (simp_all add: nat_dec.simps)
  from assms(1,2) zero show ?thesis
    by (auto simp: read_number_def tw dw Let_def nat_dec_value split: option.splits)
qed

lemma read_octet:
  "rest = [] \<or> \<not> is_digit 10 (hd rest) \<Longrightarrow>
     read_number 10 (Some 3) False 255 (nat_dec (unat (a :: u8)) @ rest) = Some (unat a, rest)"
  using nat_dec_length [of "unat a" 3] unat_u8_less [of a] by (intro read_number_dec) auto

lemma read_port_display: "read_port ('':'' @ nat_dec (unat (p :: u16))) = Some (p, [])"
  using read_number_dec [of "unat p" 65535 None "[]" True] unat_u16_less [of p]
  by (simp add: read_port_def read_given_char_def)

lemma four_octets: "read_octets 4 = read_octets (Suc (Suc (Suc (Suc 0))))"
  by (simp add: numeral_eq_Suc)

lemma read_ipv4_display:
  "rest = [] \<or> \<not> is_digit 10 (hd rest) \<Longrightarrow>
     read_ipv4_addr (intersperse_str ''.'' (map (\<lambda>o'. nat_dec (unat o')) [a, b, c, d]) @ rest)
       = Some ([a, b, c, d], rest)"
  by (simp add: read_ipv4_addr_def four_octets read_separator_def read_given_char_def read_octet)

text \<open>
  An IPv4 address and port, written the way \<open>SocketAddr\<close> displays itself, parses back to
  the same address: whatever the endpoint names in a bind message can be given back to it as
  \<open>bindAddress\<close>.
\<close>

lemma socket_addr_v4_roundtrip:
  "parse_socket_addr (display_socket_addr (V4 a b c d p)) = Some (V4 a b c d p)"
  using read_ipv4_display [of "'':'' @ nat_dec (unat p)" a b c d] read_port_display [of p]
  by (simp add: parse_socket_addr_def read_socket_addr_v4_def)

section \<open>Readers only ever drop a prefix\<close>

definition drops_prefix :: "'a reader \<Rightarrow> bool" where
  "drops_prefix p \<longleftrightarrow> (\<forall>s v r. p s = Some (v, r) \<longrightarrow> set r \<subseteq> set s)"

lemma drops_prefixD: "drops_prefix p \<Longrightarrow> p s = Some (v, r) \<Longrightarrow> set r \<subseteq> set s"
  by (auto simp: drops_prefix_def)

lemma drops_given_char: "drops_prefix (read_given_char c)"
  by (auto simp: drops_prefix_def read_given_char_def split: list.splits if_splits)

lemma drops_number: "drops_prefix (read_number radix m z v)"
  by (auto simp: drops_prefix_def read_number_def Let_def split: if_splits dest: set_dropWhileD)

lemma drops_separator: "drops_prefix p \<Longrightarrow> drops_prefix (read_separator sep i p)"
  by (auto simp: drops_prefix_def read_separator_def split: if_splits option.splits
      dest!: drops_given_char [THEN drops_prefixD]) blast+

lemma drops_octets: "read_octets n i s = Some (v, r) \<Longrightarrow> set r \<subseteq> set s"
proof (induction n arbitrary: i s v r)
  case (Suc n)
  from Suc.prems obtain x t vs where
      sep: "read_separator (CHR ''.'') i (read_number 10 (Some 3) False 255) s = Some (x, t)"
    and rec: "read_octets n (Suc i) t = Some (vs, r)"
    by (auto split: option.splits)
  from drops_prefixD [OF drops_separator [OF drops_number] sep] Suc.IH [OF rec] show ?case
    by blast
qed simp

lemma drops_ipv4: "drops_prefix read_ipv4_addr"
  by (auto simp: drops_prefix_def read_ipv4_addr_def dest: drops_octets)

lemma drops_groups: "read_groups n i s = (gs, b, r) \<Longrightarrow> set r \<subseteq> set s"
proof (induction n arbitrary: i s gs b r)
  case (Suc n)
  note sep4 = drops_prefixD [OF drops_separator [OF drops_ipv4]]
  note sepn = drops_prefixD [OF drops_separator [OF drops_number]]
  from Suc.prems show ?case
    by (auto split: option.splits if_splits prod.splits dest!: sep4 sepn dest: Suc.IH)
qed simp

lemma drops_ipv6: "drops_prefix read_ipv6_addr"
  unfolding drops_prefix_def read_ipv6_addr_def
  by (auto split: prod.splits if_splits option.splits
      dest!: drops_groups drops_given_char [THEN drops_prefixD])

lemma drops_scope: "drops_prefix read_scope_id"
  unfolding drops_prefix_def read_scope_id_def
  by (auto split: option.splits dest!: drops_given_char [THEN drops_prefixD]
      drops_number [THEN drops_prefixD])

lemma read_port_colon: "read_port s = Some x \<Longrightarrow> CHR '':'' \<in> set s"
  by (auto simp: read_port_def read_given_char_def split: list.splits if_splits)

lemma read_v4_colon: "read_socket_addr_v4 s = Some x \<Longrightarrow> CHR '':'' \<in> set s"
  by (auto simp: read_socket_addr_v4_def split: option.splits prod.splits list.splits
      dest!: read_port_colon dest: drops_ipv4 [THEN drops_prefixD])

lemma read_v6_colon:
  assumes "read_socket_addr_v6 s = Some x"
  shows "CHR '':'' \<in> set s"
proof -
  from assms obtain u r ip r1 where
      r: "read_given_char (CHR ''['') s = Some (u, r)" and r1: "read_ipv6_addr r = Some (ip, r1)"
    by (auto simp: read_socket_addr_v6_def split: option.splits)
  obtain scope r2 where
      sc: "(case read_scope_id r1 of Some x \<Rightarrow> x | None \<Rightarrow> (0, r1)) = (scope, r2)"
    by fastforce
  with assms r r1 obtain w r3 y where
      r3: "read_given_char (CHR '']'') r2 = Some (w, r3)" and p: "read_port r3 = Some y"
    by (auto simp: read_socket_addr_v6_def split: option.splits)
  from sc have "set r2 \<subseteq> set r1"
    by (auto split: option.splits dest: drops_scope [THEN drops_prefixD])
  with drops_given_char [THEN drops_prefixD, OF r] drops_ipv6 [THEN drops_prefixD, OF r1]
    drops_given_char [THEN drops_prefixD, OF r3] read_port_colon [OF p]
  show ?thesis by blast
qed

lemma no_colon_no_addr: "CHR '':'' \<notin> set s \<Longrightarrow> parse_socket_addr s = None"
  by (auto simp: parse_socket_addr_def split: option.splits prod.splits list.splits
      dest: read_v4_colon read_v6_colon)

end
