(* ===== verification/RkConfig.thy ===== *)
theory RkConfig
  imports RkStatus RkSockAddr
begin

text \<open>
  What a server is configured with (\<open>rust/src/config.rs\<close>): the JSON's shape, the validated
  form, and \<open>ServerConfig::parse\<close> with its checks in the order of the code. The PEM readers
  (\<open>rustls_pemfile::certs\<close>, \<open>rustls_pemfile::private_key\<close>) are third-party code and are
  arguments. Also here: durations as nanoseconds, and text helpers for messages.
\<close>

section \<open>Durations\<close>

type_synonym Duration = nat

definition from_millis :: "u64 \<Rightarrow> Duration" where
  "from_millis ms = unat ms * 1000000"

text \<open>\<open>Debug\<close> of a \<open>Duration\<close>: the largest unit that is not zero, fraction without trailing zeros.\<close>

definition fraction_digits :: "nat \<Rightarrow> nat \<Rightarrow> string" where
  "fraction_digits width n =
     rev (dropWhile (\<lambda>c. c = CHR ''0'')
       (rev (replicate (width - length (nat_dec n)) (CHR ''0'') @ nat_dec n)))"

definition fmt_decimal :: "nat \<Rightarrow> nat \<Rightarrow> nat \<Rightarrow> string" where
  "fmt_decimal whole frac width =
     nat_dec whole @ (if frac = 0 then [] else ''.'' @ fraction_digits width frac)"

definition debug_duration :: "Duration \<Rightarrow> string" where
  "debug_duration d =
     (if 1000000000 \<le> d then fmt_decimal (d div 1000000000) (d mod 1000000000) 9 @ ''s''
      else if 1000000 \<le> d then fmt_decimal (d div 1000000) (d mod 1000000) 6 @ ''ms''
      else if 1000 \<le> d then
        fmt_decimal (d div 1000) (d mod 1000) 3 @ map char_of [0xC2, 0xB5 :: nat] @ ''s''
      else nat_dec d @ ''ns'')"

section \<open>Text helpers\<close>

definition em_dash :: string where
  "em_dash = map char_of [0xE2, 0x80, 0x94 :: nat]"

definition in_quotes :: "string \<Rightarrow> string" where
  "in_quotes s = [char_of (34::nat)] @ s @ [char_of (34::nat)]"

section \<open>Configuration\<close>

type_synonym der = string

datatype PrivateKeyDer = Pkcs1 der | Sec1 der | Pkcs8 der | OtherKey der

record ServerConfig =
  sc_bind_address :: rstr
  sc_certificate_chain_pem :: rstr
  sc_private_key_pem :: rstr
  sc_path :: rstr
  sc_idle_timeout_ms :: u64

definition default_path :: rstr where
  "default_path = ''/rk''"

definition default_idle_timeout_ms :: u64 where
  "default_idle_timeout_ms = 30000"

record ParsedConfig =
  pc_bind :: SocketAddr
  pc_chain :: "der list"
  pc_key :: PrivateKeyDer
  pc_path :: rstr
  pc_idle_timeout :: Duration

text \<open>Collecting an iterator of results stops at the first error.\<close>

fun collect_results :: "('e + 'a) list \<Rightarrow> 'e + 'a list" where
  "collect_results [] = Inr []"
| "collect_results (Inl e # _) = Inl e"
| "collect_results (Inr x # rs) =
     (case collect_results rs of Inl e \<Rightarrow> Inl e | Inr xs \<Rightarrow> Inr (x # xs))"

text \<open>The messages of the refusals.\<close>

definition msg_bind_address :: "rstr \<Rightarrow> rstr" where
  "msg_bind_address a =
     ''bindAddress '' @ in_quotes a @ '' is not host:port '' @ em_dash @
     '' note that a bare host is not enough, the port has to be there even if it is 0''"

definition msg_path :: "rstr \<Rightarrow> rstr" where
  "msg_path p = ''path '' @ in_quotes p @ '' must start with /''"

definition msg_idle_timeout :: "u64 \<Rightarrow> rstr" where
  "msg_idle_timeout ms =
     ''idleTimeoutMs is '' @ u64_dec ms @ '', and under a second a live session would '' @
     ''be dropped as dead; there is no value meaning 'never', '' @
     ''because a peer that vanishes silently would then never be noticed''"

definition msg_chain_pem :: "rstr \<Rightarrow> rstr" where
  "msg_chain_pem e = ''certificateChainPem is not readable PEM: '' @ e"

definition msg_no_certificate :: rstr where
  "msg_no_certificate = ''certificateChainPem contains no CERTIFICATE block''"

definition msg_key_pem :: "rstr \<Rightarrow> rstr" where
  "msg_key_pem e = ''privateKeyPem is not readable PEM: '' @ e"

definition msg_no_key :: rstr where
  "msg_no_key = ''privateKeyPem contains no PRIVATE KEY block''"

definition config_parse ::
  "(rstr \<Rightarrow> (rstr + der) list) \<Rightarrow> (rstr \<Rightarrow> rstr + PrivateKeyDer option) \<Rightarrow>
   ServerConfig \<Rightarrow> (Status \<times> rstr) + ParsedConfig" where
  "config_parse certs private_key self =
     (case parse_socket_addr (sc_bind_address self) of
        None \<Rightarrow> Inl (InvalidArgument, msg_bind_address (sc_bind_address self))
      | Some bind \<Rightarrow>
          if \<not> starts_with (sc_path self) ''/'' then
            Inl (InvalidArgument, msg_path (sc_path self))
          else if sc_idle_timeout_ms self < 1000 then
            Inl (InvalidArgument, msg_idle_timeout (sc_idle_timeout_ms self))
          else
            (case collect_results (certs (sc_certificate_chain_pem self)) of
               Inl e \<Rightarrow> Inl (BadCertificate, msg_chain_pem e)
             | Inr chain \<Rightarrow>
                 if chain = [] then Inl (BadCertificate, msg_no_certificate)
                 else
                   (case private_key (sc_private_key_pem self) of
                      Inl e \<Rightarrow> Inl (BadCertificate, msg_key_pem e)
                    | Inr None \<Rightarrow> Inl (BadCertificate, msg_no_key)
                    | Inr (Some key) \<Rightarrow>
                        Inr \<lparr>pc_bind = bind, pc_chain = chain, pc_key = key,
                             pc_path = sc_path self,
                             pc_idle_timeout = from_millis (sc_idle_timeout_ms self)\<rparr>)))"

section \<open>Facts about the parser of the configuration\<close>

definition scalars_ok :: "ServerConfig \<Rightarrow> bool" where
  "scalars_ok c \<longleftrightarrow> parse_socket_addr (sc_bind_address c) \<noteq> None \<and>
     starts_with (sc_path c) ''/'' \<and> 1000 \<le> sc_idle_timeout_ms c"

lemma collect_results_map_Inr [simp]: "collect_results (map Inr xs) = Inr xs"
  by (induction xs) simp_all

lemma collect_results_Inr: "collect_results rs = Inr xs \<longleftrightarrow> rs = map Inr xs"
proof (induction rs arbitrary: xs)
  case (Cons r rs)
  show ?case
    by (cases r; cases xs) (auto simp: Cons split: sum.splits)
qed auto

lemma collect_results_Inl:
  "collect_results rs = Inl e \<longleftrightarrow> (\<exists>xs more. rs = map Inr xs @ Inl e # more)"
proof (induction rs)
  case (Cons r rs)
  show ?case
  proof (cases r)
    case (Inl d)
    have "Inl d # rs = map Inr xs @ Inl e # more \<longleftrightarrow> xs = [] \<and> d = e \<and> more = rs" for xs more
      by (cases xs) auto
    with Inl show ?thesis by auto
  next
    case (Inr x)
    have "collect_results (r # rs) = Inl e \<longleftrightarrow> collect_results rs = Inl e"
      by (simp add: Inr split: sum.splits)
    also have "\<dots> \<longleftrightarrow> (\<exists>xs more. r # rs = map Inr xs @ Inl e # more)"
      by (auto simp: Cons Inr Cons_eq_append_conv map_eq_Cons_conv) (metis list.simps(9) append_Cons)
    finally show ?thesis .
  qed
qed simp

lemma config_parse_scalars:
  "\<not> scalars_ok c \<Longrightarrow> \<exists>m. config_parse certs key c = Inl (InvalidArgument, m)"
  by (auto simp: config_parse_def scalars_ok_def not_le split: option.splits)

text \<open>
  The server's configuration is accepted exactly when the address parses, the path starts
  with a slash, the idle timeout is at least a second, every certificate in the chain reads and
  there is at least one, and there is a private key; the result then carries those very parts,
  with the timeout in nanoseconds.
\<close>

lemma config_parse_accepts:
  "config_parse certs key c = Inr p \<longleftrightarrow>
     (\<exists>bind chain k.
        parse_socket_addr (sc_bind_address c) = Some bind \<and>
        starts_with (sc_path c) ''/'' \<and> 1000 \<le> unat (sc_idle_timeout_ms c) \<and>
        certs (sc_certificate_chain_pem c) = map Inr chain \<and> chain \<noteq> [] \<and>
        key (sc_private_key_pem c) = Inr (Some k) \<and>
        p = \<lparr>pc_bind = bind, pc_chain = chain, pc_key = k, pc_path = sc_path c,
             pc_idle_timeout = unat (sc_idle_timeout_ms c) * 1000000\<rparr>)"
proof -
  have "sc_idle_timeout_ms c < 1000 \<longleftrightarrow> \<not> 1000 \<le> unat (sc_idle_timeout_ms c)"
    by (simp add: word_less_nat_alt not_le)
  then show ?thesis
    by (auto simp: config_parse_def from_millis_def collect_results_Inr
        split: option.splits sum.splits if_splits)
qed

text \<open>
  A refused configuration is blamed on the right part, cheap checks first: the status is
  \<open>invalidArgument\<close> exactly when a scalar part is wrong, whatever the PEM texts hold (the
  readers are not even consulted), and \<open>badCertificate\<close> otherwise; no other status is possible.
\<close>

lemma config_parse_blame:
  assumes "config_parse certs key c = Inl (s, m)"
  shows "(s = InvalidArgument \<longleftrightarrow> \<not> scalars_ok c) \<and> (s = BadCertificate \<longleftrightarrow> scalars_ok c) \<and>
    (\<not> scalars_ok c \<longrightarrow> (\<forall>certs' key'. config_parse certs' key' c = Inl (s, m)))"
  using assms
  by (auto simp: config_parse_def scalars_ok_def not_le not_less
      split: option.splits sum.splits if_splits)

definition demo_config :: ServerConfig where
  "demo_config = \<lparr>sc_bind_address = ''127.0.0.1:4433'', sc_certificate_chain_pem = ''C'',
     sc_private_key_pem = ''K'', sc_path = ''rk'', sc_idle_timeout_ms = 30000\<rparr>"

lemma config_parse_blame_witness:
  "\<exists>m. config_parse (\<lambda>_. []) (\<lambda>_. Inr None) demo_config = Inl (InvalidArgument, m) \<and>
       config_parse (\<lambda>_. [Inl ''bad'']) (\<lambda>_. Inl ''bad'') demo_config = Inl (InvalidArgument, m)"
proof -
  have "\<not> scalars_ok demo_config"
    by (simp add: scalars_ok_def demo_config_def starts_with_def)
  from config_parse_scalars [OF this] obtain m where
    r: "config_parse (\<lambda>_. []) (\<lambda>_. Inr None) demo_config = Inl (InvalidArgument, m)" by blast
  from config_parse_blame [OF r] r \<open>\<not> scalars_ok demo_config\<close> show ?thesis by blast
qed

text \<open>
  A bind address with no colon in it, such as a bare host, never reaches a socket: it is
  refused as \<open>invalidArgument\<close> with a message that names the address.
\<close>

lemma bare_host_refused:
  assumes "CHR '':'' \<notin> set (sc_bind_address c)"
  shows "\<exists>m. config_parse certs key c = Inl (InvalidArgument, m) \<and>
             contains m (in_quotes (sc_bind_address c))"
  using no_colon_no_addr [OF assms]
  using contains_middle [of "''bindAddress ''" "in_quotes (sc_bind_address c)"]
  by (simp add: config_parse_def msg_bind_address_def del: append.simps)

text \<open>
  An IPv4 address and port, written the way the endpoint names it in a bind message, is taken
  back as \<open>bindAddress\<close> unchanged: whatever the rest of the configuration, parsing it with any
  such text gives the same answer as with any other, except that the address in the result is the
  one that was written.
\<close>

lemma bind_address_roundtrip:
  "config_parse certs key (c\<lparr>sc_bind_address := display_socket_addr (V4 a b d e port)\<rparr>) =
     (case config_parse certs key (c\<lparr>sc_bind_address := display_socket_addr (V4 0 0 0 0 0)\<rparr>) of
        Inl refusal \<Rightarrow> Inl refusal
      | Inr p \<Rightarrow> Inr (p\<lparr>pc_bind := V4 a b d e port\<rparr>))"
  by (simp add: config_parse_def socket_addr_v4_roundtrip del: display_socket_addr.simps
      split: sum.splits option.splits)

end
