(* ===== verification/RkEvent.thy ===== *)
theory RkEvent
  imports RkPrelude
begin

text \<open>
  The events of an endpoint (\<open>rust/src/event.rs\<close>), the JSON object their derived serialiser
  writes, and the Dart reader of that object (\<open>lib/src/quic_event.dart\<close>).
\<close>

section \<open>Events\<close>

datatype Event =
    SessionOpened u64 rstr rstr
  | SessionClosed u64 rstr
  | Datagram u64 rstr
  | StreamMessage u64 rstr
  | StreamOpened u64 u64
  | StreamData u64 u64 rstr
  | StreamClosed u64 u64
  | EndpointError rstr

fun kind :: "Event \<Rightarrow> string" where
  "kind (SessionOpened _ _ _) = ''sessionOpened''"
| "kind (SessionClosed _ _) = ''sessionClosed''"
| "kind (Datagram _ _) = ''datagram''"
| "kind (StreamMessage _ _) = ''streamMessage''"
| "kind (StreamOpened _ _) = ''streamOpened''"
| "kind (StreamData _ _ _) = ''streamData''"
| "kind (StreamClosed _ _) = ''streamClosed''"
| "kind (EndpointError _) = ''endpointError''"

section \<open>The serialised object\<close>

text \<open>
  The attributes on the type say: an internally tagged object whose first member \<open>kind\<close> is the
  variant's identifier in camel case, followed by the fields in the order of declaration,
  their identifiers in camel case. \<open>variant_ident\<close> and \<open>fields\<close> give the identifiers the
  source declares; \<open>camel_variant\<close> and \<open>camel_field\<close> are the two renaming rules.
\<close>

datatype json = JNum u64 | JStr rstr | JOther

fun variant_ident :: "Event \<Rightarrow> string" where
  "variant_ident (SessionOpened _ _ _) = ''SessionOpened''"
| "variant_ident (SessionClosed _ _) = ''SessionClosed''"
| "variant_ident (Datagram _ _) = ''Datagram''"
| "variant_ident (StreamMessage _ _) = ''StreamMessage''"
| "variant_ident (StreamOpened _ _) = ''StreamOpened''"
| "variant_ident (StreamData _ _ _) = ''StreamData''"
| "variant_ident (StreamClosed _ _) = ''StreamClosed''"
| "variant_ident (EndpointError _) = ''EndpointError''"

fun fields :: "Event \<Rightarrow> (string \<times> json) list" where
  "fields (SessionOpened sid authority path) =
     [(''session_id'', JNum sid), (''authority'', JStr authority), (''path'', JStr path)]"
| "fields (SessionClosed sid reason) = [(''session_id'', JNum sid), (''reason'', JStr reason)]"
| "fields (Datagram sid utf8) = [(''session_id'', JNum sid), (''utf8'', JStr utf8)]"
| "fields (StreamMessage sid utf8) = [(''session_id'', JNum sid), (''utf8'', JStr utf8)]"
| "fields (StreamOpened sid stream) = [(''session_id'', JNum sid), (''stream_id'', JNum stream)]"
| "fields (StreamData sid stream utf8) =
     [(''session_id'', JNum sid), (''stream_id'', JNum stream), (''utf8'', JStr utf8)]"
| "fields (StreamClosed sid stream) = [(''session_id'', JNum sid), (''stream_id'', JNum stream)]"
| "fields (EndpointError message) = [(''message'', JStr message)]"

definition ascii_upper :: "char \<Rightarrow> char" where
  "ascii_upper c = (if 97 \<le> byte c \<and> byte c \<le> 122 then char_of (byte c - 32) else c)"

definition ascii_lower :: "char \<Rightarrow> char" where
  "ascii_lower c = (if 65 \<le> byte c \<and> byte c \<le> 90 then char_of (byte c + 32) else c)"

fun camel_variant :: "string \<Rightarrow> string" where
  "camel_variant [] = []"
| "camel_variant (c # s) = ascii_lower c # s"

fun camel_field :: "string \<Rightarrow> string" where
  "camel_field [] = []"
| "camel_field [c] = (if c = CHR ''_'' then [] else [c])"
| "camel_field (c # d # s) =
     (if c = CHR ''_'' then (if d = CHR ''_'' then camel_field (d # s) else ascii_upper d # camel_field s)
      else c # camel_field (d # s))"

definition event_object :: "Event \<Rightarrow> (string \<times> json) list" where
  "event_object e =
     (''kind'', JStr (camel_variant (variant_ident e))) #
     map (\<lambda>(f, v). (camel_field f, v)) (fields e)"

section \<open>The Dart reader\<close>

datatype QuicEvent =
    D_SessionOpened int rstr rstr
  | D_SessionClosed int rstr
  | D_DatagramReceived int rstr
  | D_StreamMessageReceived int rstr
  | D_StreamOpened int int
  | D_StreamData int int rstr
  | D_StreamClosed int int
  | D_EndpointError rstr
  | D_UnknownQuicEvent rstr

text \<open>
  A Dart \<open>int\<close> is a signed 64-bit number: \<open>jsonDecode\<close> turns a larger literal into a double,
  which the reader treats as absent, like a missing or mistyped member.
\<close>

definition number :: "(string \<times> json) list \<Rightarrow> string \<Rightarrow> int" where
  "number obj key =
     (case map_of obj key of
        Some (JNum w) \<Rightarrow> if unat w < 2 ^ 63 then int (unat w) else -1
      | _ \<Rightarrow> -1)"

definition text_member :: "(string \<times> json) list \<Rightarrow> string \<Rightarrow> rstr" where
  "text_member obj key = (case map_of obj key of Some (JStr s) \<Rightarrow> s | _ \<Rightarrow> [])"

definition QuicEvent_fromObject :: "(string \<times> json) list \<Rightarrow> QuicEvent" where
  "QuicEvent_fromObject obj =
     (case map_of obj ''kind'' of
        Some (JStr k) \<Rightarrow>
          if k = ''sessionOpened'' then
            D_SessionOpened (number obj ''sessionId'') (text_member obj ''authority'')
              (text_member obj ''path'')
          else if k = ''sessionClosed'' then
            D_SessionClosed (number obj ''sessionId'') (text_member obj ''reason'')
          else if k = ''datagram'' then
            D_DatagramReceived (number obj ''sessionId'') (text_member obj ''utf8'')
          else if k = ''streamMessage'' then
            D_StreamMessageReceived (number obj ''sessionId'') (text_member obj ''utf8'')
          else if k = ''streamOpened'' then
            D_StreamOpened (number obj ''sessionId'') (number obj ''streamId'')
          else if k = ''streamData'' then
            D_StreamData (number obj ''sessionId'') (number obj ''streamId'')
              (text_member obj ''utf8'')
          else if k = ''streamClosed'' then
            D_StreamClosed (number obj ''sessionId'') (number obj ''streamId'')
          else if k = ''endpointError'' then D_EndpointError (text_member obj ''message'')
          else D_UnknownQuicEvent k
      | _ \<Rightarrow> D_UnknownQuicEvent ''<no kind>'')"

section \<open>The two sides agree\<close>

text \<open>What a reader should understand: the same event, numbers read as integers.\<close>

fun meant :: "Event \<Rightarrow> QuicEvent" where
  "meant (SessionOpened sid a p) = D_SessionOpened (int (unat sid)) a p"
| "meant (SessionClosed sid r) = D_SessionClosed (int (unat sid)) r"
| "meant (Datagram sid u) = D_DatagramReceived (int (unat sid)) u"
| "meant (StreamMessage sid u) = D_StreamMessageReceived (int (unat sid)) u"
| "meant (StreamOpened sid t) = D_StreamOpened (int (unat sid)) (int (unat t))"
| "meant (StreamData sid t u) = D_StreamData (int (unat sid)) (int (unat t)) u"
| "meant (StreamClosed sid t) = D_StreamClosed (int (unat sid)) (int (unat t))"
| "meant (EndpointError m) = D_EndpointError m"

text \<open>Every number in an event is one a Dart \<open>int\<close> holds.\<close>

definition dart_sized :: "Event \<Rightarrow> bool" where
  "dart_sized e \<longleftrightarrow> (\<forall>(f, v) \<in> set (fields e). \<forall>w. v = JNum w \<longrightarrow> unat w < 2 ^ 63)"

lemma camel_names:
  "camel_field ''session_id'' = ''sessionId''" "camel_field ''stream_id'' = ''streamId''"
  "camel_field ''authority'' = ''authority''" "camel_field ''path'' = ''path''"
  "camel_field ''reason'' = ''reason''" "camel_field ''utf8'' = ''utf8''"
  "camel_field ''message'' = ''message''"
  by code_simp+

lemma ascii_lower_caps:
  "ascii_lower (CHR ''S'') = CHR ''s''" "ascii_lower (CHR ''D'') = CHR ''d''"
  "ascii_lower (CHR ''E'') = CHR ''e''"
  by code_simp+

lemma event_object_kind: "event_object e = (''kind'', JStr (kind e)) # tl (event_object e)"
  by (cases e) (simp_all add: event_object_def ascii_lower_caps)

lemma kind_inj_variant: "kind e = kind f \<longleftrightarrow> variant_ident e = variant_ident f"
  by (cases e; cases f) simp_all

lemma meant_inj: "meant e = meant f \<longleftrightarrow> e = f"
  by (cases e; cases f) (auto simp flip: word_uint_eq_iff)

lemma reads_meant: "dart_sized e \<Longrightarrow> QuicEvent_fromObject (event_object e) = meant e"
  by (cases e; simp add: QuicEvent_fromObject_def event_object_def dart_sized_def number_def
      text_member_def camel_names ascii_lower_caps del: camel_field.simps)

text \<open>
  C24: The Dart side understands exactly the event the Rust side serialised: the object the
  derived serialiser writes carries \<open>Event::kind\<close> as its tag, and reading it back by member
  names gives the same variant with the same fields, provided its numbers fit a Dart \<open>int\<close>
  (session ids count from 1 and QUIC stream ids are below $2^{62}$); so no two such events
  serialise alike.
\<close>

theorem event_read_back:
  assumes "dart_sized e"
  shows "map_of (event_object e) ''kind'' = Some (JStr (kind e)) \<and>
    QuicEvent_fromObject (event_object e) = meant e \<and>
    (\<forall>f. dart_sized f \<longrightarrow> event_object f = event_object e \<longrightarrow> f = e)"
proof -
  from event_object_kind [of e] have "map_of (event_object e) ''kind'' = Some (JStr (kind e))"
    by (metis fun_upd_same map_of.simps(2) fst_conv snd_conv)
  with reads_meant [OF assms] show ?thesis by (metis meant_inj reads_meant)
qed

theorem event_read_back_witness:
  "QuicEvent_fromObject (event_object (StreamData 7 3 ''{}'')) = D_StreamData 7 3 ''{}''"
proof -
  have "dart_sized (StreamData 7 3 ''{}'')" by (simp add: dart_sized_def)
  from event_read_back [OF this] show ?thesis by simp
qed

end
