(* ===== verification/RkClientConfig.thy ===== *)
theory RkClientConfig
  imports RkConfig RkEvent
begin

text \<open>
  What a client is configured with (\<open>rust/src/client_config.rs\<close>): \<open>ClientConfig::parse\<close> and
  \<open>parse_hash\<close>. \<open>parse_hash\<close> indexes a string by byte ranges, so it can panic; its result is
  an \<open>outcome\<close>. \<open>Debug\<close> of a string escapes by Unicode tables; it only feeds messages and is
  the argument \<open>debug_str\<close>.
\<close>

section \<open>Definitions\<close>

record ClientConfig =
  cc_url :: rstr
  cc_certificate_hash_sha256 :: rstr
  cc_idle_timeout_ms :: u64

definition client_default_idle_timeout_ms :: u64 where
  "client_default_idle_timeout_ms = 30000"

record ParsedClientConfig =
  pcc_url :: rstr
  pcc_certificate_hash :: "u8 list"
  pcc_idle_timeout :: Duration

text \<open>
  \<open>u8::from_str_radix(text, 16)\<close>: an optional leading plus sign, then at least one digit and
  nothing else, with a value below 256.
\<close>

definition u8_from_str_radix16 :: "rstr \<Rightarrow> u8 option" where
  "u8_from_str_radix16 text =
     (let digits = (case text of c # r \<Rightarrow> if c = CHR ''+'' then r else text | [] \<Rightarrow> [])
      in if digits \<noteq> [] \<and> (\<forall>c \<in> set digits. is_digit 16 c) \<and> digits_value 16 0 digits < 256
         then Some (of_nat (digits_value 16 0 digits)) else None)"

text \<open>The messages of the refusals.\<close>

definition msg_hash_length :: "nat \<Rightarrow> rstr" where
  "msg_hash_length n =
     ''certificateHashSha256 must be 64 hex characters, got '' @ nat_dec n @
     '' '' @ em_dash @ '' a fingerprint copied with colons has 95''"

definition msg_hash_digits :: "rstr \<Rightarrow> rstr" where
  "msg_hash_digits shown =
     ''certificateHashSha256 has '' @ shown @ '' where two hex digits belong''"

definition msg_url_empty :: rstr where
  "msg_url_empty = ''url is empty''"

definition msg_url_scheme :: "rstr \<Rightarrow> rstr" where
  "msg_url_scheme shown =
     ''url must start with https:// '' @ em_dash @
     '' WebTransport names its endpoints that way; got '' @ shown"

definition msg_zero_timeout :: rstr where
  "msg_zero_timeout = ''idleTimeoutMs 0 means no timeout at all; give a duration''"

text \<open>The loop of \<open>parse_hash\<close> over the 32 bytes of the result; \<open>n\<close> of them are left.\<close>

fun parse_hash_bytes ::
  "(rstr \<Rightarrow> rstr) \<Rightarrow> rstr \<Rightarrow> nat \<Rightarrow> nat \<Rightarrow> ((Status \<times> rstr) + u8 list) outcome" where
  "parse_hash_bytes debug_str trimmed 0 i = Returned (Inr [])"
| "parse_hash_bytes debug_str trimmed (Suc n) i =
     (case str_slice trimmed (i * 2) (i * 2 + 2) of
        Panicked \<Rightarrow> Panicked
      | Returned pair \<Rightarrow>
          (case u8_from_str_radix16 pair of
             None \<Rightarrow> Returned (Inl (InvalidArgument, msg_hash_digits (debug_str pair)))
           | Some b \<Rightarrow>
               (case parse_hash_bytes debug_str trimmed n (Suc i) of
                  Returned (Inr bs) \<Rightarrow> Returned (Inr (b # bs))
                | other \<Rightarrow> other)))"

definition parse_hash :: "(rstr \<Rightarrow> rstr) \<Rightarrow> rstr \<Rightarrow> ((Status \<times> rstr) + u8 list) outcome" where
  "parse_hash debug_str text =
     (let trimmed = trim text in
      if length trimmed \<noteq> 64 then
        Returned (Inl (InvalidArgument, msg_hash_length (length trimmed)))
      else parse_hash_bytes debug_str trimmed 32 0)"

definition client_config_parse ::
  "(rstr \<Rightarrow> rstr) \<Rightarrow> ClientConfig \<Rightarrow> ((Status \<times> rstr) + ParsedClientConfig) outcome" where
  "client_config_parse debug_str self =
     (if cc_url self = [] then Returned (Inl (InvalidArgument, msg_url_empty))
      else if \<not> starts_with (cc_url self) ''https://'' then
        Returned (Inl (InvalidArgument, msg_url_scheme (debug_str (cc_url self))))
      else
        (case parse_hash debug_str (cc_certificate_hash_sha256 self) of
           Panicked \<Rightarrow> Panicked
         | Returned (Inl e) \<Rightarrow> Returned (Inl e)
         | Returned (Inr hash) \<Rightarrow>
             if cc_idle_timeout_ms self = 0 then
               Returned (Inl (InvalidArgument, msg_zero_timeout))
             else
               Returned (Inr \<lparr>pcc_url = cc_url self, pcc_certificate_hash = hash,
                 pcc_idle_timeout = from_millis (cc_idle_timeout_ms self)\<rparr>)))"

text \<open>The fingerprint as its publisher prints it: two lower-case hex digits per byte.\<close>

definition hex_byte :: "u8 \<Rightarrow> string" where
  "hex_byte b = [digit_char (unat b div 16), digit_char (unat b mod 16)]"

definition hash_hex :: "u8 list \<Rightarrow> string" where
  "hash_hex bs = concat (map hex_byte bs)"

section \<open>Lemmas\<close>

lemma to_digit_ascii_lower: "to_digit 16 (ascii_lower c) = to_digit 16 c"
  by (auto simp: to_digit_def ascii_lower_def Let_def)

lemma length_hash_hex [simp]: "length (hash_hex bs) = 2 * length bs"
  by (induction bs) (simp_all add: hash_hex_def hex_byte_def)

lemma hash_hex_Cons [simp]: "hash_hex (b # bs) = hex_byte b @ hash_hex bs"
  by (simp add: hash_hex_def)

lemma pair_reads_back:
  assumes "map ascii_lower [x, y] = hex_byte b"
  shows "u8_from_str_radix16 [x, y] = Some b"
proof -
  have lt: "unat b < 256" by (rule unat_u8_less)
  then have hi: "to_digit 16 (digit_char (unat b div 16)) = Some (unat b div 16)"
    and lo: "to_digit 16 (digit_char (unat b mod 16)) = Some (unat b mod 16)"
    by (simp_all add: to_digit_digit_char)
  from assms have dx: "to_digit 16 x = Some (unat b div 16)" and dy: "to_digit 16 y = Some (unat b mod 16)"
    using to_digit_ascii_lower [of x] to_digit_ascii_lower [of y] hi lo by (simp_all add: hex_byte_def)
  have "x \<noteq> CHR ''+''" using dx by (auto simp: to_digit_def byte_def)
  with dx dy lt show ?thesis by (simp add: u8_from_str_radix16_def is_digit_def)
qed

lemma lower_digit_solid:
  "ascii_lower c = digit_char d \<Longrightarrow> d < 16 \<Longrightarrow> solid c"
  using to_digit_ascii_lower [of c] to_digit_digit_char [of d 16] to_digit_solid [of 16 c d]
  by simp

lemma hash_hex_chars: "c \<in> set (hash_hex bs) \<Longrightarrow> \<exists>d < 16. c = digit_char d"
proof (induction bs)
  case (Cons b bs)
  have "unat b div 16 < 16" "unat b mod 16 < 16" using unat_u8_less [of b] by simp_all
  then have "\<exists>d < 16. digit_char (unat b div 16) = digit_char d"
    and "\<exists>d < 16. digit_char (unat b mod 16) = digit_char d" by blast+
  with Cons show ?case by (auto simp: hex_byte_def)
qed (simp add: hash_hex_def)

lemma lowered_solid: "map ascii_lower s = hash_hex bs \<Longrightarrow> c \<in> set s \<Longrightarrow> solid c"
  using hash_hex_chars [of "ascii_lower c" bs] lower_digit_solid [of c]
  by (metis image_eqI list.set_map)

lemma solid_ascii: "\<forall>c \<in> set s. solid c \<Longrightarrow> ascii s"
  by (auto simp: ascii_def solid_def)

definition reads_as :: "rstr \<Rightarrow> u8 \<Rightarrow> bool" where
  "reads_as pair b \<longleftrightarrow> length pair = 2 \<and> u8_from_str_radix16 pair = Some b"

lemma parse_hash_bytes_pairs:
  "list_all2 reads_as ps bs \<Longrightarrow> ascii (pre @ concat ps) \<Longrightarrow> length pre = 2 * i \<Longrightarrow>
     parse_hash_bytes debug_str (pre @ concat ps) (length bs) i = Returned (Inr bs)"
proof (induction ps bs arbitrary: pre i rule: list_all2_induct)
  case (Cons p ps b bs)
  from Cons.hyps have len: "length p = 2" and b: "u8_from_str_radix16 p = Some b"
    by (simp_all add: reads_as_def)
  have "str_slice (pre @ p @ concat ps) (i * 2) (i * 2 + 2) = Returned p"
    using Cons.prems len by (simp add: str_slice_ascii mult.commute)
  moreover have "parse_hash_bytes debug_str (pre @ p @ concat ps) (length bs) (Suc i) = Returned (Inr bs)"
    using Cons.IH [of "pre @ p" "Suc i"] Cons.prems len by simp
  ultimately show ?case by (simp add: b)
qed simp

lemma printed_pairs:
  "map ascii_lower s = hash_hex bs \<Longrightarrow> \<exists>ps. s = concat ps \<and> list_all2 reads_as ps bs"
proof (induction bs arbitrary: s)
  case (Cons b bs)
  from Cons.prems obtain x y r where s: "s = [x, y] @ r"
    and xy: "map ascii_lower [x, y] = hex_byte b" and r: "map ascii_lower r = hash_hex bs"
    by (auto simp: hex_byte_def map_eq_Cons_conv)
  from Cons.IH [OF r] obtain ps where "r = concat ps" "list_all2 reads_as ps bs" by blast
  moreover have "reads_as [x, y] b" by (simp add: reads_as_def pair_reads_back [OF xy])
  ultimately show ?case using s by (intro exI [of _ "[x, y] # ps"]) simp
qed (simp add: hash_hex_def)

lemma parse_hash_pairs:
  assumes "list_all2 reads_as ps bs" and "length bs = 32" and "\<forall>c \<in> set (concat ps). solid c"
  shows "parse_hash debug_str (concat ps) = Returned (Inr bs)"
proof -
  have "length (concat ps) = 2 * length bs"
    using assms(1) by (induction rule: list_all2_induct) (simp_all add: reads_as_def)
  with assms(2) have len: "length (concat ps) = 64" by simp
  then have "concat ps \<noteq> []" by (metis length_0_conv zero_neq_numeral)
  then have "trim (concat ps) = concat ps"
    using assms(3) by (intro trim_solid) (meson hd_in_set last_in_set)+
  with len parse_hash_bytes_pairs [OF assms(1), of "[]" 0 debug_str] assms(2)
    solid_ascii [OF assms(3)]
  show ?thesis by (simp add: parse_hash_def)
qed

lemma parse_hash_bytes_length:
  "parse_hash_bytes debug_str s n i = Returned (Inr bs) \<Longrightarrow> length bs = n"
proof (induction n arbitrary: i bs)
  case (Suc n)
  then show ?case by (auto split: outcome.splits option.splits sum.splits)
qed simp

lemma parse_hash_bytes_ascii:
  "ascii s \<Longrightarrow> 2 * (i + n) \<le> length s \<Longrightarrow> parse_hash_bytes debug_str s n i \<noteq> Panicked"
proof (induction n arbitrary: i)
  case (Suc n)
  from Suc.prems Suc.IH [of "Suc i"] show ?case
    by (auto simp: str_slice_ascii split: option.splits outcome.splits sum.splits)
qed simp

lemma trim_start_ascii: "ascii s \<Longrightarrow> ascii (trim_start s)"
proof (induction s rule: trim_start.induct)
  case (1 s)
  then show ?case
    by (subst trim_start.simps) (auto simp: ascii_def dest: in_set_dropD)
qed

lemma trim_end_ascii: "ascii s \<Longrightarrow> ascii (trim_end s)"
proof (induction s rule: trim_end.induct)
  case (1 s)
  then show ?case
    by (subst trim_end.simps) (auto simp: ascii_def dest: in_set_takeD)
qed

lemma trim_ascii: "ascii s \<Longrightarrow> ascii (trim s)"
  by (simp add: trim_def trim_start_ascii trim_end_ascii)

lemma parse_hash_errors:
  "parse_hash debug_str s = Returned (Inl (st, m)) \<Longrightarrow> st = InvalidArgument"
proof -
  have "parse_hash_bytes debug_str t n i = Returned (Inl (st, m)) \<Longrightarrow> st = InvalidArgument" for t n i
  proof (induction n arbitrary: i)
    case (Suc n)
    then show ?case by (auto split: outcome.splits option.splits sum.splits)
  qed simp
  then show "parse_hash debug_str s = Returned (Inl (st, m)) \<Longrightarrow> st = InvalidArgument"
    by (auto simp: parse_hash_def Let_def split: if_splits)
qed

section \<open>Properties\<close>

lemma parse_hash_printed:
  assumes "length bs = 32" and "map ascii_lower s = hash_hex bs"
  shows "parse_hash debug_str s = Returned (Inr bs)"
proof -
  from printed_pairs [OF assms(2)] obtain ps where ps: "s = concat ps" "list_all2 reads_as ps bs"
    by blast
  have "\<forall>c \<in> set s. solid c" using lowered_solid [OF assms(2)] by blast
  with parse_hash_pairs [OF ps(2) assms(1)] ps(1) show ?thesis by simp
qed

text \<open>
  C32: A certificate fingerprint survives the trip through text: for every 32-byte hash, its
  printed form in any mix of upper and lower case hex digits parses back to exactly those bytes,
  without a panic.
\<close>

theorem hash_roundtrip:
  assumes "length bs = 32" and "map ascii_lower s = hash_hex bs"
  shows "parse_hash debug_str s = Returned (Inr bs)"
  using assms by (rule parse_hash_printed)

theorem hash_roundtrip_witness:
  "parse_hash id (concat (replicate 32 ''eF'')) = Returned (Inr (replicate 32 0xEF))"
  by (rule hash_roundtrip, simp, code_simp)

text \<open>
  C30: \<open>ClientConfig::parse\<close> never yields a configuration it should not: what it accepts has an
  \<open>https://\<close> URL, a hash of exactly 32 bytes and a non-zero timeout; whatever it refuses with a
  value it refuses as \<open>invalidArgument\<close>; and it cannot panic when the hash text is ASCII.
\<close>

theorem client_config_parse_safe:
  "(client_config_parse debug_str c = Returned (Inr p) \<longrightarrow>
      starts_with (pcc_url p) ''https://'' \<and> pcc_url p = cc_url c \<and>
      length (pcc_certificate_hash p) = 32 \<and> 0 < pcc_idle_timeout p) \<and>
   (client_config_parse debug_str c = Returned (Inl (st, m)) \<longrightarrow> st = InvalidArgument) \<and>
   (ascii (cc_certificate_hash_sha256 c) \<longrightarrow> client_config_parse debug_str c \<noteq> Panicked)"
proof (intro conjI impI)
  assume acc: "client_config_parse debug_str c = Returned (Inr p)"
  then obtain h where h: "parse_hash debug_str (cc_certificate_hash_sha256 c) = Returned (Inr h)"
    and p: "p = \<lparr>pcc_url = cc_url c, pcc_certificate_hash = h,
                 pcc_idle_timeout = from_millis (cc_idle_timeout_ms c)\<rparr>"
    and u: "starts_with (cc_url c) ''https://''" and t: "cc_idle_timeout_ms c \<noteq> 0"
    by (auto simp: client_config_parse_def split: if_splits outcome.splits sum.splits)
  from h have "length h = 32"
    by (auto simp: parse_hash_def Let_def dest: parse_hash_bytes_length split: if_splits)
  with p u t show "starts_with (pcc_url p) ''https://''" "pcc_url p = cc_url c"
    "length (pcc_certificate_hash p) = 32" "0 < pcc_idle_timeout p"
    by (simp_all add: from_millis_def unat_gt_0)
next
  assume "client_config_parse debug_str c = Returned (Inl (st, m))"
  then show "st = InvalidArgument"
    by (auto simp: client_config_parse_def dest: parse_hash_errors
        split: if_splits outcome.splits sum.splits)
next
  assume "ascii (cc_certificate_hash_sha256 c)"
  then have "ascii (trim (cc_certificate_hash_sha256 c))" by (rule trim_ascii)
  then have "parse_hash debug_str (cc_certificate_hash_sha256 c) \<noteq> Panicked"
    using parse_hash_bytes_ascii [of _ 0 32] by (simp add: parse_hash_def Let_def)
  then show "client_config_parse debug_str c \<noteq> Panicked"
    by (auto simp: client_config_parse_def split: outcome.splits sum.splits)
qed

definition accented_hash :: rstr where
  "accented_hash = ''a'' @ map char_of [0xC3, 0xA9 :: nat] @ replicate 61 (CHR ''a'')"

theorem client_config_parse_safe_witness:
  "client_config_parse id \<lparr>cc_url = ''https://x:1/y'', cc_certificate_hash_sha256 = ''01'',
     cc_idle_timeout_ms = 30000\<rparr> \<noteq> Panicked"
  using client_config_parse_safe [of id "\<lparr>cc_url = ''https://x:1/y'',
      cc_certificate_hash_sha256 = ''01'', cc_idle_timeout_ms = 30000\<rparr>"]
  by (simp add: byte_def)

text \<open>
  The length check counts bytes and the digits are then taken by byte ranges, so a
  64-byte fingerprint whose text is valid UTF-8 but not ASCII can split a character: the parser
  panics instead of returning a sentence. The example is the letter a, an e with an acute accent
  and 61 more letters.
\<close>

lemma hash_can_panic:
  "utf8_valid accented_hash \<and> length accented_hash = 64 \<and>
   parse_hash debug_str accented_hash = Panicked"
proof -
  have ne: "accented_hash \<noteq> []" and hd: "hd accented_hash = CHR ''a''"
    and last: "last accented_hash = CHR ''a''" and len: "length accented_hash = 64"
    by (simp_all add: accented_hash_def numeral_eq_Suc)
  have "trim accented_hash = accented_hash"
    by (rule trim_solid) (simp_all add: ne hd last solid_def byte_def)
  moreover have "str_slice accented_hash 0 2 = Panicked"
    by (simp add: str_slice_def is_char_boundary_def len) (simp add: accented_hash_def cont_byte_def)
  moreover have "utf8_valid accented_hash" by code_simp
  moreover have "parse_hash_bytes debug_str accented_hash 32 0 = Panicked"
    using calculation(2) parse_hash_bytes.simps(2) [of debug_str accented_hash 31 0]
    by (simp add: numeral_2_eq_2)
  ultimately show ?thesis by (simp add: parse_hash_def len)
qed

text \<open>
  A plus sign passes for a hex digit: \<open>from_str_radix\<close> accepts one before the digits, so 32
  repetitions of plus and f parse as 32 bytes of value 15 although the text is not 64 hex digits.
\<close>

lemma hash_accepts_plus:
  "parse_hash debug_str (concat (replicate 32 ''+f'')) = Returned (Inr (replicate 32 15)) \<and>
   \<not> (\<forall>c \<in> set (concat (replicate 32 ''+f'')). is_digit 16 c)"
proof -
  have "list_all2 reads_as (replicate 32 ''+f'') (replicate 32 15)"
    by (simp add: list_all2_conv_all_nth reads_as_def u8_from_str_radix16_def is_digit_def
        to_digit_def byte_def)
  moreover have "\<forall>c \<in> set (concat (replicate 32 ''+f'')). solid c"
    by (auto simp: solid_def byte_def)
  ultimately have "parse_hash debug_str (concat (replicate 32 ''+f'')) = Returned (Inr (replicate 32 15))"
    by (intro parse_hash_pairs) simp_all
  then show ?thesis by (simp add: is_digit_def to_digit_def byte_def)
qed

end
