(* ===== verification/RkChannel.thy ===== *)
theory RkChannel
  imports RkEvent "HOL-Library.Sublist"
begin

text \<open>
  The event queue of an endpoint: the bounded channel of the standard library as
  \<open>rust/src/transport.rs\<close> uses it (\<open>try_send\<close> on the endpoint's side, \<open>recv_timeout\<close> on the
  caller's), \<open>emit\<close>, and the abstract bounded queue that both implement.
\<close>

section \<open>The interface: a bounded queue that refuses when it is full\<close>

datatype 'e queue_op = Emit 'e | Take

fun run_queue ::
  "('e \<Rightarrow> 'q \<Rightarrow> 'q) \<Rightarrow> ('q \<Rightarrow> 'e option \<times> 'q) \<Rightarrow> 'e queue_op list \<Rightarrow> 'q \<Rightarrow> 'e list \<times> 'q" where
  "run_queue enq deq [] q = ([], q)"
| "run_queue enq deq (Emit e # ops) q = run_queue enq deq ops (enq e q)"
| "run_queue enq deq (Take # ops) q =
     (case deq q of
        (None, q') \<Rightarrow> run_queue enq deq ops q'
      | (Some e, q') \<Rightarrow> (case run_queue enq deq ops q' of (es, q'') \<Rightarrow> (e # es, q'')))"

text \<open>The abstract specification: a list of at most \<open>b\<close> elements.\<close>

fun spec_queue :: "nat \<Rightarrow> 'e queue_op list \<Rightarrow> 'e list \<Rightarrow> 'e list \<times> 'e list" where
  "spec_queue b [] xs = ([], xs)"
| "spec_queue b (Emit e # ops) xs =
     spec_queue b ops (if length xs < b then xs @ [e] else xs)"
| "spec_queue b (Take # ops) [] = spec_queue b ops []"
| "spec_queue b (Take # ops) (x # xs) =
     (case spec_queue b ops xs of (es, ys) \<Rightarrow> (x # es, ys))"

fun emitted :: "'e queue_op list \<Rightarrow> 'e list" where
  "emitted [] = []"
| "emitted (Emit e # ops) = e # emitted ops"
| "emitted (Take # ops) = emitted ops"

lemma spec_queue_subseq:
  "spec_queue b ops xs = (es, ys) \<Longrightarrow> subseq (es @ ys) (xs @ emitted ops)"
proof (induction b ops xs arbitrary: es ys rule: spec_queue.induct)
  case (2 b e ops xs)
  show ?case
  proof (cases "length xs < b")
    case True
    with 2 show ?thesis by simp
  next
    case False
    with 2 have "subseq (es @ ys) (xs @ emitted ops)" by simp
    moreover have "subseq (xs @ emitted ops) (xs @ e # emitted ops)"
      by (simp add: subseq_append' list_emb_Cons)
    ultimately show ?thesis by (simp add: subseq_order.order_trans)
  qed
next
  case (4 b ops x xs)
  then show ?case by (auto split: prod.splits)
qed (auto split: prod.splits)

lemma spec_queue_lossless:
  "spec_queue b ops xs = (es, ys) \<Longrightarrow> length xs + length (emitted ops) \<le> b \<Longrightarrow>
     es @ ys = xs @ emitted ops"
  by (induction b ops xs arbitrary: es ys rule: spec_queue.induct) (auto split: prod.splits)

lemma spec_queue_bounded:
  "spec_queue b ops xs = (es, ys) \<Longrightarrow> length xs \<le> b \<Longrightarrow> length ys \<le> b"
  by (induction b ops xs arbitrary: es ys rule: spec_queue.induct)
    (auto split: prod.splits if_splits)

locale bounded_queue =
  fixes enq :: "'e \<Rightarrow> 'q \<Rightarrow> 'q"
    and deq :: "'q \<Rightarrow> 'e option \<times> 'q"
    and content :: "'q \<Rightarrow> 'e list"
    and bound :: "'q \<Rightarrow> nat"
    and ok :: "'q \<Rightarrow> bool"
  assumes enq_content: "ok q \<Longrightarrow>
      content (enq e q) = (if length (content q) < bound q then content q @ [e] else content q)"
    and enq_keeps: "ok q \<Longrightarrow> ok (enq e q) \<and> bound (enq e q) = bound q"
    and deq_empty: "ok q \<Longrightarrow> content q = [] \<Longrightarrow> deq q = (None, q)"
    and deq_first: "ok q \<Longrightarrow> content q = x # xs \<Longrightarrow>
      fst (deq q) = Some x \<and> content (snd (deq q)) = xs"
    and deq_keeps: "ok q \<Longrightarrow> ok (snd (deq q)) \<and> bound (snd (deq q)) = bound q"
begin

text \<open>Any run of the implementation is the run of the specification on its content.\<close>

lemma run_refines:
  "ok q \<Longrightarrow> run_queue enq deq ops q = (es, q') \<Longrightarrow>
     spec_queue (bound q) ops (content q) = (es, content q') \<and> ok q' \<and> bound q' = bound q"
proof (induction ops arbitrary: q es)
  case (Cons op ops)
  show ?case
  proof (cases op)
    case (Emit e)
    with Cons.prems Cons.IH [of "enq e q" es] show ?thesis
      by (simp add: enq_keeps enq_content)
  next
    case Take
    show ?thesis
    proof (cases "content q")
      case Nil
      with Take Cons.prems Cons.IH [of q es] deq_empty [of q] show ?thesis by simp
    next
      case (Cons x xs)
      from deq_first [OF Cons.prems(1) this] have d: "deq q = (Some x, snd (deq q))"
        and c: "content (snd (deq q)) = xs" by (simp_all add: prod_eq_iff)
      from Take d Cons.prems(2) obtain es' where
        r: "run_queue enq deq ops (snd (deq q)) = (es', q')" and es: "es = x # es'"
        by (cases "run_queue enq deq ops (snd (deq q))") (auto split: prod.splits simp: prod_eq_iff)
      from Cons.IH [OF _ r] deq_keeps [OF Cons.prems(1)] c Take Cons es show ?thesis by simp
    qed
  qed
qed simp

lemma run_bounded:
  "ok q \<Longrightarrow> length (content q) \<le> bound q \<Longrightarrow>
     length (content (snd (run_queue enq deq ops q))) \<le> bound q"
  using run_refines spec_queue_bounded by (metis prod.collapse)

lemma run_fifo:
  "ok q \<Longrightarrow> run_queue enq deq ops q = (es, q') \<Longrightarrow>
     subseq (es @ content q') (content q @ emitted ops)"
  using run_refines spec_queue_subseq by metis

lemma run_lossless:
  "ok q \<Longrightarrow> run_queue enq deq ops q = (es, q') \<Longrightarrow>
     length (content q) + length (emitted ops) \<le> bound q \<Longrightarrow>
     es @ content q' = content q @ emitted ops"
  using run_refines spec_queue_lossless by metis

end

section \<open>The channel\<close>

definition EVENT_QUEUE_DEPTH :: nat where
  "EVENT_QUEUE_DEPTH = 1024"

record channel =
  depth :: nat
  buf :: "Event list"
  senders :: nat
  receiver_alive :: bool

datatype TrySendError = Full Event | Disconnected Event

datatype RecvTimeoutError = RecvTimeout | RecvDisconnected

definition sync_channel :: "nat \<Rightarrow> channel" where
  "sync_channel n = \<lparr>depth = n, buf = [], senders = 1, receiver_alive = True\<rparr>"

definition try_send :: "Event \<Rightarrow> channel \<Rightarrow> (TrySendError + unit) \<times> channel" where
  "try_send e ch =
     (if \<not> receiver_alive ch then (Inl (Disconnected e), ch)
      else if length (buf ch) < depth ch then (Inr (), ch\<lparr>buf := buf ch @ [e]\<rparr>)
      else (Inl (Full e), ch))"

text \<open>
  \<open>recv_timeout\<close>. \<open>arrival\<close> is what the other threads do while the caller waits on an empty
  queue: the first event sent and how long after the call, if there is one. The middle
  component of the result is how long the caller waited.
\<close>

definition recv_timeout ::
  "nat \<Rightarrow> (nat \<times> Event) option \<Rightarrow> channel \<Rightarrow> (RecvTimeoutError + Event) \<times> nat \<times> channel" where
  "recv_timeout timeout arrival ch =
     (case buf ch of
        e # r \<Rightarrow> (Inr e, 0, ch\<lparr>buf := r\<rparr>)
      | [] \<Rightarrow>
          if senders ch = 0 then (Inl RecvDisconnected, 0, ch)
          else (case arrival of
                  Some (t, e) \<Rightarrow>
                    if t < timeout then (Inr e, t, ch) else (Inl RecvTimeout, timeout, ch)
                | None \<Rightarrow> (Inl RecvTimeout, timeout, ch)))"

definition emit :: "Event \<Rightarrow> channel \<Rightarrow> channel" where
  "emit event ch =
     (case try_send event ch of
        (Inr _, ch') \<Rightarrow> ch'
      | (Inl (Full _), ch') \<Rightarrow> ch'
      | (Inl (Disconnected _), ch') \<Rightarrow> ch')"

text \<open>A reader that does not wait.\<close>

definition take_event :: "channel \<Rightarrow> Event option \<times> channel" where
  "take_event ch =
     (case recv_timeout 0 None ch of
        (Inr e, _, ch') \<Rightarrow> (Some e, ch')
      | (Inl _, _, ch') \<Rightarrow> (None, ch'))"

definition channel_live :: "channel \<Rightarrow> bool" where
  "channel_live ch \<longleftrightarrow> receiver_alive ch"

lemma emit_buf:
  "buf (emit e ch) =
     (if receiver_alive ch \<and> length (buf ch) < depth ch then buf ch @ [e] else buf ch)"
  by (simp add: emit_def try_send_def)

lemma emit_frame [simp]:
  "depth (emit e ch) = depth ch" "senders (emit e ch) = senders ch"
  "receiver_alive (emit e ch) = receiver_alive ch"
  by (simp_all add: emit_def try_send_def)

interpretation events: bounded_queue emit take_event buf depth channel_live
proof
  fix q e x and xs :: "Event list"
  show "channel_live q \<Longrightarrow>
      buf (emit e q) = (if length (buf q) < depth q then buf q @ [e] else buf q)"
    by (simp add: emit_buf channel_live_def)
  show "channel_live q \<Longrightarrow> channel_live (emit e q) \<and> depth (emit e q) = depth q"
    by (simp add: channel_live_def)
  show "buf q = [] \<Longrightarrow> take_event q = (None, q)"
    by (simp add: take_event_def recv_timeout_def)
  show "buf q = x # xs \<Longrightarrow> fst (take_event q) = Some x \<and> buf (snd (take_event q)) = xs"
    by (simp add: take_event_def recv_timeout_def)
  show "channel_live q \<Longrightarrow>
      channel_live (snd (take_event q)) \<and> depth (snd (take_event q)) = depth q"
    by (auto simp: take_event_def recv_timeout_def channel_live_def split: list.splits)
qed

lemma emits_without_reader:
  "channel_live ch \<Longrightarrow> length (buf ch) \<le> depth ch \<Longrightarrow>
     buf (fold emit es ch) = take (depth ch) (buf ch @ es)"
proof (induction es arbitrary: ch)
  case (Cons e es)
  then show ?case by (auto simp: emit_buf channel_live_def take_Cons')
qed simp

section \<open>Properties\<close>

text \<open>
  However emits and reads interleave, the event queue behaves as a first-in first-out queue
  of at most 1024 events that loses only what is emitted while it is full: what was read,
  followed by what is still queued, is a subsequence of what was emitted, in order; at most 1024
  events wait; and nothing at all is lost as long as at most 1024 events are emitted.
\<close>

lemma event_queue_fifo:
  assumes "run_queue emit take_event ops (sync_channel EVENT_QUEUE_DEPTH) = (es, ch)"
  shows "subseq (es @ buf ch) (emitted ops) \<and> length (buf ch) \<le> 1024 \<and>
    (length (emitted ops) \<le> 1024 \<longrightarrow> es @ buf ch = emitted ops)"
proof -
  let ?c = "sync_channel EVENT_QUEUE_DEPTH"
  have c: "channel_live ?c" "buf ?c = []" "depth ?c = 1024"
    by (simp_all add: channel_live_def sync_channel_def EVENT_QUEUE_DEPTH_def)
  with events.run_fifo [OF c(1) assms] events.run_lossless [OF c(1) assms]
    events.run_bounded [OF c(1), of ops] assms
  show ?thesis by simp
qed

lemma event_queue_fifo_witness:
  "run_queue emit take_event [Emit (StreamOpened 1 0), Emit (StreamClosed 1 0), Take]
     (sync_channel EVENT_QUEUE_DEPTH)
   = ([StreamOpened 1 0], \<lparr>depth = 1024, buf = [StreamClosed 1 0], senders = 1, receiver_alive = True\<rparr>)
   \<and> subseq [StreamOpened 1 0, StreamClosed 1 0] [StreamOpened 1 0, StreamClosed 1 0]"
proof -
  have r: "run_queue emit take_event [Emit (StreamOpened 1 0), Emit (StreamClosed 1 0), Take]
     (sync_channel EVENT_QUEUE_DEPTH)
   = ([StreamOpened 1 0], \<lparr>depth = 1024, buf = [StreamClosed 1 0], senders = 1, receiver_alive = True\<rparr>)"
    by (simp add: emit_def try_send_def take_event_def recv_timeout_def sync_channel_def
        EVENT_QUEUE_DEPTH_def)
  from event_queue_fifo [OF r] r show ?thesis by simp
qed

text \<open>
  When nobody reads, the queue keeps the oldest events and drops every newer one: after any
  sequence of emits on a fresh queue it holds exactly the first 1024 of them. (The comments on
  \<open>emit\<close> and on the depth say that the oldest is dropped and the newest kept.)
\<close>

lemma full_queue_keeps_oldest:
  "buf (fold emit es (sync_channel EVENT_QUEUE_DEPTH)) = take 1024 es"
  using emits_without_reader [of "sync_channel EVENT_QUEUE_DEPTH" es]
  by (simp add: channel_live_def sync_channel_def EVENT_QUEUE_DEPTH_def)

end
