(* ===== verification/RkTransport.thy ===== *)
theory RkTransport
  imports RkFfi RkClientConfig RkChannel
begin

text \<open>
  The endpoint (\<open>rust/src/transport.rs\<close>): its state, the operations the boundary calls on it,
  the registry of endpoints, starting, connecting, opening a stream and stopping. Code that is
  not in the repository (wtransport, tokio, serde, rustls-pemfile) is the argument \<open>x\<close> of type
  \<open>external\<close>. The network is an oracle: every request is recorded in a trace, and the answer to
  a request is any function of the trace so far.
\<close>

section \<open>External code\<close>

type_synonym conn = nat
type_synonym sendstream = nat
type_synonym recvstream = nat
type_synonym stream_opening = nat
type_synonym tokio_runtime = nat
type_synonym quic_endpoint = nat
type_synonym certificate = string
type_synonym Identity = "certificate list \<times> der"

datatype ErrorKind = AddrInUse | OtherErrorKind

type_synonym io_error = "ErrorKind \<times> rstr"

datatype Ipv6DualStackConfig = OsDefault | DualStackDeny | DualStackAllow

datatype bind_call =
    with_bind_address SocketAddr
  | with_bind_address_v6 SocketAddr Ipv6DualStackConfig

record WtServerConfig =
  ws_bind :: bind_call
  ws_identity :: Identity
  ws_max_idle_timeout :: Duration
  ws_keep_alive :: Duration

record WtClientConfig =
  wc_certificate_hashes :: "u8 list list"
  wc_max_idle_timeout :: Duration
  wc_keep_alive :: Duration

datatype action =
    BuildRuntime
  | DropRuntime tokio_runtime
  | ShutdownBackground tokio_runtime
  | OpenServerEndpoint WtServerConfig
  | OpenClientEndpoint WtClientConfig
  | Connect quic_endpoint rstr
  | OpenUni conn
  | AwaitUni stream_opening
  | OpenBi conn
  | AwaitBi stream_opening
  | WriteAll sendstream rstr
  | FinishStream sendstream
  | SendDatagram conn rstr
  | CloseConnection conn nat rstr

record external =
  x_server_config_from_str :: "rstr \<Rightarrow> rstr + ServerConfig"
  x_client_config_from_str :: "rstr \<Rightarrow> rstr + ClientConfig"
  x_json_to_string :: "(string \<times> json) list \<Rightarrow> rstr + rstr"
  x_certs :: "rstr \<Rightarrow> (rstr + der) list"
  x_private_key :: "rstr \<Rightarrow> rstr + PrivateKeyDer option"
  x_certificate_from_der :: "der \<Rightarrow> rstr + certificate"
  x_idle_timeout_ok :: "Duration \<Rightarrow> bool"
  x_debug_str :: "rstr \<Rightarrow> rstr"
  x_to_lowercase :: "rstr \<Rightarrow> rstr"
  x_build_runtime :: "action list \<Rightarrow> rstr + tokio_runtime"
  x_server_endpoint :: "action list \<Rightarrow> WtServerConfig \<Rightarrow> io_error + quic_endpoint"
  x_client_endpoint :: "action list \<Rightarrow> WtClientConfig \<Rightarrow> rstr + quic_endpoint"
  x_local_port :: "action list \<Rightarrow> quic_endpoint \<Rightarrow> rstr + u16"
  x_connect :: "action list \<Rightarrow> quic_endpoint \<Rightarrow> rstr \<Rightarrow> rstr + conn"
  x_open_uni :: "action list \<Rightarrow> conn \<Rightarrow> rstr + stream_opening"
  x_await_uni :: "action list \<Rightarrow> stream_opening \<Rightarrow> rstr + sendstream"
  x_open_bi :: "action list \<Rightarrow> conn \<Rightarrow> rstr + stream_opening"
  x_await_bi :: "action list \<Rightarrow> stream_opening \<Rightarrow> rstr + sendstream \<times> recvstream"
  x_write_all :: "action list \<Rightarrow> sendstream \<Rightarrow> rstr \<Rightarrow> rstr + unit"
  x_finish :: "action list \<Rightarrow> sendstream \<Rightarrow> rstr + unit"
  x_send_datagram :: "action list \<Rightarrow> conn \<Rightarrow> rstr \<Rightarrow> rstr + unit"
  x_stream_id :: "sendstream \<Rightarrow> u64"

section \<open>Endpoint state\<close>

text \<open>
  The mutex around \<open>events\<close> guards the receiving end; the sending end is shared without it, so
  \<open>emit_on\<close> does not look at the lock.
\<close>

record Endpoint =
  runtime :: "tokio_runtime option"
  events :: "channel mutex"
  sessions :: "(u64, conn) table mutex"
  streams :: "(u64 \<times> u64, sendstream) table mutex"
  local_port :: u16

definition emit_on :: "Event \<Rightarrow> Endpoint \<Rightarrow> Endpoint" where
  "emit_on e ep = ep\<lparr>events := lock_set (emit e (guarded (events ep))) (events ep)\<rparr>"

text \<open>
  The tasks a runtime runs for an endpoint, each at the point where it waits or where another
  thread may run next. \<open>side\<close> tells a session the server accepted from the one a client opened:
  they share \<open>session_loop\<close> and differ in what follows it.
\<close>

datatype side = ServerSide | ClientSide

datatype task =
    AcceptLoop rstr
  | AwaitRequest rstr
  | AwaitNotFound
  | AwaitAccept rstr rstr
  | Register u64 conn rstr rstr
  | AnnounceOpen u64 conn rstr rstr
  | Serve side u64 conn
  | ReadUni side u64 conn
  | KeepStream side u64 conn sendstream recvstream
  | AnnounceStream side u64 conn u64 recvstream
  | Forget side u64 rstr
  | Prune u64 rstr
  | AnnounceClosed u64 rstr
  | ReadBi u64 u64 recvstream
  | AnnounceStreamClosed u64 u64
  | ApiOpening u64 conn
  | ApiOpened u64 sendstream recvstream
  | Done

text \<open>An \<open>Arc<Endpoint>\<close> with its reference count and the tasks of its runtime.\<close>

record arc =
  strong :: nat
  endpoint :: Endpoint
  tasks :: "task list"
  next_session :: u64

record process = ffi_state +
  registry :: "(u64, nat) table mutex"
  arcs :: "(nat, arc) table"
  next_arc :: nat
  handle_counter :: u64
  trace :: "action list"

section \<open>Operations on an endpoint\<close>

definition next_event ::
  "Duration \<Rightarrow> (nat \<times> Event) option \<Rightarrow> Endpoint \<Rightarrow> Event option \<times> nat \<times> Endpoint" where
  "next_event timeout arrival ep =
     (case lock_get (events ep) of
        None \<Rightarrow> (None, 0, ep)
      | Some ch \<Rightarrow>
          (case recv_timeout timeout arrival ch of
             (Inr event, waited, ch') \<Rightarrow> (Some event, waited, ep\<lparr>events := lock_set ch' (events ep)\<rparr>)
           | (Inl RecvTimeout, waited, ch') \<Rightarrow> (None, waited, ep\<lparr>events := lock_set ch' (events ep)\<rparr>)
           | (Inl RecvDisconnected, waited, ch') \<Rightarrow>
               (None, waited, ep\<lparr>events := lock_set ch' (events ep)\<rparr>)))"

definition send ::
  "external \<Rightarrow> Endpoint \<Rightarrow> u64 \<Rightarrow> rstr \<Rightarrow> bool \<Rightarrow> action list \<Rightarrow> (Status + unit) \<times> action list" where
  "send x ep session_id payload reliable tr =
     (case lock_get (sessions ep) of
        None \<Rightarrow> (Inl Panic, tr)
      | Some m \<Rightarrow>
          (case map_of m session_id of
             None \<Rightarrow> (Inl UnknownHandle, tr)
           | Some c \<Rightarrow>
               (case runtime ep of
                  None \<Rightarrow> (Inl NotRunning, tr)
                | Some _ \<Rightarrow>
                    if reliable then
                      (case x_open_uni x tr c of
                         Inl _ \<Rightarrow> (Inl PeerGone, tr @ [OpenUni c])
                       | Inr o' \<Rightarrow>
                           let tr1 = tr @ [OpenUni c] in
                           (case x_await_uni x tr1 o' of
                              Inl _ \<Rightarrow> (Inl PeerGone, tr1 @ [AwaitUni o'])
                            | Inr s \<Rightarrow>
                                let tr2 = tr1 @ [AwaitUni o'] in
                                (case x_write_all x tr2 s payload of
                                   Inl _ \<Rightarrow> (Inl PeerGone, tr2 @ [WriteAll s payload])
                                 | Inr _ \<Rightarrow>
                                     let tr3 = tr2 @ [WriteAll s payload] in
                                     (case x_finish x tr3 s of
                                        Inl _ \<Rightarrow> (Inl PeerGone, tr3 @ [FinishStream s])
                                      | Inr _ \<Rightarrow> (Inr (), tr3 @ [FinishStream s])))))
                    else
                      (case x_send_datagram x tr c payload of
                         Inl _ \<Rightarrow> (Inl PeerGone, tr @ [SendDatagram c payload])
                       | Inr _ \<Rightarrow> (Inr (), tr @ [SendDatagram c payload])))))"

definition stream_send ::
  "external \<Rightarrow> Endpoint \<Rightarrow> u64 \<Rightarrow> u64 \<Rightarrow> rstr \<Rightarrow> action list \<Rightarrow> (Status + unit) \<times> action list" where
  "stream_send x ep session_id stream_id payload tr =
     (case lock_get (streams ep) of
        None \<Rightarrow> (Inl Panic, tr)
      | Some m \<Rightarrow>
          (case map_of m (session_id, stream_id) of
             None \<Rightarrow> (Inl UnknownHandle, tr)
           | Some s \<Rightarrow>
               (case runtime ep of
                  None \<Rightarrow> (Inl NotRunning, tr)
                | Some _ \<Rightarrow>
                    (case x_write_all x tr s payload of
                       Inl _ \<Rightarrow> (Inl PeerGone, tr @ [WriteAll s payload])
                     | Inr _ \<Rightarrow> (Inr (), tr @ [WriteAll s payload])))))"

definition stream_close ::
  "external \<Rightarrow> Endpoint \<Rightarrow> u64 \<Rightarrow> u64 \<Rightarrow> action list \<Rightarrow>
   (Status + unit) \<times> Endpoint \<times> action list" where
  "stream_close x ep session_id stream_id tr =
     (case lock_get (streams ep) of
        None \<Rightarrow> (Inl Panic, ep, tr)
      | Some m \<Rightarrow>
          let ep' = ep\<lparr>streams := lock_set (AList.delete (session_id, stream_id) m) (streams ep)\<rparr> in
          (case map_of m (session_id, stream_id) of
             None \<Rightarrow> (Inl UnknownHandle, ep', tr)
           | Some s \<Rightarrow>
               (case runtime ep of
                  None \<Rightarrow> (Inl NotRunning, ep', tr)
                | Some _ \<Rightarrow>
                    (case x_finish x tr s of
                       Inl _ \<Rightarrow> (Inl PeerGone, ep', tr @ [FinishStream s])
                     | Inr _ \<Rightarrow> (Inr (), ep', tr @ [FinishStream s])))))"

text \<open>
  \<open>Drop for Endpoint\<close>: every session is closed, then the runtime is shut down in the
  background. The order of the closes is that of the table; \<open>HashMap::drain\<close> has some order.
\<close>

definition drop_endpoint :: "Endpoint \<Rightarrow> action list \<Rightarrow> action list" where
  "drop_endpoint ep tr =
     (let closes = (case lock_get (sessions ep) of
                      None \<Rightarrow> []
                    | Some m \<Rightarrow> map (\<lambda>(_, c). CloseConnection c 0 ''endpoint stopped'') m)
      in tr @ closes @ (case runtime ep of None \<Rightarrow> [] | Some rt \<Rightarrow> [ShutdownBackground rt]))"

section \<open>Reference counts and the registry\<close>

text \<open>A counted reference always points to an entry; \<open>no_arc\<close> is never reached.\<close>

definition no_arc :: arc where
  "no_arc = \<lparr>strong = 0,
     endpoint = \<lparr>runtime = None, events = new_mutex (sync_channel 0), sessions = new_mutex [],
                 streams = new_mutex [], local_port = 0\<rparr>,
     tasks = [], next_session = 0\<rparr>"

definition arc_at :: "'a process_scheme \<Rightarrow> nat \<Rightarrow> arc" where
  "arc_at st a = (case map_of (arcs st) a of Some r \<Rightarrow> r | None \<Rightarrow> no_arc)"

definition set_arc :: "nat \<Rightarrow> arc \<Rightarrow> 'a process_scheme \<Rightarrow> 'a process_scheme" where
  "set_arc a r st = st\<lparr>arcs := AList.update a r (arcs st)\<rparr>"

definition set_endpoint :: "nat \<Rightarrow> Endpoint \<Rightarrow> 'a process_scheme \<Rightarrow> 'a process_scheme" where
  "set_endpoint a ep st = set_arc a ((arc_at st a)\<lparr>endpoint := ep\<rparr>) st"

definition arc_clone :: "nat \<Rightarrow> 'a process_scheme \<Rightarrow> 'a process_scheme" where
  "arc_clone a st = set_arc a ((arc_at st a)\<lparr>strong := Suc (strong (arc_at st a))\<rparr>) st"

definition arc_drop :: "nat \<Rightarrow> 'a process_scheme \<Rightarrow> 'a process_scheme" where
  "arc_drop a st =
     (let r = arc_at st a in
      if strong r \<le> 1 then
        st\<lparr>arcs := AList.delete a (arcs st), trace := drop_endpoint (endpoint r) (trace st)\<rparr>
      else set_arc a (r\<lparr>strong := strong r - 1\<rparr>) st)"

definition arc_new :: "arc \<Rightarrow> 'a process_scheme \<Rightarrow> nat \<times> 'a process_scheme" where
  "arc_new r st =
     (next_arc st, st\<lparr>arcs := AList.update (next_arc st) r (arcs st), next_arc := Suc (next_arc st)\<rparr>)"

definition next_handle :: "'a process_scheme \<Rightarrow> u64 \<times> 'a process_scheme" where
  "next_handle st = (handle_counter st, st\<lparr>handle_counter := handle_counter st + 1\<rparr>)"

definition lookup :: "u64 \<Rightarrow> 'a process_scheme \<Rightarrow> nat option \<times> 'a process_scheme" where
  "lookup handle st =
     (case lock_get (registry st) of
        None \<Rightarrow> (None, st)
      | Some m \<Rightarrow>
          (case map_of m handle of
             None \<Rightarrow> (None, st)
           | Some a \<Rightarrow> (Some a, arc_clone a st)))"

definition remove :: "u64 \<Rightarrow> 'a process_scheme \<Rightarrow> Status \<times> 'a process_scheme" where
  "remove handle st =
     (case lock_get (registry st) of
        None \<Rightarrow> (Panic, st)
      | Some m \<Rightarrow>
          let st1 = st\<lparr>registry := lock_set (AList.delete handle m) (registry st)\<rparr> in
          (case map_of m handle of
             Some a \<Rightarrow> (StatusOk, arc_drop a st1)
           | None \<Rightarrow> (NotRunning, st1)))"

definition live_count :: "'a process_scheme \<Rightarrow> nat" where
  "live_count st = (case lock_get (registry st) of Some m \<Rightarrow> length m | None \<Rightarrow> 0)"

text \<open>
  Registering a new endpoint: \<open>HashMap::insert\<close> drops what the key held before; a poisoned
  registry drops the endpoint that was to be registered.
\<close>

definition register ::
  "u64 \<Rightarrow> arc \<Rightarrow> 'a process_scheme \<Rightarrow> ((Status \<times> rstr) + unit) \<times> 'a process_scheme" where
  "register handle r st =
     (case lock_get (registry st) of
        None \<Rightarrow> (Inl (Panic, ''endpoint registry is poisoned''),
                 st\<lparr>trace := drop_endpoint (endpoint r) (trace st)\<rparr>)
      | Some m \<Rightarrow>
          (case arc_new r st of
             (a, st1) \<Rightarrow>
               let st2 = st1\<lparr>registry := lock_set (AList.update handle a m) (registry st1)\<rparr> in
               (Inr (), case map_of m handle of None \<Rightarrow> st2 | Some old \<Rightarrow> arc_drop old st2)))"

section \<open>Starting an endpoint\<close>

definition bind_status :: "io_error \<Rightarrow> Status" where
  "bind_status error = (case fst error of AddrInUse \<Rightarrow> PortInUse | _ \<Rightarrow> BindFailed)"

definition connect_status :: "(rstr \<Rightarrow> rstr) \<Rightarrow> rstr \<Rightarrow> Status" where
  "connect_status to_lowercase error =
     (let text = to_lowercase error in
      if contains text ''certificate'' \<or> contains text ''tls'' \<or> contains text ''handshake''
      then BadCertificate else PeerGone)"

definition key_container :: "PrivateKeyDer \<Rightarrow> rstr" where
  "key_container k =
     (case k of Pkcs1 _ \<Rightarrow> ''PKCS#1 (BEGIN RSA PRIVATE KEY)''
      | Sec1 _ \<Rightarrow> ''SEC1 (BEGIN EC PRIVATE KEY)''
      | _ \<Rightarrow> ''of an unknown kind'')"

definition msg_key_container :: "PrivateKeyDer \<Rightarrow> rstr" where
  "msg_key_container k =
     ''private key is '' @ key_container k @ '', and only PKCS#8 is accepted '' @ em_dash @
     '' convert with `openssl pkcs8 -topk8`''"

definition msg_certificate :: "rstr \<Rightarrow> rstr" where
  "msg_certificate e = ''certificate in chain is not usable: '' @ e"

definition identity_from :: "external \<Rightarrow> ParsedConfig \<Rightarrow> (Status \<times> rstr) + Identity" where
  "identity_from x config =
     (case collect_results (map (x_certificate_from_der x) (pc_chain config)) of
        Inl e \<Rightarrow> Inl (BadCertificate, msg_certificate e)
      | Inr chain \<Rightarrow>
          (case pc_key config of
             Pkcs8 der \<Rightarrow> Inr (chain, der)
           | other \<Rightarrow> Inl (BadCertificate, msg_key_container other)))"

definition msg_idle_range :: "Duration \<Rightarrow> rstr" where
  "msg_idle_range d = ''idleTimeoutMs '' @ debug_duration d @ '' is out of range for QUIC''"

definition bind_choice :: "SocketAddr \<Rightarrow> bind_call" where
  "bind_choice bind =
     (case bind of
        V6 _ _ _ \<Rightarrow> with_bind_address_v6 bind DualStackAllow
      | V4 _ _ _ _ _ \<Rightarrow> with_bind_address bind)"

definition live_endpoint :: "tokio_runtime \<Rightarrow> u16 \<Rightarrow> Endpoint" where
  "live_endpoint rt port =
     \<lparr>runtime = Some rt, events = new_mutex (sync_channel EVENT_QUEUE_DEPTH),
      sessions = new_mutex [], streams = new_mutex [], local_port = port\<rparr>"

definition start ::
  "external \<Rightarrow> ParsedConfig \<Rightarrow> 'a process_scheme \<Rightarrow> ((Status \<times> rstr) + u64) \<times> 'a process_scheme" where
  "start x config st =
     (case identity_from x config of
        Inl e \<Rightarrow> (Inl e, st)
      | Inr identity \<Rightarrow>
          let idle = pc_idle_timeout config in
          if \<not> x_idle_timeout_ok x idle then (Inl (InvalidArgument, msg_idle_range idle), st)
          else
            let server_config = \<lparr>ws_bind = bind_choice (pc_bind config), ws_identity = identity,
                                 ws_max_idle_timeout = idle, ws_keep_alive = idle div 3\<rparr>;
                st1 = st\<lparr>trace := trace st @ [BuildRuntime]\<rparr> in
            (case x_build_runtime x (trace st) of
               Inl e \<Rightarrow> (Inl (BindFailed, ''no tokio runtime: '' @ e), st1)
             | Inr rt \<Rightarrow>
                 let st2 = st1\<lparr>trace := trace st1 @ [OpenServerEndpoint server_config]\<rparr> in
                 (case x_server_endpoint x (trace st1) server_config of
                    Inl e \<Rightarrow>
                      (Inl (bind_status e,
                            ''bind '' @ display_socket_addr (pc_bind config) @ '': '' @ snd e),
                       st2\<lparr>trace := trace st2 @ [DropRuntime rt]\<rparr>)
                  | Inr ep \<Rightarrow>
                      (case x_local_port x (trace st2) ep of
                         Inl e \<Rightarrow> (Inl (BindFailed, ''no local address: '' @ e),
                                   st2\<lparr>trace := trace st2 @ [DropRuntime rt]\<rparr>)
                       | Inr port \<Rightarrow>
                           (case next_handle st2 of
                              (handle, st3) \<Rightarrow>
                                (case register handle
                                        \<lparr>strong = 1, endpoint = live_endpoint rt port,
                                         tasks = [AcceptLoop (pc_path config)],
                                         next_session = 1\<rparr> st3 of
                                   (Inl e, st4) \<Rightarrow> (Inl e, st4)
                                 | (Inr _, st4) \<Rightarrow> (Inr handle, st4)))))))"

section \<open>Connecting and opening a stream\<close>

definition connect ::
  "external \<Rightarrow> ParsedClientConfig \<Rightarrow> 'a process_scheme \<Rightarrow>
   ((Status \<times> rstr) + u64 \<times> u64) \<times> 'a process_scheme" where
  "connect x config st =
     (let idle = pcc_idle_timeout config; url = pcc_url config in
      if \<not> x_idle_timeout_ok x idle then (Inl (InvalidArgument, msg_idle_range idle), st)
      else
        let client_config = \<lparr>wc_certificate_hashes = [pcc_certificate_hash config],
                             wc_max_idle_timeout = idle, wc_keep_alive = idle div 3\<rparr>;
            st1 = st\<lparr>trace := trace st @ [BuildRuntime]\<rparr> in
        (case x_build_runtime x (trace st) of
           Inl e \<Rightarrow> (Inl (BindFailed, ''no tokio runtime: '' @ e), st1)
         | Inr rt \<Rightarrow>
             let st2 = st1\<lparr>trace := trace st1 @ [OpenClientEndpoint client_config]\<rparr> in
             (case x_client_endpoint x (trace st1) client_config of
                Inl e \<Rightarrow> (Inl (BindFailed, ''no client endpoint: '' @ e),
                          st2\<lparr>trace := trace st2 @ [DropRuntime rt]\<rparr>)
              | Inr ep \<Rightarrow>
                  let st3 = st2\<lparr>trace := trace st2 @ [Connect ep url]\<rparr> in
                  (case x_connect x (trace st2) ep url of
                     Inl e \<Rightarrow>
                       (Inl (connect_status (x_to_lowercase x) e,
                             ''connect '' @ url @ '': '' @ e),
                        st3\<lparr>trace := trace st3 @ [DropRuntime rt]\<rparr>)
                   | Inr connection \<Rightarrow>
                       let port = (case x_local_port x (trace st3) ep of Inr p \<Rightarrow> p | Inl _ \<Rightarrow> 0) in
                       (case next_handle st3 of
                          (session_id, st4) \<Rightarrow>
                            let live0 = live_endpoint rt port;
                                live1 = live0\<lparr>sessions := lock_set [(session_id, connection)] (sessions live0)\<rparr>;
                                live2 = emit_on (SessionOpened session_id [] url) live1 in
                            (case next_handle st4 of
                               (handle, st5) \<Rightarrow>
                                 (case register handle
                                         \<lparr>strong = 1, endpoint = live2,
                                          tasks = [Serve ClientSide session_id connection],
                                          next_session = 1\<rparr> st5 of
                                    (Inl e, st6) \<Rightarrow> (Inl e, st6)
                                  | (Inr _, st6) \<Rightarrow> (Inr (handle, session_id), st6))))))))"

definition open_stream_on ::
  "external \<Rightarrow> nat \<Rightarrow> u64 \<Rightarrow> 'a process_scheme \<Rightarrow> ((Status \<times> rstr) + u64) \<times> 'a process_scheme" where
  "open_stream_on x a session_id st =
     (let r = arc_at st a; ep = endpoint r in
      case lock_get (sessions ep) of
        None \<Rightarrow> (Inl (Panic, ''session registry is poisoned''), st)
      | Some m \<Rightarrow>
          (case map_of m session_id of
             None \<Rightarrow> (Inl (UnknownHandle, ''no session '' @ u64_dec session_id), st)
           | Some connection \<Rightarrow>
               (case runtime ep of
                  None \<Rightarrow> (Inl (NotRunning, ''endpoint is stopping''), st)
                | Some _ \<Rightarrow>
                    let st1 = st\<lparr>trace := trace st @ [OpenBi connection]\<rparr> in
                    (case x_open_bi x (trace st) connection of
                       Inl e \<Rightarrow> (Inl (PeerGone, ''open stream: '' @ e), st1)
                     | Inr o' \<Rightarrow>
                         let st2 = st1\<lparr>trace := trace st1 @ [AwaitBi o']\<rparr> in
                         (case x_await_bi x (trace st1) o' of
                            Inl e \<Rightarrow> (Inl (PeerGone, ''open stream: '' @ e), st2)
                          | Inr (snd_half, rcv_half) \<Rightarrow>
                              let stream_id = x_stream_id x snd_half;
                                  ep' = (case lock_get (streams ep) of
                                           None \<Rightarrow> ep
                                         | Some t \<Rightarrow> ep\<lparr>streams := lock_set
                                             (AList.update (session_id, stream_id) snd_half t) (streams ep)\<rparr>)
                              in (Inr stream_id,
                                  set_arc a (r\<lparr>endpoint := ep',
                                    tasks := tasks r @ [ReadBi session_id stream_id rcv_half]\<rparr>) st2))))))"

definition open_stream ::
  "external \<Rightarrow> u64 \<Rightarrow> u64 \<Rightarrow> 'a process_scheme \<Rightarrow> ((Status \<times> rstr) + u64) \<times> 'a process_scheme" where
  "open_stream x handle session_id st =
     (case lookup handle st of
        (None, st1) \<Rightarrow> (Inl (UnknownHandle, ''no such endpoint''), st1)
      | (Some a, st1) \<Rightarrow>
          (case open_stream_on x a session_id st1 of
             (result, st2) \<Rightarrow> (result, arc_drop a st2)))"

end
