(* ===== verification/RkRegistry.thy ===== *)
theory RkRegistry
  imports RkTransport
begin

text \<open>
  Ownership of endpoints: the registry holds one counted reference per handle, every call in
  flight holds one more, and an endpoint is freed exactly when the last one goes. The invariant
  \<open>arcs_wf\<close> states this for any collection \<open>held\<close> of references that calls hold, so it also
  speaks of calls that overlap.
\<close>

section \<open>The invariant\<close>

definition reg :: "'a process_scheme \<Rightarrow> u64 \<Rightarrow> nat option" where
  "reg st = map_of (guarded (registry st))"

definition ep_wf :: "Endpoint \<Rightarrow> bool" where
  "ep_wf ep \<longleftrightarrow> runtime ep \<noteq> None \<and> \<not> poisoned (events ep) \<and> \<not> poisoned (sessions ep) \<and>
     \<not> poisoned (streams ep) \<and> channel_live (guarded (events ep)) \<and>
     0 < senders (guarded (events ep)) \<and> depth (guarded (events ep)) = EVENT_QUEUE_DEPTH \<and>
     length (buf (guarded (events ep))) \<le> EVENT_QUEUE_DEPTH"

definition refs :: "'a process_scheme \<Rightarrow> nat list \<Rightarrow> nat \<Rightarrow> nat" where
  "refs st held a = (if \<exists>h. reg st h = Some a then 1 else 0) + count_list held a"

definition arcs_wf :: "nat list \<Rightarrow> 'a process_scheme \<Rightarrow> bool" where
  "arcs_wf held st \<longleftrightarrow>
     \<not> poisoned (registry st) \<and>
     (\<forall>h h' a. reg st h = Some a \<longrightarrow> reg st h' = Some a \<longrightarrow> h' = h) \<and>
     (\<forall>a. map_of (arcs st) a = None \<longrightarrow> refs st held a = 0) \<and>
     (\<forall>a r. map_of (arcs st) a = Some r \<longrightarrow>
        strong r = refs st held a \<and> 0 < refs st held a \<and> ep_wf (endpoint r) \<and> a < next_arc st)"

lemma arcs_wfD:
  assumes "arcs_wf held st"
  shows "\<not> poisoned (registry st)"
    and "reg st h = Some a \<Longrightarrow> reg st h' = Some a \<Longrightarrow> h' = h"
    and "map_of (arcs st) a = Some r \<Longrightarrow>
           strong r = refs st held a \<and> 0 < refs st held a \<and> ep_wf (endpoint r) \<and> a < next_arc st"
    and "map_of (arcs st) a = None \<Longrightarrow> refs st held a = 0"
  using assms unfolding arcs_wf_def by blast+

lemma refs_pos_arc:
  "arcs_wf held st \<Longrightarrow> 0 < refs st held a \<Longrightarrow> map_of (arcs st) a = Some (arc_at st a)"
  using arcs_wfD(4) [of held st a] by (cases "map_of (arcs st) a") (auto simp: arc_at_def)

lemma held_arc: "arcs_wf held st \<Longrightarrow> a \<in> set held \<Longrightarrow> map_of (arcs st) a = Some (arc_at st a)"
  by (rule refs_pos_arc) (auto simp: refs_def count_list_0_iff intro: gr0I)

lemma registered_arc:
  "arcs_wf held st \<Longrightarrow> reg st h = Some a \<Longrightarrow> map_of (arcs st) a = Some (arc_at st a)"
  by (rule refs_pos_arc) (auto simp: refs_def)

lemma lock_registry: "arcs_wf held st \<Longrightarrow> lock_get (registry st) = Some (guarded (registry st))"
  by (rule lock_get_healthy) (rule arcs_wfD(1))

section \<open>What the reference operations leave alone\<close>

lemma set_arc_frame [simp]:
  "registry (set_arc a r st) = registry st" "next_arc (set_arc a r st) = next_arc st"
  "trace (set_arc a r st) = trace st" "handle_counter (set_arc a r st) = handle_counter st"
  "last_error (set_arc a r st) = last_error st" "heap (set_arc a r st) = heap st"
  "next_ptr (set_arc a r st) = next_ptr st" "cells_u64 (set_arc a r st) = cells_u64 st"
  "cells_u16 (set_arc a r st) = cells_u16 st" "cells_ptr (set_arc a r st) = cells_ptr st"
  "map_of (arcs (set_arc a r st)) = (map_of (arcs st))(a \<mapsto> r)"
  by (simp_all add: set_arc_def update_conv')

lemma arc_at_set [simp]: "arc_at (set_arc a r st) b = (if b = a then r else arc_at st b)"
  by (simp add: arc_at_def)

lemma reg_set_arc [simp]: "reg (set_arc a r st) = reg st"
  by (simp add: reg_def)

lemma refs_set_arc [simp]: "refs (set_arc a r st) held b = refs st held b"
  by (simp add: refs_def)

lemma arc_clone_frame [simp]:
  "registry (arc_clone a st) = registry st" "trace (arc_clone a st) = trace st"
  "last_error (arc_clone a st) = last_error st" "heap (arc_clone a st) = heap st"
  "next_ptr (arc_clone a st) = next_ptr st" "cells_u64 (arc_clone a st) = cells_u64 st"
  "cells_u16 (arc_clone a st) = cells_u16 st" "cells_ptr (arc_clone a st) = cells_ptr st"
  "endpoint (arc_at (arc_clone a st) b) = endpoint (arc_at st b)"
  by (simp_all add: arc_clone_def)

lemma arc_drop_frame [simp]:
  "registry (arc_drop a st) = registry st" "last_error (arc_drop a st) = last_error st"
  "heap (arc_drop a st) = heap st" "next_ptr (arc_drop a st) = next_ptr st"
  "cells_u64 (arc_drop a st) = cells_u64 st" "cells_u16 (arc_drop a st) = cells_u16 st"
  "cells_ptr (arc_drop a st) = cells_ptr st" "next_arc (arc_drop a st) = next_arc st"
  by (simp_all add: arc_drop_def Let_def)

lemma reg_arc_drop [simp]: "reg (arc_drop a st) = reg st"
  by (simp add: reg_def)

lemma ffi_frame_wf:
  "heap st' = heap st \<Longrightarrow> next_ptr st' = next_ptr st \<Longrightarrow> ffi_wf st' = ffi_wf st"
  by (simp add: ffi_wf_def)

lemma ffi_wf_arcs [simp]:
  "ffi_wf (arc_drop a st) = ffi_wf st" "ffi_wf (arc_clone a st) = ffi_wf st"
  "ffi_wf (set_arc a r st) = ffi_wf st"
  by (rule ffi_frame_wf; simp)+

lemma arcs_wf_frame:
  "registry st' = registry st \<Longrightarrow> arcs st' = arcs st \<Longrightarrow> next_arc st' = next_arc st \<Longrightarrow>
     arcs_wf held st' = arcs_wf held st"
  unfolding arcs_wf_def refs_def reg_def by simp

section \<open>Preservation\<close>

text \<open>Replacing an entry by one with the count it should have.\<close>

lemma arcs_wf_set_arc:
  assumes wf: "arcs_wf held st" and "map_of (arcs st) a = Some r0"
    and other: "\<And>b. b \<noteq> a \<Longrightarrow> count_list held' b = count_list held b"
    and "strong r = refs st held' a" "0 < strong r" "ep_wf (endpoint r)"
  shows "arcs_wf held' (set_arc a r st)"
proof -
  have "refs st held' b = refs st held b" if "b \<noteq> a" for b
    using other [OF that] by (simp add: refs_def)
  with assms arcs_wfD(3) [OF wf assms(2)] show ?thesis
    unfolding arcs_wf_def by auto
qed

lemma arcs_wf_set_endpoint:
  assumes "arcs_wf held st" "a \<in> set held" "ep_wf ep"
  shows "arcs_wf held (set_endpoint a ep st)"
  using arcs_wf_set_arc [OF assms(1) held_arc [OF assms(1,2)], of held] assms(3)
    arcs_wfD(3) [OF assms(1) held_arc [OF assms(1,2)]]
  by (simp add: set_endpoint_def)

lemma arc_clone_wf:
  assumes "arcs_wf held st" "reg st h = Some a"
  shows "arcs_wf (a # held) (arc_clone a st)"
proof -
  note r = registered_arc [OF assms]
  show ?thesis
    unfolding arc_clone_def
    using arcs_wfD(3) [OF assms(1) r]
    by (intro arcs_wf_set_arc [OF assms(1) r]) (auto simp: refs_def)
qed

lemma lookup_wf:
  assumes "arcs_wf held st" "lookup h st = (Some a, st')"
  shows "arcs_wf (a # held) st' \<and> reg st h = Some a \<and> st' = arc_clone a st"
  using assms arc_clone_wf [OF assms(1), of h a]
  by (auto simp: lookup_def reg_def lock_registry split: option.splits)

lemma lookup_None:
  "arcs_wf held st \<Longrightarrow> lookup h st = (None, st') \<longleftrightarrow> reg st h = None \<and> st' = st"
  by (auto simp: lookup_def reg_def lock_registry split: option.splits)

lemma arc_drop_wf:
  assumes wf: "arcs_wf (a # held) st"
  shows "arcs_wf held (arc_drop a st)"
proof -
  let ?r = "arc_at st a"
  have r: "map_of (arcs st) a = Some ?r" by (rule held_arc [OF wf]) simp
  note st = arcs_wfD(3) [OF wf r]
  show ?thesis
  proof (cases "strong ?r \<le> 1")
    case True
    let ?st = "st\<lparr>arcs := AList.delete a (arcs st), trace := drop_endpoint (endpoint ?r) (trace st)\<rparr>"
    have drop: "arc_drop a st = ?st" using True by (simp add: arc_drop_def Let_def)
    have reg: "reg ?st = reg st" by (simp add: reg_def)
    have "refs ?st held a = 0" using True st by (auto simp: refs_def reg)
    moreover have "refs ?st held b = refs st (a # held) b" if "b \<noteq> a" for b
      using that by (simp add: refs_def reg)
    ultimately show ?thesis
      using wf by (auto simp: drop arcs_wf_def tab.find_drop reg split: if_splits)
  next
    case False
    then have "arc_drop a st = set_arc a (?r\<lparr>strong := strong ?r - 1\<rparr>) st"
      by (simp add: arc_drop_def Let_def)
    moreover have "arcs_wf held (set_arc a (?r\<lparr>strong := strong ?r - 1\<rparr>) st)"
      using False st by (intro arcs_wf_set_arc [OF wf r]) (auto simp: refs_def)
    ultimately show ?thesis by simp
  qed
qed

text \<open>Taking an entry out of the registry hands its reference to the caller.\<close>

lemma unregister_wf:
  assumes wf: "arcs_wf held st" and a: "reg st h = Some a"
  shows "arcs_wf (a # held)
    (st\<lparr>registry := lock_set (AList.delete h (guarded (registry st))) (registry st)\<rparr>)"
    (is "arcs_wf _ ?st")
proof -
  have reg': "reg ?st k = (if k = h then None else reg st k)" for k
    by (simp add: reg_def tab.find_drop)
  have gone: "\<not> (\<exists>k. reg ?st k = Some a)"
    using arcs_wfD(2) [OF wf a] by (auto simp: reg')
  have refs: "refs ?st (a # held) b = refs st held b" for b
  proof (cases "b = a")
    case True
    with gone a show ?thesis by (auto simp: refs_def)
  next
    case False
    with a have "(\<exists>k. reg ?st k = Some b) = (\<exists>k. reg st k = Some b)"
      by (simp add: reg') (metis option.inject)
    with False show ?thesis by (simp add: refs_def)
  qed
  from wf show ?thesis
    unfolding arcs_wf_def refs by (auto simp: reg' split: option.splits)
qed

lemma remove_wf:
  assumes wf: "arcs_wf held st"
  shows "arcs_wf held (snd (remove h st))"
proof (cases "reg st h")
  case None
  then have "map_of (guarded (registry st)) h = None" by (simp add: reg_def)
  then have "AList.delete h (guarded (registry st)) = guarded (registry st)"
    by (simp add: delete_idem map_of_eq_None_iff)
  with None wf arcs_wf_frame [of "st\<lparr>registry := registry st\<rparr>" st held] show ?thesis
    by (simp add: remove_def lock_registry [OF wf] Let_def reg_def lock_set_def)
next
  case (Some a)
  with arc_drop_wf [OF unregister_wf [OF wf Some]] show ?thesis
    by (simp add: remove_def lock_registry [OF wf] Let_def reg_def)
qed

text \<open>
  A new entry under a handle that may have named another endpoint: that endpoint's reference
  is then the caller's to drop.
\<close>

lemma arcs_wf_new_entry:
  assumes wf: "arcs_wf held st" and r: "strong r = 1" "ep_wf (endpoint r)"
    and arcs': "map_of (arcs st') = (map_of (arcs st))(next_arc st \<mapsto> r)"
    and next': "next_arc st' = Suc (next_arc st)" and healthy: "\<not> poisoned (registry st')"
    and reg': "reg st' = (reg st)(h \<mapsto> next_arc st)"
  shows "arcs_wf (case reg st h of None \<Rightarrow> held | Some old \<Rightarrow> old # held) st'" (is "arcs_wf ?held st'")
proof -
  let ?a = "next_arc st"
  have fresh: "map_of (arcs st) ?a = None"
    using arcs_wfD(3) [OF wf, of ?a] by (cases "map_of (arcs st) ?a") auto
  then have none: "refs st held ?a = 0" by (rule arcs_wfD(4) [OF wf])
  then have new: "reg st k \<noteq> Some ?a" for k by (auto simp: refs_def split: if_splits)
  have cnt: "count_list held ?a = 0" using none by (simp add: refs_def)
  have inj: "reg st k = Some b \<Longrightarrow> reg st k' = Some b \<Longrightarrow> k' = k" for k k' b
    by (rule arcs_wfD(2) [OF wf])
  have inj': "reg st' k = Some b \<Longrightarrow> reg st' k' = Some b \<Longrightarrow> k' = k" for k k' b
    using inj new by (auto simp: reg' split: if_splits)
  have refs': "refs st' ?held b = (if b = ?a then 1 else refs st held b)" for b
  proof (cases "b = ?a")
    case True
    with new cnt show ?thesis by (auto simp: refs_def reg' split: option.splits)
  next
    case ne: False
    show ?thesis
    proof (cases "reg st h = Some b")
      case True
      then have "\<not> (\<exists>k. reg st' k = Some b)" using ne
        by (auto simp: reg' dest: inj [OF True] split: if_splits)
      with True ne show ?thesis by (auto simp: refs_def)
    next
      case False
      then have "reg st' k = Some b \<longleftrightarrow> reg st k = Some b" for k
        using ne by (simp add: reg')
      with False ne show ?thesis by (simp add: refs_def split: option.splits)
    qed
  qed
  have "map_of (arcs st') b = None \<Longrightarrow> refs st' ?held b = 0" for b
    using arcs_wfD(4) [OF wf] by (auto simp: arcs' refs' split: if_splits)
  moreover have "map_of (arcs st') b = Some q \<Longrightarrow>
      strong q = refs st' ?held b \<and> 0 < refs st' ?held b \<and> ep_wf (endpoint q) \<and> b < next_arc st'"
    for b q
    using arcs_wfD(3) [OF wf, of b q] r by (auto simp: arcs' refs' next' split: if_splits)
  ultimately show ?thesis using healthy inj' unfolding arcs_wf_def by blast
qed

lemma register_wf:
  assumes wf: "arcs_wf held st" and r: "strong r = 1" "ep_wf (endpoint r)"
  shows "arcs_wf held (snd (register h r st)) \<and> fst (register h r st) = Inr ()"
proof -
  let ?m = "guarded (registry st)" and ?a = "next_arc st"
  let ?st = "st\<lparr>arcs := AList.update ?a r (arcs st), next_arc := Suc ?a,
                registry := lock_set (AList.update h ?a ?m) (registry st)\<rparr>"
  have "arcs_wf (case reg st h of None \<Rightarrow> held | Some old \<Rightarrow> old # held) ?st"
    using arcs_wfD(1) [OF wf]
    by (intro arcs_wf_new_entry [OF wf r]) (simp_all add: update_conv' reg_def)
  with arc_drop_wf [of _ held ?st] show ?thesis
    by (simp add: register_def lock_registry [OF wf] arc_new_def reg_def Let_def
        split: option.splits)
qed

end
