(* ===== verification/RkEntry.thy ===== *)
theory RkEntry
  imports RkRegistry
begin

text \<open>
  The entry points of the C ABI (\<open>rust/src/server_ffi.rs\<close>, \<open>rust/src/client_ffi.rs\<close>): each is
  a function of the calling thread, its arguments and the process, and returns the status name
  with the process after the call. Every body runs inside \<open>guard\<close>.
\<close>

section \<open>Server entry points\<close>

definition msg_config_null :: rstr where
  "msg_config_null = ''configJson is null or not UTF-8''"

definition msg_config_shape :: "rstr \<Rightarrow> rstr" where
  "msg_config_shape e = ''configJson is not the expected shape: '' @ e"

definition msg_payload_null :: rstr where
  "msg_payload_null = ''payloadUtf8 is null or not UTF-8''"

definition rk_quic_server_start ::
  "external \<Rightarrow> thread \<Rightarrow> string option \<Rightarrow> ptr \<Rightarrow> process \<Rightarrow> string \<times> process" where
  "rk_quic_server_start x t config_json out_handle st =
     guard
       (let st0 = clear_last_error t st in
        case borrow_c_string config_json of
          None \<Rightarrow> (Returned InvalidArgument, set_last_error t msg_config_null st0)
        | Some json \<Rightarrow>
            (case x_server_config_from_str x json of
               Inl e \<Rightarrow> (Returned InvalidArgument, set_last_error t (msg_config_shape e) st0)
             | Inr config \<Rightarrow>
                 (case config_parse (x_certs x) (x_private_key x) config of
                    Inl (status, message) \<Rightarrow> (Returned status, set_last_error t message st0)
                  | Inr parsed \<Rightarrow>
                      (case start x parsed st0 of
                         (Inr handle, st1) \<Rightarrow>
                           (Returned StatusOk,
                            st1\<lparr>cells_u64 := write_out out_handle handle (cells_u64 st1)\<rparr>)
                       | (Inl (status, message), st1) \<Rightarrow>
                           (Returned status, set_last_error t message st1)))))"

definition rk_quic_server_stop ::
  "thread \<Rightarrow> u64 \<Rightarrow> process \<Rightarrow> string \<times> process" where
  "rk_quic_server_stop t handle st =
     guard (case remove handle (clear_last_error t st) of (status, st1) \<Rightarrow> (Returned status, st1))"

definition rk_quic_server_local_port ::
  "thread \<Rightarrow> u64 \<Rightarrow> ptr \<Rightarrow> process \<Rightarrow> string \<times> process" where
  "rk_quic_server_local_port t handle out_port st =
     guard
       (case lookup handle (clear_last_error t st) of
          (Some a, st1) \<Rightarrow>
            (Returned StatusOk,
             arc_drop a (st1\<lparr>cells_u16 :=
               write_out out_port (local_port (endpoint (arc_at st1 a))) (cells_u16 st1)\<rparr>))
        | (None, st1) \<Rightarrow> (Returned UnknownHandle, st1))"

definition poll_timeout :: "u32 \<Rightarrow> Duration" where
  "poll_timeout timeout_ms = from_millis (ucast (min timeout_ms 60000))"

definition rk_quic_server_poll ::
  "external \<Rightarrow> thread \<Rightarrow> u64 \<Rightarrow> u32 \<Rightarrow> ptr \<Rightarrow> (nat \<times> Event) option \<Rightarrow> process \<Rightarrow>
   string \<times> process" where
  "rk_quic_server_poll x t handle timeout_ms out_json arrival st =
     guard
       (let st0 = clear_last_error t st;
            st1 = st0\<lparr>cells_ptr := write_out out_json 0 (cells_ptr st0)\<rparr> in
        case lookup handle st1 of
          (None, st2) \<Rightarrow> (Returned UnknownHandle, st2)
        | (Some a, st2) \<Rightarrow>
            (case next_event (poll_timeout timeout_ms) arrival (endpoint (arc_at st2 a)) of
               (None, _, ep) \<Rightarrow> (Returned WouldBlock, arc_drop a (set_endpoint a ep st2))
             | (Some event, _, ep) \<Rightarrow>
                 let st3 = set_endpoint a ep st2 in
                 (case x_json_to_string x (event_object event) of
                    Inr json \<Rightarrow>
                      (case into_owned_c_string json st3 of
                         (p, st4) \<Rightarrow>
                           (Returned StatusOk,
                            arc_drop a (st4\<lparr>cells_ptr := write_out out_json p (cells_ptr st4)\<rparr>)))
                  | Inl e \<Rightarrow>
                      (Returned Panic,
                       arc_drop a (set_last_error t (''event could not be serialised: '' @ e) st3)))))"

definition answer :: "Status + unit \<Rightarrow> Status" where
  "answer r = (case r of Inr _ \<Rightarrow> StatusOk | Inl status \<Rightarrow> status)"

definition rk_quic_session_send ::
  "external \<Rightarrow> thread \<Rightarrow> u64 \<Rightarrow> u64 \<Rightarrow> string option \<Rightarrow> u8 \<Rightarrow> process \<Rightarrow> string \<times> process" where
  "rk_quic_session_send x t handle session_id payload_utf8 reliable st =
     guard
       (let st0 = clear_last_error t st in
        case borrow_c_string payload_utf8 of
          None \<Rightarrow> (Returned InvalidArgument, set_last_error t msg_payload_null st0)
        | Some payload \<Rightarrow>
            (case lookup handle st0 of
               (None, st1) \<Rightarrow> (Returned UnknownHandle, st1)
             | (Some a, st1) \<Rightarrow>
                 (case send x (endpoint (arc_at st1 a)) session_id payload (reliable \<noteq> 0) (trace st1) of
                    (r, tr) \<Rightarrow> (Returned (answer r), arc_drop a (st1\<lparr>trace := tr\<rparr>)))))"

definition rk_quic_stream_send ::
  "external \<Rightarrow> thread \<Rightarrow> u64 \<Rightarrow> u64 \<Rightarrow> u64 \<Rightarrow> string option \<Rightarrow> process \<Rightarrow> string \<times> process" where
  "rk_quic_stream_send x t handle session_id stream_id payload_utf8 st =
     guard
       (let st0 = clear_last_error t st in
        case borrow_c_string payload_utf8 of
          None \<Rightarrow> (Returned InvalidArgument, set_last_error t msg_payload_null st0)
        | Some payload \<Rightarrow>
            (case lookup handle st0 of
               (None, st1) \<Rightarrow> (Returned UnknownHandle, st1)
             | (Some a, st1) \<Rightarrow>
                 (case stream_send x (endpoint (arc_at st1 a)) session_id stream_id payload (trace st1) of
                    (r, tr) \<Rightarrow> (Returned (answer r), arc_drop a (st1\<lparr>trace := tr\<rparr>)))))"

definition rk_quic_stream_close ::
  "external \<Rightarrow> thread \<Rightarrow> u64 \<Rightarrow> u64 \<Rightarrow> u64 \<Rightarrow> process \<Rightarrow> string \<times> process" where
  "rk_quic_stream_close x t handle session_id stream_id st =
     guard
       (case lookup handle (clear_last_error t st) of
          (None, st1) \<Rightarrow> (Returned UnknownHandle, st1)
        | (Some a, st1) \<Rightarrow>
            (case stream_close x (endpoint (arc_at st1 a)) session_id stream_id (trace st1) of
               (r, ep, tr) \<Rightarrow>
                 (Returned (answer r), arc_drop a (set_endpoint a ep (st1\<lparr>trace := tr\<rparr>)))))"

section \<open>Client entry points\<close>

definition rk_quic_client_connect ::
  "external \<Rightarrow> thread \<Rightarrow> string option \<Rightarrow> ptr \<Rightarrow> ptr \<Rightarrow> process \<Rightarrow> string \<times> process" where
  "rk_quic_client_connect x t config_json out_handle out_session st =
     guard
       (let st0 = clear_last_error t st in
        case borrow_c_string config_json of
          None \<Rightarrow> (Returned InvalidArgument, set_last_error t msg_config_null st0)
        | Some json \<Rightarrow>
            (case x_client_config_from_str x json of
               Inl e \<Rightarrow> (Returned InvalidArgument, set_last_error t (msg_config_shape e) st0)
             | Inr config \<Rightarrow>
                 (case client_config_parse (x_debug_str x) config of
                    Panicked \<Rightarrow> (Panicked, st0)
                  | Returned (Inl (status, message)) \<Rightarrow>
                      (Returned status, set_last_error t message st0)
                  | Returned (Inr parsed) \<Rightarrow>
                      (case connect x parsed st0 of
                         (Inr (handle, session_id), st1) \<Rightarrow>
                           (Returned StatusOk,
                            st1\<lparr>cells_u64 := write_out out_session session_id
                              (write_out out_handle handle (cells_u64 st1))\<rparr>)
                       | (Inl (status, message), st1) \<Rightarrow>
                           (Returned status, set_last_error t message st1)))))"

definition rk_quic_client_open_stream ::
  "external \<Rightarrow> thread \<Rightarrow> u64 \<Rightarrow> u64 \<Rightarrow> ptr \<Rightarrow> process \<Rightarrow> string \<times> process" where
  "rk_quic_client_open_stream x t handle session_id out_stream st =
     guard
       (case open_stream x handle session_id (clear_last_error t st) of
          (Inr stream_id, st1) \<Rightarrow>
            (Returned StatusOk,
             st1\<lparr>cells_u64 := write_out out_stream stream_id (cells_u64 st1)\<rparr>)
        | (Inl (status, message), st1) \<Rightarrow> (Returned status, set_last_error t message st1))"

section \<open>All calls\<close>

datatype api_call =
    ServerStart "string option" ptr
  | ServerStop u64
  | ServerLocalPort u64 ptr
  | ServerPoll u64 u32 ptr "(nat \<times> Event) option"
  | SessionSend u64 u64 "string option" u8
  | StreamSend u64 u64 u64 "string option"
  | StreamClose u64 u64 u64
  | ClientConnect "string option" ptr ptr
  | ClientOpenStream u64 u64 ptr

fun api :: "external \<Rightarrow> thread \<Rightarrow> api_call \<Rightarrow> process \<Rightarrow> string \<times> process" where
  "api x t (ServerStart json out) st = rk_quic_server_start x t json out st"
| "api x t (ServerStop h) st = rk_quic_server_stop t h st"
| "api x t (ServerLocalPort h out) st = rk_quic_server_local_port t h out st"
| "api x t (ServerPoll h ms out arrival) st = rk_quic_server_poll x t h ms out arrival st"
| "api x t (SessionSend h sid payload reliable) st =
     rk_quic_session_send x t h sid payload reliable st"
| "api x t (StreamSend h sid stream payload) st = rk_quic_stream_send x t h sid stream payload st"
| "api x t (StreamClose h sid stream) st = rk_quic_stream_close x t h sid stream st"
| "api x t (ClientConnect json out_h out_s) st = rk_quic_client_connect x t json out_h out_s st"
| "api x t (ClientOpenStream h sid out) st = rk_quic_client_open_stream x t h sid out st"

section \<open>What the transport leaves alone of the boundary\<close>

lemma boundary_arcs [simp]:
  "ffi_state.truncate (arc_drop a st) = ffi_state.truncate st"
  "ffi_state.truncate (arc_clone a st) = ffi_state.truncate st"
  "ffi_state.truncate (set_arc a r st) = ffi_state.truncate st"
  "ffi_state.truncate (set_endpoint a ep st) = ffi_state.truncate st"
  by (simp_all add: ffi_state.truncate_def set_endpoint_def)

lemma boundary_updates [simp]:
  "ffi_state.truncate (st\<lparr>trace := tr\<rparr>) = ffi_state.truncate st"
  "ffi_state.truncate (st\<lparr>registry := rg\<rparr>) = ffi_state.truncate st"
  "ffi_state.truncate (st\<lparr>arcs := as\<rparr>) = ffi_state.truncate st"
  "ffi_state.truncate (st\<lparr>next_arc := n\<rparr>) = ffi_state.truncate st"
  "ffi_state.truncate (st\<lparr>handle_counter := h\<rparr>) = ffi_state.truncate st"
  for st :: "'a process_scheme"
  by (simp_all add: ffi_state.truncate_def)

lemma boundary_lookup: "lookup h st = (r, st') \<Longrightarrow> ffi_state.truncate st' = ffi_state.truncate st"
  by (auto simp: lookup_def split: option.splits)

lemma boundary_remove: "remove h st = (r, st') \<Longrightarrow> ffi_state.truncate st' = ffi_state.truncate st"
  by (auto simp: remove_def Let_def split: option.splits)

lemma boundary_register:
  "register h r st = (res, st') \<Longrightarrow> ffi_state.truncate st' = ffi_state.truncate st"
  by (auto simp: register_def arc_new_def Let_def split: option.splits)

lemma boundary_start: "start x c st = (r, st') \<Longrightarrow> ffi_state.truncate st' = ffi_state.truncate st"
  by (auto simp: start_def next_handle_def Let_def split: sum.splits prod.splits if_splits
      dest!: boundary_register)

lemma boundary_connect:
  "connect x c st = (r, st') \<Longrightarrow> ffi_state.truncate st' = ffi_state.truncate st"
  by (auto simp: connect_def next_handle_def Let_def split: sum.splits prod.splits if_splits
      dest!: boundary_register)

lemma boundary_open_stream_on:
  "open_stream_on x a sid st = (r, st') \<Longrightarrow> ffi_state.truncate st' = ffi_state.truncate st"
  by (auto simp: open_stream_on_def Let_def split: sum.splits prod.splits option.splits)

lemma boundary_open_stream:
  "open_stream x h sid st = (r, st') \<Longrightarrow> ffi_state.truncate st' = ffi_state.truncate st"
  by (auto simp: open_stream_def split: option.splits prod.splits
      dest!: boundary_lookup boundary_open_stream_on)

section \<open>The contract of the boundary\<close>

definition core :: "'a ffi_state_scheme \<Rightarrow> (thread \<Rightarrow> rstr option) \<times> (ptr, string) table \<times> ptr" where
  "core st = (last_error st, heap st, next_ptr st)"

definition quiet :: "thread \<Rightarrow> 'a ffi_state_scheme \<Rightarrow> 'b ffi_state_scheme \<Rightarrow> bool" where
  "quiet t st st' \<longleftrightarrow>
     (\<forall>t'. t' \<noteq> t \<longrightarrow> last_error st' t' = last_error st t') \<and>
     (ffi_wf st \<longrightarrow> ffi_wf st' \<and>
        (\<forall>p m. map_of (heap st) p = Some m \<longrightarrow> map_of (heap st') p = Some m))"

lemma boundary_core: "ffi_state.truncate a = ffi_state.truncate b \<Longrightarrow> core a = core b"
  by (simp add: ffi_state.truncate_def core_def)

lemma core_updates [simp]:
  "core (st\<lparr>cells_u64 := a\<rparr>) = core st" "core (st\<lparr>cells_u16 := b\<rparr>) = core st"
  "core (st\<lparr>cells_ptr := c\<rparr>) = core st"
  by (simp_all add: core_def)

lemma quiet_core: "core st' = core (clear_last_error t st) \<Longrightarrow> quiet t st st'"
  by (auto simp: quiet_def core_def ffi_wf_def)

lemma quiet_core_cong: "core a = core b \<Longrightarrow> quiet t st a = quiet t st b"
  by (simp add: quiet_def core_def ffi_wf_def)

lemma quiet_clear [simp]: "quiet t st (clear_last_error t st)"
  by (rule quiet_core) simp

lemma quiet_set_error [simp]: "quiet t st (set_last_error t m st') = quiet t st st'"
  by (auto simp: quiet_def)

lemma quiet_updates [simp]:
  "quiet t st (st'\<lparr>cells_u64 := a\<rparr>) = quiet t st st'"
  "quiet t st (st'\<lparr>cells_u16 := b\<rparr>) = quiet t st st'"
  "quiet t st (st'\<lparr>cells_ptr := c\<rparr>) = quiet t st st'"
  by (rule quiet_core_cong, simp)+

lemma quiet_process [simp]:
  "quiet t st (arc_drop a st') = quiet t st st'" "quiet t st (set_endpoint a ep st') = quiet t st st'"
  "quiet t st (st'\<lparr>trace := tr\<rparr>) = quiet t st st'"
  by (rule quiet_core_cong, rule boundary_core, simp)+

lemma quiet_into_owned: "quiet t st st' \<Longrightarrow> into_owned_c_string v st' = (p, st'') \<Longrightarrow> quiet t st st''"
  using ffi_wf_into_owned [of st' v] ffi_wf_fresh [of st']
  by (auto simp: quiet_def into_owned_c_string_def Let_def tab.find_put)

lemmas core_steps =
  boundary_lookup [THEN boundary_core] boundary_remove [THEN boundary_core]
  boundary_start [THEN boundary_core] boundary_connect [THEN boundary_core]
  boundary_open_stream [THEN boundary_core]

lemma quiet_start: "quiet t st (snd (rk_quic_server_start x t j out st))"
  by (auto simp: rk_quic_server_start_def Let_def dest!: core_steps intro: quiet_core
      split: option.splits sum.splits prod.splits)

lemma quiet_stop: "quiet t st (snd (rk_quic_server_stop t h st))"
  by (auto simp: rk_quic_server_stop_def dest!: core_steps intro: quiet_core split: prod.splits)

lemma quiet_local_port: "quiet t st (snd (rk_quic_server_local_port t h out st))"
  by (auto simp: rk_quic_server_local_port_def dest!: core_steps intro: quiet_core
      split: prod.splits option.splits)

lemma quiet_poll: "quiet t st (snd (rk_quic_server_poll x t h ms out arrival st))"
  by (auto simp: rk_quic_server_poll_def Let_def dest!: core_steps
      intro: quiet_core quiet_into_owned split: prod.splits option.splits sum.splits)
    (rule quiet_into_owned [rotated], assumption, simp add: quiet_core)+

lemma quiet_session_send: "quiet t st (snd (rk_quic_session_send x t h sid p r st))"
  by (auto simp: rk_quic_session_send_def Let_def dest!: core_steps intro: quiet_core
      split: prod.splits option.splits)

lemma quiet_stream_send: "quiet t st (snd (rk_quic_stream_send x t h sid s p st))"
  by (auto simp: rk_quic_stream_send_def Let_def dest!: core_steps intro: quiet_core
      split: prod.splits option.splits)

lemma quiet_stream_close: "quiet t st (snd (rk_quic_stream_close x t h sid s st))"
  by (auto simp: rk_quic_stream_close_def Let_def dest!: core_steps intro: quiet_core
      split: prod.splits option.splits)

lemma quiet_client_connect: "quiet t st (snd (rk_quic_client_connect x t j oh os st))"
  by (auto simp: rk_quic_client_connect_def Let_def dest!: core_steps intro: quiet_core
      split: option.splits sum.splits prod.splits outcome.splits)

lemma quiet_client_open_stream: "quiet t st (snd (rk_quic_client_open_stream x t h sid out st))"
  by (auto simp: rk_quic_client_open_stream_def dest!: core_steps intro: quiet_core
      split: sum.splits prod.splits)

lemmas quiet_entries =
  quiet_start quiet_stop quiet_local_port quiet_poll quiet_session_send quiet_stream_send
  quiet_stream_close quiet_client_connect quiet_client_open_stream

lemma quiet_api: "quiet t st (snd (api x t c st))"
  by (cases c) (simp_all add: quiet_entries)

lemma api_status: "\<exists>s. fst (api x t c st) = as_c_str s"
  by (cases c) (simp_all add: guard_name rk_quic_server_start_def rk_quic_server_stop_def
      rk_quic_server_local_port_def rk_quic_server_poll_def rk_quic_session_send_def
      rk_quic_stream_send_def rk_quic_stream_close_def rk_quic_client_connect_def
      rk_quic_client_open_stream_def)

interpretation api: ffi_entry "api x" for x
proof
  fix st :: process
  show "\<exists>s. fst (api x t c st) = as_c_str s" for t c by (rule api_status)
  show "t' \<noteq> t \<Longrightarrow> last_error (snd (api x t c st)) t' = last_error st t'" for t t' c
    using quiet_api [of t st x c] by (simp add: quiet_def)
  show "ffi_wf st \<Longrightarrow> map_of (heap st) p = Some m \<Longrightarrow> map_of (heap (snd (api x t c st))) p = Some m"
    for p m t c
    using quiet_api [of t st x c] by (simp add: quiet_def)
  show "ffi_wf st \<Longrightarrow> ffi_wf (snd (api x t c st))" for t c
    using quiet_api [of t st x c] by (simp add: quiet_def)
qed

section \<open>Ownership across calls\<close>

lemma arcs_wf_updates [simp]:
  "arcs_wf held (st\<lparr>trace := tr\<rparr>) = arcs_wf held st"
  "arcs_wf held (st\<lparr>handle_counter := h\<rparr>) = arcs_wf held st"
  "arcs_wf held (st\<lparr>cells_u64 := a\<rparr>) = arcs_wf held st"
  "arcs_wf held (st\<lparr>cells_u16 := b\<rparr>) = arcs_wf held st"
  "arcs_wf held (st\<lparr>cells_ptr := c\<rparr>) = arcs_wf held st"
  for st :: "'a process_scheme"
  by (rule arcs_wf_frame; simp)+

lemma arcs_wf_boundary [simp]:
  "arcs_wf held (set_last_error t m st) = arcs_wf held st"
  "arcs_wf held (clear_last_error t st) = arcs_wf held st"
  "arcs_wf held (snd (into_owned_c_string v st)) = arcs_wf held st"
  by (rule arcs_wf_frame;
      simp add: set_last_error_def clear_last_error_def into_owned_c_string_def Let_def)+

lemma into_owned_arcs_wf:
  "into_owned_c_string v st = (p, st') \<Longrightarrow> arcs_wf held st' = arcs_wf held st"
  using arcs_wf_boundary(3) [of held v st] by simp

lemma ep_wf_live [simp]: "ep_wf (live_endpoint rt port)"
  by (simp add: ep_wf_def live_endpoint_def sync_channel_def channel_live_def)

lemma ep_wf_emit: "ep_wf ep \<Longrightarrow> ep_wf (emit_on e ep)"
  by (auto simp: ep_wf_def emit_on_def channel_live_def emit_buf)

lemma ep_wf_sessions: "ep_wf ep \<Longrightarrow> ep_wf (ep\<lparr>sessions := lock_set m (sessions ep)\<rparr>)"
  by (simp add: ep_wf_def)

lemma ep_wf_streams: "ep_wf ep \<Longrightarrow> ep_wf (ep\<lparr>streams := lock_set m (streams ep)\<rparr>)"
  by (simp add: ep_wf_def)

lemma next_event_wf: "ep_wf ep \<Longrightarrow> next_event d arrival ep = (r, w, ep') \<Longrightarrow> ep_wf ep'"
  by (auto simp: next_event_def ep_wf_def recv_timeout_def channel_live_def
      split: option.splits list.splits if_splits prod.splits)

lemma stream_close_wf: "ep_wf ep \<Longrightarrow> stream_close x ep sid s tr = (r, ep', tr') \<Longrightarrow> ep_wf ep'"
  by (auto simp: stream_close_def Let_def intro: ep_wf_streams
      split: option.splits sum.splits)

lemma register_arcs_wf:
  "arcs_wf held st \<Longrightarrow> strong r = 1 \<Longrightarrow> ep_wf (endpoint r) \<Longrightarrow> register h r st = (res, st') \<Longrightarrow>
     arcs_wf held st' \<and> res = Inr ()"
  using register_wf [of held st r h] by simp

lemma start_arcs_wf: "arcs_wf held st \<Longrightarrow> start x c st = (r, st') \<Longrightarrow> arcs_wf held st'"
  by (auto simp: start_def next_handle_def Let_def split: sum.splits prod.splits if_splits
      dest: register_arcs_wf [rotated 3])

lemma connect_arcs_wf: "arcs_wf held st \<Longrightarrow> connect x c st = (r, st') \<Longrightarrow> arcs_wf held st'"
  by (auto simp: connect_def next_handle_def Let_def ep_wf_emit ep_wf_sessions
      split: sum.splits prod.splits if_splits dest: register_arcs_wf [rotated 3])

lemma held_ep_wf: "arcs_wf (a # held) st \<Longrightarrow> ep_wf (endpoint (arc_at st a))"
  using held_arc [of "a # held" st a] arcs_wfD(3) by fastforce

lemma set_held_arc_wf:
  assumes "arcs_wf (a # held) st" "strong r = strong (arc_at st a)" "ep_wf (endpoint r)"
  shows "arcs_wf (a # held) (set_arc a r st)"
proof -
  have e: "map_of (arcs st) a = Some (arc_at st a)" using held_arc [OF assms(1), of a] by simp
  from arcs_wfD(3) [OF assms(1) e] assms(2,3) show ?thesis
    by (intro arcs_wf_set_arc [OF assms(1) e]) simp_all
qed

lemma set_held_endpoint_wf:
  "arcs_wf (a # held) st \<Longrightarrow> ep_wf ep \<Longrightarrow> arcs_wf (a # held) (set_endpoint a ep st)"
  by (simp add: set_endpoint_def set_held_arc_wf)

lemma open_stream_on_arcs_wf:
  assumes "arcs_wf (a # held) st" "open_stream_on x a sid st = (r, st')"
  shows "arcs_wf (a # held) st'"
proof -
  have ep: "ep_wf (endpoint (arc_at st a))" by (rule held_ep_wf [OF assms(1)])
  then have str: "lock_get (streams (endpoint (arc_at st a))) \<noteq> None" by (simp add: ep_wf_def)
  have upd: "arcs_wf (a # held) (set_arc a (arc_at st a\<lparr>endpoint := ep', tasks := ts\<rparr>) (st\<lparr>trace := tr\<rparr>))"
    if "ep_wf ep'" for ep' ts tr
    using that assms(1) by (intro set_held_arc_wf) (simp_all add: arc_at_def)
  show ?thesis
    using assms ep str
    by (auto simp: open_stream_on_def Let_def
        split: option.splits sum.splits prod.splits intro!: upd intro: ep_wf_streams)
qed

text \<open>
  A call that looks an endpoint up, works on it and drops its reference again leaves the
  ownership invariant as it was.
\<close>

lemma lookup_arcs_wf: "arcs_wf held st \<Longrightarrow> lookup h st = (Some a, st') \<Longrightarrow> arcs_wf (a # held) st'"
  using lookup_wf by blast

lemma lookup_none_arcs_wf: "arcs_wf held st \<Longrightarrow> lookup h st = (None, st') \<Longrightarrow> arcs_wf held st'"
  by (simp add: lookup_None)

lemma open_stream_arcs_wf:
  "arcs_wf held st \<Longrightarrow> open_stream x h sid st = (r, st') \<Longrightarrow> arcs_wf held st'"
  by (auto simp: open_stream_def split: option.splits prod.splits
      dest: lookup_none_arcs_wf [rotated] lookup_arcs_wf [rotated]
        open_stream_on_arcs_wf [rotated] intro!: arc_drop_wf)

lemma remove_arcs_wf: "arcs_wf held st \<Longrightarrow> remove h st = (s, st') \<Longrightarrow> arcs_wf held st'"
  using remove_wf [of held st h] by simp

lemma wf_start:
  "arcs_wf held st \<Longrightarrow> arcs_wf held (snd (rk_quic_server_start x t j out st))"
  by (auto simp: rk_quic_server_start_def Let_def dest: start_arcs_wf [rotated]
      split: option.splits sum.splits prod.splits)

lemma wf_stop: "arcs_wf held st \<Longrightarrow> arcs_wf held (snd (rk_quic_server_stop t h st))"
  by (auto simp: rk_quic_server_stop_def dest: remove_arcs_wf [rotated] split: prod.splits)

lemma wf_local_port: "arcs_wf held st \<Longrightarrow> arcs_wf held (snd (rk_quic_server_local_port t h out st))"
  by (auto simp: rk_quic_server_local_port_def split: prod.splits option.splits
      dest: lookup_none_arcs_wf [rotated] lookup_arcs_wf [rotated] intro!: arc_drop_wf)

lemma wf_poll: "arcs_wf held st \<Longrightarrow> arcs_wf held (snd (rk_quic_server_poll x t h ms out arrival st))"
  by (auto simp: rk_quic_server_poll_def Let_def into_owned_arcs_wf
      split: prod.splits option.splits sum.splits
      dest: lookup_none_arcs_wf [rotated] intro!: arc_drop_wf set_held_endpoint_wf
      dest!: lookup_arcs_wf [rotated] next_event_wf [rotated] intro: held_ep_wf)

lemma wf_session_send:
  "arcs_wf held st \<Longrightarrow> arcs_wf held (snd (rk_quic_session_send x t h sid p r st))"
  by (auto simp: rk_quic_session_send_def Let_def split: prod.splits option.splits
      dest: lookup_none_arcs_wf [rotated] lookup_arcs_wf [rotated] intro!: arc_drop_wf)

lemma wf_stream_send:
  "arcs_wf held st \<Longrightarrow> arcs_wf held (snd (rk_quic_stream_send x t h sid s p st))"
  by (auto simp: rk_quic_stream_send_def Let_def split: prod.splits option.splits
      dest: lookup_none_arcs_wf [rotated] lookup_arcs_wf [rotated] intro!: arc_drop_wf)

lemma wf_stream_close:
  "arcs_wf held st \<Longrightarrow> arcs_wf held (snd (rk_quic_stream_close x t h sid s st))"
  by (auto simp: rk_quic_stream_close_def Let_def split: prod.splits option.splits
      dest: lookup_none_arcs_wf [rotated] intro!: arc_drop_wf set_held_endpoint_wf
      dest!: lookup_arcs_wf [rotated] stream_close_wf [rotated] intro: held_ep_wf)

lemma wf_client_connect:
  "arcs_wf held st \<Longrightarrow> arcs_wf held (snd (rk_quic_client_connect x t j oh os st))"
  by (auto simp: rk_quic_client_connect_def Let_def dest: connect_arcs_wf [rotated]
      split: option.splits sum.splits prod.splits outcome.splits)

lemma wf_client_open_stream:
  "arcs_wf held st \<Longrightarrow> arcs_wf held (snd (rk_quic_client_open_stream x t h sid out st))"
  by (auto simp: rk_quic_client_open_stream_def dest: open_stream_arcs_wf [rotated]
      split: sum.splits prod.splits)

lemma wf_api: "arcs_wf held st \<Longrightarrow> arcs_wf held (snd (api x t c st))"
  by (cases c) (simp_all add: wf_start wf_stop wf_local_port wf_poll wf_session_send
      wf_stream_send wf_stream_close wf_client_connect wf_client_open_stream)

end
