(* ===== verification/RkSession.thy ===== *)
theory RkSession
  imports RkEntry
begin

text \<open>
  The tasks of an endpoint's runtime (\<open>accept_loop\<close>, \<open>session_loop\<close>, \<open>read_bi_stream\<close> and the
  task \<open>connect\<close> spawns, all in \<open>rust/src/transport.rs\<close>) as a step relation. A task moves from
  one await point, lock or emit to the next; between two such moves any other task and any call
  of the boundary may run. What the network and the runtime deliver is the input of a move.
\<close>

section \<open>Moves of a task\<close>

datatype input =
    InIncoming
  | InRequest rstr rstr
  | InHandshakeFailed
  | InNotFoundSent
  | InAccepted conn
  | InAcceptFailed
  | InContinue
  | InDatagram string
  | InUniStream
  | InBiStream sendstream recvstream
  | InConnError rstr
  | InReadAll string
  | InReadFailed

definition with_sessions ::
  "((u64, conn) table \<Rightarrow> (u64, conn) table) \<Rightarrow> 'a arc_scheme \<Rightarrow> 'a arc_scheme" where
  "with_sessions f r =
     (case lock_get (sessions (endpoint r)) of
        None \<Rightarrow> r
      | Some m \<Rightarrow> r\<lparr>endpoint := (endpoint r)\<lparr>sessions := lock_set (f m) (sessions (endpoint r))\<rparr>\<rparr>)"

definition with_streams ::
  "((u64 \<times> u64, sendstream) table \<Rightarrow> (u64 \<times> u64, sendstream) table) \<Rightarrow>
   'a arc_scheme \<Rightarrow> 'a arc_scheme" where
  "with_streams f r =
     (case lock_get (streams (endpoint r)) of
        None \<Rightarrow> r
      | Some m \<Rightarrow> r\<lparr>endpoint := (endpoint r)\<lparr>streams := lock_set (f m) (streams (endpoint r))\<rparr>\<rparr>)"

text \<open>
  The move of one task: its next point, the tasks it spawns, the endpoint after it and the
  events it emits; \<open>None\<close> where the task does not take that input.
\<close>

fun task_step ::
  "(sendstream \<Rightarrow> u64) \<Rightarrow> task \<Rightarrow> input \<Rightarrow> 'a arc_scheme \<Rightarrow>
   (task \<times> task list \<times> 'a arc_scheme \<times> Event list) option" where
  "task_step sid_of (AcceptLoop path) inp r =
     (case inp of InIncoming \<Rightarrow> Some (AcceptLoop path, [AwaitRequest path], r, []) | _ \<Rightarrow> None)"
| "task_step sid_of (AwaitRequest expected) inp r =
     (case inp of
        InHandshakeFailed \<Rightarrow> Some (Done, [], r, [])
      | InRequest path authority \<Rightarrow>
          if path \<noteq> expected then Some (AwaitNotFound, [], r, [])
          else Some (AwaitAccept authority path, [], r, [])
      | _ \<Rightarrow> None)"
| "task_step sid_of AwaitNotFound inp r =
     (case inp of InNotFoundSent \<Rightarrow> Some (Done, [], r, []) | _ \<Rightarrow> None)"
| "task_step sid_of (AwaitAccept authority path) inp r =
     (case inp of
        InAcceptFailed \<Rightarrow> Some (Done, [], r, [])
      | InAccepted c \<Rightarrow>
          Some (Register (next_session r) c authority path, [],
                r\<lparr>next_session := next_session r + 1\<rparr>, [])
      | _ \<Rightarrow> None)"
| "task_step sid_of (Register sid c authority path) inp r =
     (case inp of
        InContinue \<Rightarrow>
          Some (AnnounceOpen sid c authority path, [], with_sessions (AList.update sid c) r, [])
      | _ \<Rightarrow> None)"
| "task_step sid_of (AnnounceOpen sid c authority path) inp r =
     (case inp of
        InContinue \<Rightarrow> Some (Serve ServerSide sid c, [], r, [SessionOpened sid authority path])
      | _ \<Rightarrow> None)"
| "task_step sid_of (Serve side sid c) inp r =
     (case inp of
        InDatagram bytes \<Rightarrow>
          Some (Serve side sid c, [], r, if utf8_valid bytes then [Datagram sid bytes] else [])
      | InUniStream \<Rightarrow> Some (ReadUni side sid c, [], r, [])
      | InBiStream s rcv \<Rightarrow> Some (KeepStream side sid c s rcv, [], r, [])
      | InConnError reason \<Rightarrow> Some (Forget side sid reason, [], r, [])
      | _ \<Rightarrow> None)"
| "task_step sid_of (ReadUni side sid c) inp r =
     (case inp of
        InReadAll bytes \<Rightarrow>
          Some (Serve side sid c, [], r, if utf8_valid bytes then [StreamMessage sid bytes] else [])
      | InReadFailed \<Rightarrow> Some (Serve side sid c, [], r, [])
      | _ \<Rightarrow> None)"
| "task_step sid_of (KeepStream side sid c s rcv) inp r =
     (case inp of
        InContinue \<Rightarrow>
          Some (AnnounceStream side sid c (sid_of s) rcv, [],
                with_streams (AList.update (sid, sid_of s) s) r, [])
      | _ \<Rightarrow> None)"
| "task_step sid_of (AnnounceStream side sid c stream rcv) inp r =
     (case inp of
        InContinue \<Rightarrow> Some (Serve side sid c, [ReadBi sid stream rcv], r, [StreamOpened sid stream])
      | _ \<Rightarrow> None)"
| "task_step sid_of (Forget side sid reason) inp r =
     (case inp of
        InContinue \<Rightarrow>
          Some (case side of ServerSide \<Rightarrow> Prune sid reason | ClientSide \<Rightarrow> AnnounceClosed sid reason,
                [], with_sessions (AList.delete sid) r, [])
      | _ \<Rightarrow> None)"
| "task_step sid_of (Prune sid reason) inp r =
     (case inp of
        InContinue \<Rightarrow>
          Some (AnnounceClosed sid reason, [], with_streams (retain (\<lambda>(owner, _). owner \<noteq> sid)) r, [])
      | _ \<Rightarrow> None)"
| "task_step sid_of (AnnounceClosed sid reason) inp r =
     (case inp of InContinue \<Rightarrow> Some (Done, [], r, [SessionClosed sid reason]) | _ \<Rightarrow> None)"
| "task_step sid_of (ReadBi sid stream rcv) inp r =
     (case inp of
        InReadAll bytes \<Rightarrow>
          Some (AnnounceStreamClosed sid stream, [], r,
                if utf8_valid bytes then [StreamData sid stream bytes] else [])
      | InReadFailed \<Rightarrow> Some (AnnounceStreamClosed sid stream, [], r, [])
      | _ \<Rightarrow> None)"
| "task_step sid_of (AnnounceStreamClosed sid stream) inp r =
     (case inp of InContinue \<Rightarrow> Some (Done, [], r, [StreamClosed sid stream]) | _ \<Rightarrow> None)"
| "task_step sid_of (ApiOpening sid c) inp r =
     (case inp of
        InBiStream s rcv \<Rightarrow> Some (ApiOpened sid s rcv, [], r, [])
      | InConnError _ \<Rightarrow> Some (Done, [], r, [])
      | _ \<Rightarrow> None)"
| "task_step sid_of (ApiOpened sid s rcv) inp r =
     (case inp of
        InContinue \<Rightarrow>
          Some (Done, [ReadBi sid (sid_of s) rcv], with_streams (AList.update (sid, sid_of s) s) r, [])
      | _ \<Rightarrow> None)"
| "task_step sid_of Done inp r = None"

section \<open>Runs of an endpoint\<close>

text \<open>
  An endpoint with two observations that are not in the program: every event emitted so far,
  dropped ones included, and how many session ids were handed out.
\<close>

record node = arc +
  history :: "Event list"
  accepted :: nat

definition settle :: "nat \<Rightarrow> task \<Rightarrow> task list \<Rightarrow> Event list \<Rightarrow> node \<Rightarrow> node" where
  "settle i t' spawned evs n =
     n\<lparr>tasks := (tasks n)[i := t'] @ spawned,
       endpoint := fold emit_on evs (endpoint n),
       history := history n @ evs,
       accepted := accepted n + (case t' of Register _ _ _ _ \<Rightarrow> 1 | _ \<Rightarrow> 0)\<rparr>"

text \<open>
  One step: a task moves, or a call of the boundary reads an event, closes a stream, or (where
  \<open>opens\<close>) begins to open a stream on a session it has looked up, or opens one while nothing else
  of the endpoint runs.
\<close>

inductive node_step :: "external \<Rightarrow> bool \<Rightarrow> node \<Rightarrow> node \<Rightarrow> bool"
  for x :: external and opens :: bool where
  run_task: "i < length (tasks n) \<Longrightarrow>
     task_step (x_stream_id x) (tasks n ! i) inp n = Some (t', spawned, n', evs) \<Longrightarrow>
     node_step x opens n (settle i t' spawned evs n')"
| api_poll: "next_event timeout None (endpoint n) = (r, waited, ep) \<Longrightarrow>
     node_step x opens n (n\<lparr>endpoint := ep\<rparr>)"
| api_close: "stream_close x (endpoint n) sid stream tr = (r, ep, tr') \<Longrightarrow>
     node_step x opens n (n\<lparr>endpoint := ep\<rparr>)"
| api_open: "opens \<Longrightarrow> lock_get (sessions (endpoint n)) = Some m \<Longrightarrow> map_of m sid = Some c \<Longrightarrow>
     node_step x opens n (n\<lparr>tasks := tasks n @ [ApiOpening sid c]\<rparr>)"
| api_opened: "opens \<Longrightarrow> lock_get (sessions (endpoint n)) = Some m \<Longrightarrow> map_of m sid = Some c \<Longrightarrow>
     node_step x opens n ((with_streams (AList.update (sid, x_stream_id x s) s) n)
       \<lparr>tasks := tasks n @ [ReadBi sid (x_stream_id x s) rcv]\<rparr>)"

inductive reaches :: "external \<Rightarrow> bool \<Rightarrow> node \<Rightarrow> node \<Rightarrow> bool"
  for x :: external and opens :: bool and n0 :: node where
  here: "reaches x opens n0 n0"
| more: "reaches x opens n0 n \<Longrightarrow> node_step x opens n n' \<Longrightarrow> reaches x opens n0 n'"

inductive_cases node_stepE: "node_step x opens n n'"

definition server_node :: "tokio_runtime \<Rightarrow> u16 \<Rightarrow> rstr \<Rightarrow> node" where
  "server_node rt port path =
     \<lparr>strong = 1, endpoint = live_endpoint rt port, tasks = [AcceptLoop path], next_session = 1,
      history = [], accepted = 0\<rparr>"

definition client_node :: "tokio_runtime \<Rightarrow> u16 \<Rightarrow> u64 \<Rightarrow> conn \<Rightarrow> rstr \<Rightarrow> node" where
  "client_node rt port sid c url =
     \<lparr>strong = 1,
      endpoint = emit_on (SessionOpened sid [] url)
        ((live_endpoint rt port)\<lparr>sessions := lock_set [(sid, c)] (sessions (live_endpoint rt port))\<rparr>),
      tasks = [Serve ClientSide sid c], next_session = 1,
      history = [SessionOpened sid [] url], accepted = 0\<rparr>"

section \<open>The order of a session's events\<close>

text \<open>
  What a reader may see of one session: it opens once, then its messages, then it closes once.
  The reader tasks of its bidirectional streams are not joined, so what they report may follow
  the close. Anything else is \<open>Broken\<close>.
\<close>

datatype phase = NotYet | Open | Over | Broken

fun phase_step :: "u64 \<Rightarrow> phase \<Rightarrow> Event \<Rightarrow> phase" where
  "phase_step sid p (SessionOpened s _ _) =
     (if s \<noteq> sid then p else if p = NotYet then Open else Broken)"
| "phase_step sid p (SessionClosed s _) =
     (if s \<noteq> sid then p else if p = Open then Over else Broken)"
| "phase_step sid p (Datagram s _) =
     (if s \<noteq> sid then p else if p = Open then Open else Broken)"
| "phase_step sid p (StreamMessage s _) =
     (if s \<noteq> sid then p else if p = Open then Open else Broken)"
| "phase_step sid p (StreamOpened s _) =
     (if s \<noteq> sid then p else if p = Open then Open else Broken)"
| "phase_step sid p (StreamData s _ _) =
     (if s \<noteq> sid then p else if p = Open \<or> p = Over then p else Broken)"
| "phase_step sid p (StreamClosed s _) =
     (if s \<noteq> sid then p else if p = Open \<or> p = Over then p else Broken)"
| "phase_step sid p (EndpointError _) = p"

definition phase :: "u64 \<Rightarrow> Event list \<Rightarrow> phase" where
  "phase sid h = foldl (phase_step sid) NotYet h"

lemma phase_Nil [simp]: "phase sid [] = NotYet"
  by (simp add: phase_def)

lemma phase_snoc [simp]: "phase sid (h @ [e]) = phase_step sid (phase sid h) e"
  by (simp add: phase_def)

lemma phase_Broken: "foldl (phase_step sid) Broken h = Broken"
proof (induction h)
  case (Cons e h)
  then show ?case by (cases e) simp_all
qed simp

lemma closed_is_over:
  assumes "SessionClosed sid reason \<in> set h" and "phase sid h \<noteq> Broken"
  shows "phase sid h = Over"
proof -
  from assms(1) obtain u v where h: "h = u @ SessionClosed sid reason # v"
    by (auto simp: in_set_conv_decomp)
  have over: "foldl (phase_step sid) Over w \<in> {Over, Broken}" for w
  proof (induction w)
    case (Cons e w)
    then show ?case by (cases e) (auto simp: phase_Broken)
  qed simp
  with over [of v] assms(2) show ?thesis
    by (auto simp: h phase_def phase_Broken split: if_splits)
qed

section \<open>Which session a task serves\<close>

fun session_of :: "task \<Rightarrow> u64 option" where
  "session_of (Register sid _ _ _) = Some sid"
| "session_of (AnnounceOpen sid _ _ _) = Some sid"
| "session_of (Serve _ sid _) = Some sid"
| "session_of (ReadUni _ sid _) = Some sid"
| "session_of (KeepStream _ sid _ _ _) = Some sid"
| "session_of (AnnounceStream _ sid _ _ _) = Some sid"
| "session_of (Forget _ sid _) = Some sid"
| "session_of (Prune sid _) = Some sid"
| "session_of (AnnounceClosed sid _) = Some sid"
| "session_of _ = None"

definition stage :: "task list \<Rightarrow> u64 \<Rightarrow> task option" where
  "stage ts sid = find (\<lambda>t. session_of t = Some sid) ts"

text \<open>No two tasks serve the same session.\<close>

definition uniq :: "task list \<Rightarrow> bool" where
  "uniq ts \<longleftrightarrow> (\<forall>i j. i < length ts \<longrightarrow> j < length ts \<longrightarrow> session_of (ts ! i) \<noteq> None \<longrightarrow>
     session_of (ts ! j) = session_of (ts ! i) \<longrightarrow> j = i)"

lemma uniqD:
  "uniq ts \<Longrightarrow> i < length ts \<Longrightarrow> j < length ts \<Longrightarrow> session_of (ts ! i) = Some s \<Longrightarrow>
     session_of (ts ! j) = Some s \<Longrightarrow> j = i"
  by (metis option.distinct(1) uniq_def)

lemma stage_None: "stage ts s = None \<longleftrightarrow> (\<forall>t \<in> set ts. session_of t \<noteq> Some s)"
  by (auto simp: stage_def find_None_iff)

lemma stage_Some: "stage ts s = Some t \<Longrightarrow> t \<in> set ts \<and> session_of t = Some s"
  by (auto simp: stage_def find_Some_iff)

lemma stage_nth:
  assumes "uniq ts" "i < length ts" "session_of (ts ! i) = Some s"
  shows "stage ts s = Some (ts ! i)"
proof -
  have "stage ts s \<noteq> None" using assms(2,3) nth_mem stage_None by blast
  then obtain t where t: "stage ts s = Some t" by blast
  then obtain j where "j < length ts" "session_of (ts ! j) = Some s" "t = ts ! j"
    using stage_Some by (metis in_set_conv_nth)
  with t uniqD [OF assms(1,2) _ assms(3)] show ?thesis by simp
qed

lemma stage_mem: "uniq ts \<Longrightarrow> t \<in> set ts \<Longrightarrow> session_of t = Some s \<Longrightarrow> stage ts s = Some t"
  using stage_nth by (metis in_set_conv_nth)

lemma uniq_append: "uniq ts \<Longrightarrow> \<forall>t \<in> set sp. session_of t = None \<Longrightarrow> uniq (ts @ sp)"
  unfolding uniq_def by (auto simp: nth_append not_less dest!: nth_mem [of "_ - _" sp])

lemma uniq_update:
  assumes u: "uniq ts" and i: "i < length ts"
    and fresh: "\<And>s. session_of t' = Some s \<Longrightarrow> session_of (ts ! i) = Some s \<or> stage ts s = None"
  shows "uniq (ts[i := t'])"
proof -
  have other: "k = i" if "k < length ts" "session_of t' = Some s" "session_of (ts ! k) = Some s" for k s
    using fresh [OF that(2)] that uniqD [OF u i that(1)] nth_mem stage_None by blast
  show ?thesis
    unfolding uniq_def
  proof (intro allI impI)
    fix j k
    assume jk: "j < length (ts[i := t'])" "k < length (ts[i := t'])"
      "session_of (ts[i := t'] ! j) \<noteq> None"
      "session_of (ts[i := t'] ! k) = session_of (ts[i := t'] ! j)"
    then obtain s where s: "session_of (ts[i := t'] ! j) = Some s" by blast
    with jk have sk: "session_of (ts[i := t'] ! k) = Some s" by simp
    have len: "j < length ts" "k < length ts" using jk by simp_all
    have old: "q \<noteq> i \<Longrightarrow> ts[i := t'] ! q = ts ! q" for q by simp
    have new: "ts[i := t'] ! i = t'" using i by simp
    consider "j = i" "k = i" | "j = i" "k \<noteq> i" | "j \<noteq> i" "k = i" | "j \<noteq> i" "k \<noteq> i" by blast
    then show "k = j"
    proof cases
      case 2
      with s sk new old [of k] other [OF len(2)] show ?thesis by metis
    next
      case 3
      with s sk new old [of j] other [OF len(1)] show ?thesis by metis
    next
      case 4
      with s sk old [of j] old [of k] uniqD [OF u len] show ?thesis by metis
    qed simp
  qed
qed

lemma stage_update:
  assumes u: "uniq ts" and i: "i < length ts" and sp: "\<forall>t \<in> set sp. session_of t = None"
    and fresh: "\<And>s. session_of t' = Some s \<Longrightarrow> session_of (ts ! i) = Some s \<or> stage ts s = None"
  shows "stage (ts[i := t'] @ sp) s =
    (if session_of t' = Some s then Some t'
     else if session_of (ts ! i) = Some s then None else stage ts s)"
    (is "stage ?new s = _")
proof -
  have un: "uniq ?new" by (rule uniq_append [OF uniq_update [OF u i fresh] sp])
  have new: "t \<in> set ?new \<longleftrightarrow> t = t' \<or> t \<in> set sp \<or> (\<exists>k < length ts. k \<noteq> i \<and> t = ts ! k)" for t
    using i by (auto simp: in_set_conv_nth nth_list_update)
  consider "session_of t' = Some s"
    | "session_of t' \<noteq> Some s" "session_of (ts ! i) = Some s"
    | "session_of t' \<noteq> Some s" "session_of (ts ! i) \<noteq> Some s" by blast
  then show ?thesis
  proof cases
    case 1
    with stage_mem [OF un] new show ?thesis by simp
  next
    case 2
    then have "session_of t \<noteq> Some s" if "t \<in> set ?new" for t
      using new [THEN iffD1, OF that] sp uniqD [OF u i _ 2(2)] by auto
    then have "stage ?new s = None" unfolding stage_None by blast
    with 2 show ?thesis by simp
  next
    case 3
    show ?thesis
    proof (cases "stage ts s")
      case None
      then have "session_of t \<noteq> Some s" if "t \<in> set ?new" for t
        using new [THEN iffD1, OF that] sp 3(1) stage_None [of ts s] by auto
      then have "stage ?new s = None" unfolding stage_None by blast
      with 3 None show ?thesis by simp
    next
      case (Some t)
      from stage_Some [OF this] obtain k where k: "k < length ts" "t = ts ! k" "session_of t = Some s"
        by (auto simp: in_set_conv_nth)
      with 3(2) have "t \<in> set ?new" using new by blast
      with stage_mem [OF un _ k(3)] 3 Some show ?thesis by simp
    qed
  qed
qed

end
