(* ===== verification/RkScenario.thy ===== *)
theory RkScenario
  imports RkEntry
begin

text \<open>
  The process before the first call, and a concrete world to evaluate the model in: a network
  and a runtime in which every request succeeds.
\<close>

definition initial_process :: process where
  "initial_process =
     ffi_state.extend empty_ffi
       \<lparr>registry = new_mutex [], arcs = [], next_arc = 0, handle_counter = 1, trace = []\<rparr>"

lemma initial_fields [simp]:
  "registry initial_process = new_mutex []" "arcs initial_process = []"
  "trace initial_process = []" "handle_counter initial_process = 1" "next_arc initial_process = 0"
  "ffi_state.truncate initial_process = empty_ffi"
  by (simp_all add: initial_process_def ffi_state.defs empty_ffi_def)

lemma arcs_wf_initial [simp]: "arcs_wf [] initial_process"
  by (simp add: arcs_wf_def reg_def refs_def new_mutex_def)

lemma ffi_wf_initial [simp]: "ffi_wf initial_process"
  by (simp add: ffi_wf_def initial_process_def ffi_state.defs empty_ffi_def)

definition good_server_config :: ServerConfig where
  "good_server_config =
     \<lparr>sc_bind_address = display_socket_addr (V4 127 0 0 1 4433), sc_certificate_chain_pem = ''C'',
      sc_private_key_pem = ''K'', sc_path = ''/rk'', sc_idle_timeout_ms = 30000\<rparr>"

definition good_client_config :: ClientConfig where
  "good_client_config =
     \<lparr>cc_url = ''https://localhost:4433/rk'', cc_certificate_hash_sha256 = hash_hex (replicate 32 7),
      cc_idle_timeout_ms = 30000\<rparr>"

definition calm :: external where
  "calm =
     \<lparr>x_server_config_from_str = (\<lambda>_. Inr good_server_config),
      x_client_config_from_str = (\<lambda>_. Inr good_client_config),
      x_json_to_string = (\<lambda>_. Inr ''{}''),
      x_certs = (\<lambda>_. [Inr []]),
      x_private_key = (\<lambda>_. Inr (Some (Pkcs8 []))),
      x_certificate_from_der = (\<lambda>_. Inr ''cert''),
      x_idle_timeout_ok = (\<lambda>_. True),
      x_debug_str = id,
      x_to_lowercase = id,
      x_build_runtime = (\<lambda>tr. Inr (length tr)),
      x_server_endpoint = (\<lambda>tr _. Inr (length tr)),
      x_client_endpoint = (\<lambda>tr _. Inr (length tr)),
      x_local_port = (\<lambda>_ _. Inr 4433),
      x_connect = (\<lambda>tr _ _. Inr (length tr)),
      x_open_uni = (\<lambda>tr _. Inr (length tr)),
      x_await_uni = (\<lambda>tr _. Inr (length tr)),
      x_open_bi = (\<lambda>tr _. Inr (length tr)),
      x_await_bi = (\<lambda>tr _. Inr (length tr, length tr)),
      x_write_all = (\<lambda>_ _ _. Inr ()),
      x_finish = (\<lambda>_ _. Inr ()),
      x_send_datagram = (\<lambda>_ _ _. Inr ()),
      x_stream_id = of_nat\<rparr>"

end
