(* ===== verification/RkOps.thy ===== *)
theory RkOps
  imports RkSession RkScenario
begin

text \<open>
  What each operation of the transport does, on every branch: sending, writing to and closing a
  stream, starting and connecting.
\<close>

section \<open>Sending\<close>

lemma send_to_unknown:
  "ep_wf ep \<Longrightarrow> map_of (guarded (sessions ep)) sid = None \<Longrightarrow>
     send x ep sid payload reliable tr = (Inl UnknownHandle, tr)"
  by (simp add: send_def ep_wf_def)

text \<open>
  C26: Sending reliably to a known session opens a unidirectional stream, waits for it, writes the
  whole payload and finishes the stream, in this order and stopping at the first step that fails;
  it answers \<open>ok\<close> exactly when all four succeeded, and \<open>peerGone\<close> otherwise.
\<close>

theorem reliable_send_steps:
  assumes "ep_wf ep" and "map_of (guarded (sessions ep)) sid = Some c"
    and "send x ep sid payload True tr = (r, tr')"
  shows "r \<in> {Inl PeerGone, Inr ()} \<and>
    (r = Inr () \<longleftrightarrow>
      (\<exists>o' s. x_open_uni x tr c = Inr o' \<and> x_await_uni x (tr @ [OpenUni c]) o' = Inr s \<and>
         x_write_all x (tr @ [OpenUni c, AwaitUni o']) s payload = Inr () \<and>
         x_finish x (tr @ [OpenUni c, AwaitUni o', WriteAll s payload]) s = Inr ())) \<and>
    (\<exists>o' s. let all = tr @ [OpenUni c, AwaitUni o', WriteAll s payload, FinishStream s] in
       strict_prefix tr tr' \<and> prefix tr' all \<and> (r = Inr () \<longrightarrow> tr' = all))"
  using assms
  by (auto simp: send_def Let_def ep_wf_def strict_prefix_def split: option.splits sum.splits)

theorem reliable_send_steps_witness:
  "send calm (live_endpoint 0 4433\<lparr>sessions := new_mutex [(1, 7)]\<rparr>) 1 ''hi'' True []
     = (Inr (), [OpenUni 7, AwaitUni 0, WriteAll 1 ''hi'', FinishStream 1])"
proof -
  let ?ep = "live_endpoint 0 4433\<lparr>sessions := new_mutex [(1, 7)]\<rparr>"
  have wf: "ep_wf ?ep"
    by (simp add: ep_wf_def live_endpoint_def sync_channel_def channel_live_def)
  have c: "map_of (guarded (sessions ?ep)) 1 = Some 7" by (simp add: new_mutex_def)
  obtain r tr' where s: "send calm ?ep 1 ''hi'' True [] = (r, tr')" by fastforce
  have "r = Inr ()"
    using reliable_send_steps [OF wf c s] by (simp add: calm_def)
  with s show ?thesis by (simp add: send_def calm_def Let_def live_endpoint_def)
qed

text \<open>
  Writing to a bidirectional stream hands the network one write of the whole payload, and
  nothing else: it never finishes the stream, so the stream stays usable for the next write. Only
  \<open>stream_close\<close> finishes one.
\<close>

lemma stream_send_keeps_stream:
  assumes "ep_wf ep" and "stream_send x ep sid stream payload tr = (r, tr')"
  shows "case map_of (guarded (streams ep)) (sid, stream) of
      None \<Rightarrow> r = Inl UnknownHandle \<and> tr' = tr
    | Some s \<Rightarrow> tr' = tr @ [WriteAll s payload] \<and>
        r = (case x_write_all x tr s payload of Inr _ \<Rightarrow> Inr () | Inl _ \<Rightarrow> Inl PeerGone)"
  using assms by (auto simp: stream_send_def ep_wf_def split: option.splits sum.splits)

lemma stream_send_keeps_stream_witness:
  "stream_send calm (live_endpoint 0 4433\<lparr>streams := new_mutex [((1, 2), 7)]\<rparr>) 1 2 ''hi'' []
     = (Inr (), [WriteAll 7 ''hi''])"
proof -
  let ?ep = "live_endpoint 0 4433\<lparr>streams := new_mutex [((1, 2), 7)]\<rparr>"
  have wf: "ep_wf ?ep"
    by (simp add: ep_wf_def live_endpoint_def sync_channel_def channel_live_def)
  obtain r tr' where s: "stream_send calm ?ep 1 2 ''hi'' [] = (r, tr')" by fastforce
  from stream_send_keeps_stream [OF wf s] s show ?thesis by (simp add: calm_def new_mutex_def)
qed

text \<open>
  Closing a stream forgets it whether or not the peer can still be told: afterwards the
  stream is in no table, every other stream and all sessions are untouched, at most one finish was
  asked of the network, and closing it a second time answers \<open>unknownHandle\<close>.
\<close>

lemma stream_close_forgets:
  assumes "ep_wf ep" and "stream_close x ep sid stream tr = (r, ep', tr')"
  shows "map_of (guarded (streams ep')) = (map_of (guarded (streams ep)))((sid, stream) := None) \<and>
    sessions ep' = sessions ep \<and> events ep' = events ep \<and>
    (case map_of (guarded (streams ep)) (sid, stream) of
       None \<Rightarrow> r = Inl UnknownHandle \<and> tr' = tr
     | Some s \<Rightarrow> tr' = tr @ [FinishStream s] \<and>
         r = (case x_finish x tr s of Inr _ \<Rightarrow> Inr () | Inl _ \<Rightarrow> Inl PeerGone)) \<and>
    fst (stream_close x ep' sid stream tr') = Inl UnknownHandle"
  using assms
  by (auto simp: stream_close_def Let_def ep_wf_def delete_conv' split: option.splits sum.splits)

lemma stream_close_forgets_witness:
  "\<exists>ep'. stream_close calm (live_endpoint 0 4433\<lparr>streams := new_mutex [((1, 2), 7)]\<rparr>) 1 2 []
       = (Inr (), ep', [FinishStream 7]) \<and> map_of (guarded (streams ep')) = Map.empty"
proof -
  let ?ep = "live_endpoint 0 4433\<lparr>streams := new_mutex [((1, 2), 7)]\<rparr>"
  have wf: "ep_wf ?ep"
    by (simp add: ep_wf_def live_endpoint_def sync_channel_def channel_live_def)
  obtain r ep' tr' where s: "stream_close calm ?ep 1 2 [] = (r, ep', tr')" by (metis prod_cases3)
  from stream_close_forgets [OF wf s] s show ?thesis by (simp add: calm_def new_mutex_def)
qed

section \<open>Starting\<close>

lemma register_healthy:
  assumes "arcs_wf held st" "reg st h = None"
  shows "register h r st = (Inr (), st\<lparr>arcs := AList.update (next_arc st) r (arcs st),
    next_arc := Suc (next_arc st),
    registry := lock_set (AList.update h (next_arc st) (guarded (registry st))) (registry st)\<rparr>)"
  using assms
  by (simp add: register_def lock_registry [OF assms(1)] arc_new_def Let_def reg_def)

lemma register_ok:
  assumes "arcs_wf held st" "reg st h = None" "register h r st = (res, st')"
  shows "res = Inr () \<and> reg st' = (reg st)(h \<mapsto> next_arc st) \<and> arc_at st' (next_arc st) = r \<and>
    trace st' = trace st"
  using assms(3) unfolding register_healthy [OF assms(1,2)]
  by (auto simp: reg_def arc_at_def update_conv')

text \<open>
  A start that succeeds registers the new endpoint under the next handle, with an empty queue,
  no session, no stream and a task that accepts sessions on the configured path; it made exactly
  two requests, and the endpoint it asked for carries the identity from the configuration, both
  address families where the bind address is IPv6, the configured idle timeout and a keep-alive of
  a third of it.
\<close>

lemma start_serves_config:
  assumes "arcs_wf held st" and "reg st (handle_counter st) = None"
    and "start x config st = (Inr h, st')"
  shows "\<exists>rt port identity wc. h = handle_counter st \<and>
    reg st' = (reg st)(h \<mapsto> next_arc st) \<and>
    arc_at st' (next_arc st) = arc.truncate (server_node rt port (pc_path config)) \<and>
    trace st' = trace st @ [BuildRuntime, OpenServerEndpoint wc] \<and>
    identity_from x config = Inr identity \<and> ws_identity wc = identity \<and>
    ws_bind wc = (case pc_bind config of
        V6 _ _ _ \<Rightarrow> with_bind_address_v6 (pc_bind config) DualStackAllow
      | V4 _ _ _ _ _ \<Rightarrow> with_bind_address (pc_bind config)) \<and>
    ws_max_idle_timeout wc = pc_idle_timeout config \<and> x_idle_timeout_ok x (pc_idle_timeout config) \<and>
    ws_keep_alive wc = pc_idle_timeout config div 3"
proof -
  let ?wc = "\<lambda>identity. \<lparr>ws_bind = bind_choice (pc_bind config), ws_identity = identity,
    ws_max_idle_timeout = pc_idle_timeout config, ws_keep_alive = pc_idle_timeout config div 3\<rparr>"
  let ?st = "\<lambda>identity. st\<lparr>trace := trace st @ [BuildRuntime, OpenServerEndpoint (?wc identity)],
    handle_counter := handle_counter st + 1\<rparr>"
  note go = assms(3) [unfolded start_def Let_def]
  from go obtain identity where id: "identity_from x config = Inr identity"
    by (cases "identity_from x config") simp_all
  with go have idle: "x_idle_timeout_ok x (pc_idle_timeout config)" by (simp split: if_splits)
  with go id obtain rt where rt: "x_build_runtime x (trace st) = Inr rt"
    by (cases "x_build_runtime x (trace st)") simp_all
  with go id idle obtain ep where ep: "x_server_endpoint x (trace st @ [BuildRuntime]) (?wc identity) = Inr ep"
    by (cases "x_server_endpoint x (trace st @ [BuildRuntime]) (?wc identity)") simp_all
  with go id idle rt obtain port where
    port: "x_local_port x (trace st @ [BuildRuntime, OpenServerEndpoint (?wc identity)]) ep = Inr port"
    by (cases "x_local_port x (trace st @ [BuildRuntime, OpenServerEndpoint (?wc identity)]) ep") simp_all
  let ?r = "\<lparr>strong = 1, endpoint = live_endpoint rt port, tasks = [AcceptLoop (pc_path config)],
    next_session = 1\<rparr>"
  from go id idle rt ep port have h: "h = handle_counter st"
    and r: "register (handle_counter st) ?r (?st identity) = (Inr (), st')"
    by (cases "register (handle_counter st) ?r (?st identity)";
        simp add: next_handle_def split: sum.splits)+
  note steps = id idle
  have "reg st' = (reg st)(h \<mapsto> next_arc st) \<and>
    arc_at st' (next_arc st) = arc.truncate (server_node rt port (pc_path config)) \<and>
    trace st' = trace st @ [BuildRuntime, OpenServerEndpoint (?wc identity)]"
    using register_ok [OF _ _ r, of held] assms(1,2) h
    by (simp add: reg_def server_node_def arc.defs)
  with steps h show ?thesis
    by (intro exI [of _ rt] exI [of _ port] exI [of _ identity] exI [of _ "?wc identity"])
      (simp add: bind_choice_def)
qed

text \<open>What a started process looks like in a calm world.\<close>

definition demo_parsed :: ParsedConfig where
  "demo_parsed = \<lparr>pc_bind = V6 [0, 0, 0, 0, 0, 0, 0, 0] 0 4433, pc_chain = [[]], pc_key = Pkcs8 [],
     pc_path = ''/rk'', pc_idle_timeout = from_millis 30000\<rparr>"

lemma demo_start_eval:
  "\<exists>st'. start calm demo_parsed initial_process = (Inr 1, st')"
  by (simp add: start_def identity_from_def demo_parsed_def calm_def Let_def
      next_handle_def register_def arc_new_def)

lemma start_serves_config_witness:
  "\<exists>st' rt port wc. start calm demo_parsed initial_process = (Inr 1, st') \<and>
     arc_at st' 0 = arc.truncate (server_node rt port ''/rk'') \<and>
     trace st' = [BuildRuntime, OpenServerEndpoint wc] \<and>
     ws_bind wc = with_bind_address_v6 (V6 [0, 0, 0, 0, 0, 0, 0, 0] 0 4433) DualStackAllow"
proof -
  obtain st' where s: "start calm demo_parsed initial_process = (Inr 1, st')"
    using demo_start_eval by blast
  have f: "reg initial_process (handle_counter initial_process) = None"
    by (simp add: reg_def new_mutex_def)
  show ?thesis using start_serves_config [OF arcs_wf_initial f s] s by (auto simp: demo_parsed_def)
qed

lemma register_never_fails:
  "arcs_wf held st \<Longrightarrow> strong r = 1 \<Longrightarrow> ep_wf (endpoint r) \<Longrightarrow> register h r st \<noteq> (Inl e, st')"
  using register_wf [of held st r h] by auto

lemma identity_status: "identity_from x c = Inl (status, m) \<Longrightarrow> status = BadCertificate"
  by (auto simp: identity_from_def split: sum.splits PrivateKeyDer.splits)

text \<open>
  A start that fails leaves nothing behind: no handle, no endpoint, and the runtime it built,
  if it got that far, is dropped as the last thing it does. It answers \<open>portInUse\<close> exactly when
  everything before the bind succeeded and the address was in use.
\<close>

lemma failed_start_leaves_nothing:
  assumes "arcs_wf held st" and "start x config st = (Inl (status, message), st')"
  shows "registry st' = registry st \<and> arcs st' = arcs st \<and>
    (\<exists>tr. trace st' = trace st @ tr \<and>
       (tr = [] \<or> (case x_build_runtime x (trace st) of
          Inr rt \<Rightarrow> last tr = DropRuntime rt | Inl _ \<Rightarrow> tr = [BuildRuntime]))) \<and>
    (status = PortInUse \<longleftrightarrow>
      (\<exists>identity rt e. identity_from x config = Inr identity \<and> x_idle_timeout_ok x (pc_idle_timeout config) \<and>
         x_build_runtime x (trace st) = Inr rt \<and>
         x_server_endpoint x (trace st @ [BuildRuntime])
           \<lparr>ws_bind = bind_choice (pc_bind config), ws_identity = identity,
            ws_max_idle_timeout = pc_idle_timeout config,
            ws_keep_alive = pc_idle_timeout config div 3\<rparr> = Inl (AddrInUse, e)))"
  using assms(2) unfolding start_def Let_def
  by (auto simp: next_handle_def bind_status_def register_never_fails [of held] assms(1)
      dest: identity_status split: sum.splits if_splits prod.splits ErrorKind.splits)

definition busy :: external where
  "busy = calm\<lparr>x_server_endpoint := (\<lambda>_ _. Inl (AddrInUse, ''address in use''))\<rparr>"

lemma failed_start_leaves_nothing_witness:
  "\<exists>message st'. start busy demo_parsed initial_process = (Inl (PortInUse, message), st') \<and>
     registry st' = new_mutex [] \<and> arcs st' = []"
proof -
  have "\<exists>message st'. start busy demo_parsed initial_process = (Inl (PortInUse, message), st')"
    by (simp add: start_def identity_from_def demo_parsed_def busy_def calm_def Let_def bind_status_def)
  then obtain message st' where s:
    "start busy demo_parsed initial_process = (Inl (PortInUse, message), st')" by blast
  from failed_start_leaves_nothing [OF arcs_wf_initial s] s show ?thesis by auto
qed

section \<open>Connecting\<close>

text \<open>
  A connect that succeeds registers one endpoint with one session, the session id drawn from
  the process-wide counter before the handle; the session is in the table and its announcement,
  with the URL as its path and no authority, is the first event to read. It asked the network to
  trust exactly the configured certificate hash.
\<close>

lemma connect_opens_session:
  assumes "arcs_wf held st" and "reg st (handle_counter st + 1) = None"
    and "connect x config st = (Inr (h, sid), st')"
  shows "\<exists>rt port c wc ep. sid = handle_counter st \<and> h = handle_counter st + 1 \<and>
    reg st' = (reg st)(h \<mapsto> next_arc st) \<and>
    arc_at st' (next_arc st) = arc.truncate (client_node rt port sid c (pcc_url config)) \<and>
    trace st' = trace st @ [BuildRuntime, OpenClientEndpoint wc, Connect ep (pcc_url config)] \<and>
    wc_certificate_hashes wc = [pcc_certificate_hash config] \<and>
    wc_max_idle_timeout wc = pcc_idle_timeout config \<and>
    buf (guarded (events (endpoint (arc_at st' (next_arc st))))) = [SessionOpened sid [] (pcc_url config)]"
proof -
  let ?wc = "\<lparr>wc_certificate_hashes = [pcc_certificate_hash config],
    wc_max_idle_timeout = pcc_idle_timeout config, wc_keep_alive = pcc_idle_timeout config div 3\<rparr>"
  let ?tr1 = "trace st @ [BuildRuntime]" and ?tr2 = "trace st @ [BuildRuntime, OpenClientEndpoint ?wc]"
  note go = assms(3) [unfolded connect_def Let_def]
  from go have idle: "x_idle_timeout_ok x (pcc_idle_timeout config)" by (simp split: if_splits)
  with go obtain rt where rt: "x_build_runtime x (trace st) = Inr rt"
    by (cases "x_build_runtime x (trace st)") simp_all
  with go idle obtain ep where ep: "x_client_endpoint x ?tr1 ?wc = Inr ep"
    by (cases "x_client_endpoint x ?tr1 ?wc") simp_all
  with go idle rt obtain c where c: "x_connect x ?tr2 ep (pcc_url config) = Inr c"
    by (cases "x_connect x ?tr2 ep (pcc_url config)") simp_all
  let ?tr3 = "?tr2 @ [Connect ep (pcc_url config)]"
  let ?port = "case x_local_port x ?tr3 ep of Inr p \<Rightarrow> p | Inl _ \<Rightarrow> 0"
  let ?n = "client_node rt ?port (handle_counter st) c (pcc_url config)"
  let ?st = "st\<lparr>trace := ?tr3, handle_counter := handle_counter st + 1 + 1\<rparr>"
  from go idle rt ep c have sid: "sid = handle_counter st" and h: "h = handle_counter st + 1"
    and r: "register (handle_counter st + 1) (arc.truncate ?n) ?st = (Inr (), st')"
    by (cases "register (handle_counter st + 1) (arc.truncate ?n) ?st";
        simp add: next_handle_def client_node_def arc.defs split: sum.splits)+
  have "reg st' = (reg st)(h \<mapsto> next_arc st) \<and> arc_at st' (next_arc st) = arc.truncate ?n \<and>
    trace st' = ?tr3"
    using register_ok [OF _ _ r, of held] assms(1,2) h by (simp add: reg_def)
  with sid h show ?thesis
    by (intro exI [of _ rt] exI [of _ ?port] exI [of _ c] exI [of _ ?wc] exI [of _ ep])
      (simp add: arc.defs client_node_def emit_on_def emit_buf live_endpoint_def sync_channel_def
        EVENT_QUEUE_DEPTH_def)
qed

definition demo_client :: ParsedClientConfig where
  "demo_client = \<lparr>pcc_url = ''https://localhost/rk'', pcc_certificate_hash = replicate 32 7,
     pcc_idle_timeout = from_millis 30000\<rparr>"

lemma connect_opens_session_witness:
  "\<exists>st' rt port c. connect calm demo_client initial_process = (Inr (2, 1), st') \<and>
     arc_at st' 0 = arc.truncate (client_node rt port 1 c ''https://localhost/rk'')"
proof -
  have "\<exists>st'. connect calm demo_client initial_process = (Inr (2, 1), st')"
    by (simp add: connect_def demo_client_def calm_def Let_def next_handle_def register_def arc_new_def)
  then obtain st' where s: "connect calm demo_client initial_process = (Inr (2, 1), st')" by blast
  have f: "reg initial_process (handle_counter initial_process + 1) = None"
    by (simp add: reg_def new_mutex_def)
  show ?thesis using connect_opens_session [OF arcs_wf_initial f s] s by (auto simp: demo_client_def)
qed

text \<open>
  A connect that fails leaves no handle, no endpoint and no runtime behind, and answers
  \<open>badCertificate\<close> only when the connection itself failed with a message that speaks of the
  certificate, TLS or the handshake in any letter case.
\<close>

lemma failed_connect_leaves_nothing:
  assumes "arcs_wf held st" and "connect x config st = (Inl (status, message), st')"
  shows "registry st' = registry st \<and> arcs st' = arcs st \<and>
    (\<exists>tr. trace st' = trace st @ tr \<and>
       (tr = [] \<or> (case x_build_runtime x (trace st) of
          Inr rt \<Rightarrow> last tr = DropRuntime rt | Inl _ \<Rightarrow> tr = [BuildRuntime]))) \<and>
    status \<in> {InvalidArgument, BindFailed, BadCertificate, PeerGone} \<and>
    (status = BadCertificate \<longrightarrow> (\<exists>e. message = ''connect '' @ pcc_url config @ '': '' @ e \<and>
       (contains (x_to_lowercase x e) ''certificate'' \<or> contains (x_to_lowercase x e) ''tls'' \<or>
        contains (x_to_lowercase x e) ''handshake'')))"
  using assms(2) unfolding connect_def Let_def
  by (auto simp: next_handle_def connect_status_def Let_def register_never_fails [of held] assms(1)
      ep_wf_emit ep_wf_sessions split: sum.splits if_splits prod.splits)

definition distrusted :: external where
  "distrusted = calm\<lparr>x_connect := (\<lambda>_ _ _. Inl ''tls alert'')\<rparr>"

lemma failed_connect_leaves_nothing_witness:
  "\<exists>message st'. connect distrusted demo_client initial_process = (Inl (BadCertificate, message), st') \<and>
     registry st' = new_mutex [] \<and> arcs st' = []"
proof -
  have "\<exists>message st'. connect distrusted demo_client initial_process =
      (Inl (BadCertificate, message), st')"
    by (simp add: connect_def demo_client_def distrusted_def calm_def Let_def connect_status_def
        starts_with_def)
  then obtain message st' where s:
    "connect distrusted demo_client initial_process = (Inl (BadCertificate, message), st')" by blast
  from failed_connect_leaves_nothing [OF arcs_wf_initial s] s show ?thesis by auto
qed

end
