(* ===== verification/RkPromises.thy ===== *)
theory RkPromises
  imports RkOps
begin

text \<open>
  What the C ABI promises a caller: who owns which endpoint and string, what a handle that is not
  live answers, what stopping does, what a poll hands over, when there is a detail to read.
\<close>

section \<open>What the error detail leaves alone of the process\<close>

lemma reg_boundary [simp]:
  "reg (clear_last_error t st) = reg st" "reg (set_last_error t m st) = reg st"
  "reg (st\<lparr>cells_ptr := cp\<rparr>) = reg st"
  by (simp_all add: reg_def clear_last_error_def set_last_error_def)

lemma process_boundary [simp]:
  "arcs (clear_last_error t st) = arcs st" "arcs (set_last_error t m st) = arcs st"
  "trace (clear_last_error t st) = trace st" "trace (set_last_error t m st) = trace st"
  "registry (clear_last_error t st) = registry st" "registry (set_last_error t m st) = registry st"
  "handle_counter (clear_last_error t st) = handle_counter st"
  "handle_counter (set_last_error t m st) = handle_counter st"
  "next_arc (clear_last_error t st) = next_arc st" "next_arc (set_last_error t m st) = next_arc st"
  by (simp_all add: clear_last_error_def set_last_error_def)

section \<open>Ownership over whole sequences of calls\<close>

lemma run_calls_wf: "arcs_wf held st \<Longrightarrow> arcs_wf held (run_calls (api x) cs st)"
proof (induction cs arbitrary: st)
  case (Cons c cs)
  then show ?case by (cases c) (simp add: wf_api)
qed simp

text \<open>
  After any sequence of calls of the C ABI, in any threads and with any answers from the
  network, every endpoint in memory belongs to exactly one handle and is referenced exactly once:
  no handle dangles, no endpoint is leaked, and each is running with healthy locks.
\<close>

lemma every_endpoint_has_one_handle:
  "let st = run_calls (api x) cs initial_process in
     (\<forall>h a. reg st h = Some a \<longrightarrow> (\<exists>r. map_of (arcs st) a = Some r \<and> strong r = 1 \<and> ep_wf (endpoint r))) \<and>
     (\<forall>a. a \<in> dom (map_of (arcs st)) \<longleftrightarrow> (\<exists>!h. reg st h = Some a))"
proof -
  let ?st = "run_calls (api x) cs initial_process"
  have wf: "arcs_wf [] ?st" by (simp add: run_calls_wf)
  have one: "map_of (arcs ?st) a = Some (arc_at ?st a) \<and> strong (arc_at ?st a) = 1 \<and> ep_wf (endpoint (arc_at ?st a))"
    if "reg ?st h = Some a" for h a
    using registered_arc [OF wf that] arcs_wfD(3) [OF wf registered_arc [OF wf that]] that
    by (auto simp: refs_def)
  have two: "\<exists>!h. reg ?st h = Some a" if "map_of (arcs ?st) a = Some r" for a r
    using arcs_wfD(3) [OF wf that] arcs_wfD(2) [OF wf]
    by (auto simp: refs_def split: if_splits)
  from one two show ?thesis unfolding Let_def by blast
qed

lemma good_config_parses:
  "config_parse (x_certs calm) (x_private_key calm) good_server_config =
     Inr \<lparr>pc_bind = V4 127 0 0 1 4433, pc_chain = [[]], pc_key = Pkcs8 [], pc_path = ''/rk'',
          pc_idle_timeout = from_millis 30000\<rparr>"
  by (simp add: config_parse_def good_server_config_def calm_def starts_with_def
      socket_addr_v4_roundtrip del: display_socket_addr.simps)

lemma demo_call:
  "reg (run_calls (api calm) [(1, ServerStart (Some [NUL]) 8)] initial_process) 1 = Some 0"
proof -
  have b: "borrow_c_string (Some [NUL]) = Some []" by code_simp
  have j: "x_server_config_from_str calm [] = Inr good_server_config" by (simp add: calm_def)
  show ?thesis
    by (simp add: rk_quic_server_start_def b j good_config_parses Let_def)
      (simp add: start_def identity_from_def calm_def Let_def next_handle_def register_def arc_new_def reg_def)
qed

lemma every_endpoint_has_one_handle_witness:
  "\<exists>h a r. let st = run_calls (api calm) [(1, ServerStart (Some [NUL]) 8)] initial_process in
     reg st h = Some a \<and> map_of (arcs st) a = Some r \<and> strong r = 1"
  using every_endpoint_has_one_handle [of calm "[(1, ServerStart (Some [NUL]) 8)]"] demo_call
  unfolding Let_def by blast

text \<open>
  C35: Over any sequence of calls every answer is the NUL-terminated name of a status, no string
  the caller was given is freed or changed, and the detail of a thread that made none of the calls
  is untouched.
\<close>

theorem boundary_contract:
  assumes "ffi_wf st"
  shows "(\<exists>status. c_read (fst (api x t c (run_calls (api x) cs st)) @ rest) = Some (plain_name status)) \<and>
    (map_of (heap st) p = Some m \<longrightarrow>
       map_of (heap (run_calls (api x) cs st)) p = Some m) \<and>
    (t' \<notin> fst ` set cs \<longrightarrow> last_error (run_calls (api x) cs st) t' = last_error st t')"
  using api.answer_readable [of x t c "run_calls (api x) cs st" rest]
    api.run_keeps_owned [OF assms, of p m x cs] api.run_keeps_detail [of cs t' x st]
  by force

theorem boundary_contract_witness:
  "\<exists>status. c_read (fst (api calm 1 (ServerStop 5) (run_calls (api calm) [] initial_process)) @ ''x'')
     = Some (plain_name status)"
  using boundary_contract [OF ffi_wf_initial] by blast

section \<open>Handles that are not live\<close>

fun handle_of :: "api_call \<Rightarrow> u64 option" where
  "handle_of (ServerStop h) = Some h"
| "handle_of (ServerLocalPort h _) = Some h"
| "handle_of (ServerPoll h _ _ _) = Some h"
| "handle_of (SessionSend h _ _ _) = Some h"
| "handle_of (StreamSend h _ _ _) = Some h"
| "handle_of (StreamClose h _ _) = Some h"
| "handle_of (ClientOpenStream h _ _) = Some h"
| "handle_of _ = None"

fun answer_if_gone :: "api_call \<Rightarrow> Status" where
  "answer_if_gone (ServerStop _) = NotRunning"
| "answer_if_gone (SessionSend _ _ payload _) =
     (if borrow_c_string payload = None then InvalidArgument else UnknownHandle)"
| "answer_if_gone (StreamSend _ _ _ payload) =
     (if borrow_c_string payload = None then InvalidArgument else UnknownHandle)"
| "answer_if_gone _ = UnknownHandle"

lemma lookup_gone: "arcs_wf held st \<Longrightarrow> reg st h = None \<Longrightarrow> lookup h st = (None, st)"
  by (simp add: lookup_None)

lemma remove_gone: "arcs_wf held st \<Longrightarrow> reg st h = None \<Longrightarrow> remove h st = (NotRunning, st)"
proof -
  assume wf: "arcs_wf held st" and "reg st h = None"
  then have none: "map_of (guarded (registry st)) h = None" by (simp add: reg_def)
  then have "AList.delete h (guarded (registry st)) = guarded (registry st)"
    by (simp add: delete_idem map_of_eq_None_iff)
  with none show ?thesis by (simp add: remove_def lock_registry [OF wf] Let_def lock_set_def)
qed



end
