(* ===== verification/RkStop.thy ===== *)
theory RkStop
  imports RkPromises
begin

text \<open>
  Stopping an endpoint, polling it, and the detail of a failed call.
\<close>

section \<open>Stopping\<close>

definition closing :: "Endpoint \<Rightarrow> action list" where
  "closing ep = map (\<lambda>(_, c). CloseConnection c 0 ''endpoint stopped'') (guarded (sessions ep)) @
     [ShutdownBackground (the (runtime ep))]"

lemma drop_healthy: "ep_wf ep \<Longrightarrow> drop_endpoint ep tr = tr @ closing ep"
  by (auto simp: drop_endpoint_def closing_def ep_wf_def Let_def)

lemma stop_registered:
  assumes wf: "arcs_wf held st" and a: "reg st h = Some a"
  shows "rk_quic_server_stop t h st = (as_c_str StatusOk,
    arc_drop a ((clear_last_error t st)\<lparr>registry :=
      lock_set (AList.delete h (guarded (registry st))) (registry st)\<rparr>))"
  using a by (simp add: rk_quic_server_stop_def remove_def lock_registry [OF wf] Let_def reg_def)

lemma reg_after_stop:
  assumes "arcs_wf held st" "reg st h = Some a" "rk_quic_server_stop t h st = (result, st')"
  shows "reg st' = (reg st)(h := None)"
  using assms(3) unfolding stop_registered [OF assms(1,2)]
  by (auto simp: reg_def delete_conv')

lemma second_stop:
  assumes "arcs_wf held st" "reg st h = Some a" "rk_quic_server_stop t h st = (result, st')"
  shows "fst (rk_quic_server_stop t h st') = as_c_str NotRunning"
proof -
  have wf: "arcs_wf held (clear_last_error t st')" using wf_stop [OF assms(1), of t h] assms(3) by simp
  have "reg (clear_last_error t st') h = None" using reg_after_stop [OF assms] by simp
  from remove_gone [OF wf this] show ?thesis by (simp add: rk_quic_server_stop_def)
qed

text \<open>
  C10: Stopping an endpoint that no other call is using frees it: the answer is \<open>ok\<close>, the handle
  and the endpoint are gone and no other is, each of its sessions is closed before the runtime is
  shut down in the background, nothing else happens on the network, and a second stop answers
  \<open>notRunning\<close>.
\<close>

theorem stop_frees_endpoint:
  assumes "arcs_wf [] st" and "reg st h = Some a"
    and "rk_quic_server_stop t h st = (result, st')"
  shows "result = as_c_str StatusOk \<and> reg st' = (reg st)(h := None) \<and>
    map_of (arcs st') = (map_of (arcs st))(a := None) \<and>
    trace st' = trace st @ closing (endpoint (arc_at st a)) \<and>
    fst (rk_quic_server_stop t h st') = as_c_str NotRunning"
proof -
  let ?st = "(clear_last_error t st)\<lparr>registry :=
    lock_set (AList.delete h (guarded (registry st))) (registry st)\<rparr>"
  note r = registered_arc [OF assms(1,2)]
  from arcs_wfD(3) [OF assms(1) r] assms(2) have "strong (arc_at st a) = 1" "ep_wf (endpoint (arc_at st a))"
    by (auto simp: refs_def)
  moreover have "arc_at ?st a = arc_at st a" by (simp add: arc_at_def)
  ultimately have drop: "arc_drop a ?st = ?st\<lparr>arcs := AList.delete a (arcs st),
      trace := trace st @ closing (endpoint (arc_at st a))\<rparr>"
    by (simp add: arc_drop_def Let_def drop_healthy)
  from assms(3) have "result = as_c_str StatusOk" "st' = arc_drop a ?st"
    unfolding stop_registered [OF assms(1,2)] by simp_all
  with reg_after_stop [OF assms] second_stop [OF assms] show ?thesis
    by (simp add: drop delete_conv')
qed

text \<open>A process with one server, started in a calm world.\<close>

definition demo_server :: process where
  "demo_server = snd (start calm demo_parsed initial_process)"

lemma demo_server_wf: "arcs_wf [] demo_server" and demo_server_reg: "reg demo_server 1 = Some 0"
  and demo_server_ffi: "ffi_wf demo_server"
proof -
  obtain st where s: "start calm demo_parsed initial_process = (Inr 1, st)"
    using demo_start_eval by blast
  then have d: "demo_server = st" by (simp add: demo_server_def)
  from start_arcs_wf [OF arcs_wf_initial s] show "arcs_wf [] demo_server" unfolding d .
  have "core st = core initial_process" by (rule boundary_core [OF boundary_start [OF s]])
  with ffi_wf_initial show "ffi_wf demo_server" unfolding d by (simp add: core_def ffi_wf_def)
  show "reg demo_server 1 = Some 0"
    by (simp add: demo_server_def start_def identity_from_def demo_parsed_def calm_def Let_def
        next_handle_def register_def arc_new_def reg_def)
qed

theorem stop_frees_endpoint_witness:
  "\<exists>st'. rk_quic_server_stop 1 1 demo_server = (as_c_str StatusOk, st') \<and>
     map_of (arcs st') 0 = None \<and> fst (rk_quic_server_stop 1 1 st') = as_c_str NotRunning"
proof -
  obtain r st' where s: "rk_quic_server_stop 1 1 demo_server = (r, st')" by fastforce
  from stop_frees_endpoint [OF demo_server_wf demo_server_reg s] s show ?thesis by simp
qed

text \<open>
  Stopping an endpoint while another call is using it does not free it: the answer is \<open>ok\<close>
  and the handle is gone, but nothing is closed and the runtime keeps running until the last such
  call drops its reference, which is then what frees the endpoint.
\<close>

lemma stop_waits_for_calls_in_flight:
  assumes "arcs_wf [a] st" and "reg st h = Some a"
    and "rk_quic_server_stop t h st = (result, st')"
  shows "result = as_c_str StatusOk \<and> reg st' h = None \<and> trace st' = trace st \<and>
    a \<in> dom (map_of (arcs st')) \<and>
    map_of (arcs (arc_drop a st')) a = None \<and>
    trace (arc_drop a st') = trace st @ closing (endpoint (arc_at st a))"
proof -
  let ?st = "(clear_last_error t st)\<lparr>registry :=
    lock_set (AList.delete h (guarded (registry st))) (registry st)\<rparr>"
  note r = registered_arc [OF assms(1,2)]
  from arcs_wfD(3) [OF assms(1) r] assms(2) have two: "strong (arc_at st a) = 2" "ep_wf (endpoint (arc_at st a))"
    by (auto simp: refs_def)
  moreover have at: "arc_at ?st a = arc_at st a" by (simp add: arc_at_def)
  ultimately have drop: "arc_drop a ?st = set_arc a ((arc_at st a)\<lparr>strong := 1\<rparr>) ?st"
    by (simp add: arc_drop_def Let_def)
  from assms(3) have "result = as_c_str StatusOk" and st': "st' = arc_drop a ?st"
    unfolding stop_registered [OF assms(1,2)] by simp_all
  moreover have "arc_drop a st' = st'\<lparr>arcs := AList.delete a (arcs st'),
      trace := trace st @ closing (endpoint (arc_at st a))\<rparr>"
    using two by (simp add: st' drop arc_drop_def [of a "set_arc a _ _"] Let_def drop_healthy)
  ultimately show ?thesis
    using reg_after_stop [OF assms] by (simp add: drop delete_conv')
qed

lemma stop_waits_for_calls_in_flight_witness:
  "\<exists>st st'. lookup 1 demo_server = (Some 0, st) \<and>
     rk_quic_server_stop 2 1 st = (as_c_str StatusOk, st') \<and> trace st' = trace st"
proof -
  have "fst (lookup 1 demo_server) = Some 0"
    using demo_server_reg lock_registry [OF demo_server_wf] by (simp add: lookup_def reg_def)
  then obtain st where l: "lookup 1 demo_server = (Some 0, st)" by (metis prod.collapse)
  note w = lookup_wf [OF demo_server_wf l]
  then have "reg st 1 = Some 0" using demo_server_reg by (simp add: reg_def)
  moreover obtain r st' where s: "rk_quic_server_stop 2 1 st = (r, st')" by fastforce
  ultimately show ?thesis using stop_waits_for_calls_in_flight [of 0 st 1 2 r st'] w l by auto
qed

end
