(* ===== verification/RkPoll.thy ===== *)
theory RkPoll
  imports RkStop
begin

text \<open>
  Polling for events through the C ABI, and the detail of a failed call.
\<close>

section \<open>Polling\<close>

definition pending :: "'a process_scheme \<Rightarrow> nat \<Rightarrow> Event list" where
  "pending st a = buf (guarded (events (endpoint (arc_at st a))))"

lemma next_event_pending:
  assumes "ep_wf ep"
  shows "next_event d None ep =
    (case buf (guarded (events ep)) of
       [] \<Rightarrow> (None, d, ep)
     | e # rest \<Rightarrow> (Some e, 0,
         ep\<lparr>events := lock_set ((guarded (events ep))\<lparr>buf := rest\<rparr>) (events ep)\<rparr>))"
  using assms
  by (simp add: next_event_def ep_wf_def recv_timeout_def lock_set_def split: list.splits)

lemma arc_at_drop_shared:
  "1 < strong (arc_at st a) \<Longrightarrow>
     arc_at (arc_drop a st) a = (arc_at st a)\<lparr>strong := strong (arc_at st a) - 1\<rparr>"
  by (simp add: arc_drop_def Let_def)

lemma trace_drop_shared: "1 < strong (arc_at st a) \<Longrightarrow> trace (arc_drop a st) = trace st"
  by (simp add: arc_drop_def Let_def)

lemma arc_at_trace [simp]: "arc_at (st\<lparr>trace := tr\<rparr>) a = arc_at st a"
  by (simp add: arc_at_def)

lemma arc_at_cells [simp]:
  "arc_at (st\<lparr>cells_ptr := cp\<rparr>) a = arc_at st a" "arc_at (clear_last_error t st) a = arc_at st a"
  "arc_at (set_last_error t m st) a = arc_at st a"
  "arc_at (snd (into_owned_c_string v st)) a = arc_at st a"
  by (simp_all add: arc_at_def into_owned_c_string_def clear_last_error_def set_last_error_def Let_def)

lemma set_endpoint_frame [simp]:
  "registry (set_endpoint a ep st) = registry st" "trace (set_endpoint a ep st) = trace st"
  "last_error (set_endpoint a ep st) = last_error st" "heap (set_endpoint a ep st) = heap st"
  "next_ptr (set_endpoint a ep st) = next_ptr st" "cells_ptr (set_endpoint a ep st) = cells_ptr st"
  "arc_at (set_endpoint a ep st) a = (arc_at st a)\<lparr>endpoint := ep\<rparr>"
  by (simp_all add: set_endpoint_def)

lemma lookup_registered:
  "arcs_wf held st \<Longrightarrow> reg st h = Some a \<Longrightarrow> lookup h st = (Some a, arc_clone a st)"
  by (simp add: lookup_def lock_registry reg_def)

lemma registered_healthy:
  "arcs_wf held st \<Longrightarrow> reg st h = Some a \<Longrightarrow> ep_wf (endpoint (arc_at st a)) \<and> 0 < strong (arc_at st a)"
  using arcs_wfD(3) registered_arc by metis

lemma strong_clone [simp]: "strong (arc_at (arc_clone a st) a) = Suc (strong (arc_at st a))"
  by (simp add: arc_clone_def)

lemma poll_oldest:
  assumes "arcs_wf held st" and "ffi_wf st" and "reg st h = Some a" and "out \<noteq> 0"
    and "rk_quic_server_poll x t h ms out None st = (result, st')"
  shows "case pending st a of
      [] \<Rightarrow> result = as_c_str WouldBlock \<and> map_of (cells_ptr st') out = Some 0 \<and> pending st' a = [] \<and>
        heap st' = heap st
    | e # rest \<Rightarrow> pending st' a = rest \<and>
        (case x_json_to_string x (event_object e) of
           Inr json \<Rightarrow> result = as_c_str StatusOk \<and>
             (\<exists>p mem. p \<noteq> 0 \<and> map_of (heap st) p = None \<and> map_of (cells_ptr st') out = Some p \<and>
                heap st' = AList.update p mem (heap st) \<and>
                c_read mem = Some (if NUL \<in> set json then NUL_REPLACEMENT else json))
         | Inl why \<Rightarrow> result = as_c_str Panic \<and> map_of (cells_ptr st') out = Some 0 \<and> heap st' = heap st \<and>
             last_error st' t = Some (''event could not be serialised: '' @ why))"
proof -
  let ?st1 = "(clear_last_error t st)\<lparr>cells_ptr := write_out out 0 (cells_ptr st)\<rparr>"
  let ?st2 = "arc_clone a ?st1" and ?ep = "endpoint (arc_at st a)"
  note ok = registered_healthy [OF assms(1,3)]
  have look: "lookup h ?st1 = (Some a, ?st2)"
    using assms(1,3) by (intro lookup_registered [of held]) simp_all
  have ep2: "endpoint (arc_at ?st2 a) = ?ep" by simp
  have st2: "strong (arc_at ?st2 a) = Suc (strong (arc_at st a))" by simp
  show ?thesis
  proof (cases "pending st a")
    case Nil
    with assms(4,5) ok look show ?thesis
      by (auto simp: rk_quic_server_poll_def Let_def next_event_pending pending_def ep2
          arc_at_drop_shared map_of_write_out)
  next
    case (Cons e rest)
    let ?ep' = "?ep\<lparr>events := lock_set ((guarded (events ?ep))\<lparr>buf := rest\<rparr>) (events ?ep)\<rparr>"
    let ?st3 = "set_endpoint a ?ep' ?st2"
    have ne: "next_event (poll_timeout ms) None ?ep = (Some e, 0, ?ep')"
      using ok Cons by (simp add: next_event_pending pending_def)
    have go: "rk_quic_server_poll x t h ms out None st =
      guard (case x_json_to_string x (event_object e) of
        Inr json \<Rightarrow> (case into_owned_c_string json ?st3 of (p, st4) \<Rightarrow>
          (Returned StatusOk, arc_drop a (st4\<lparr>cells_ptr := write_out out p (cells_ptr st4)\<rparr>)))
      | Inl why \<Rightarrow> (Returned Panic,
          arc_drop a (set_last_error t (''event could not be serialised: '' @ why) ?st3)))"
      using look ne by (simp add: rk_quic_server_poll_def Let_def ep2)
    show ?thesis
    proof (cases "x_json_to_string x (event_object e)")
      case (Inl why)
      with Cons assms(4,5) ok show ?thesis
        unfolding go by (auto simp: pending_def arc_at_drop_shared map_of_write_out)
    next
      case (Inr json)
      obtain p st4 where io: "into_owned_c_string json ?st3 = (p, st4)" by fastforce
      have p: "p = next_ptr st" and mem: "heap st4 = AList.update p ((if NUL \<in> set json then NUL_REPLACEMENT else json) @ [NUL]) (heap st)"
        using io by (auto simp: into_owned_c_string_def Let_def)
      have at: "arc_at st4 a = arc_at ?st3 a"
        using arc_at_cells(4) [of json ?st3 a] io by simp
      from assms(2) p have "p \<noteq> 0" "map_of (heap st) p = None"
        by (simp_all add: ffi_wf_fresh) (auto simp: ffi_wf_def)
      moreover have "c_read ((if NUL \<in> set json then NUL_REPLACEMENT else json) @ [NUL]) =
          Some (if NUL \<in> set json then NUL_REPLACEMENT else json)"
        using NUL_not_in_replacement by (intro c_read_terminated) simp
      ultimately show ?thesis
        using Inr Cons assms(4,5) ok unfolding go io
        by (auto simp: pending_def arc_at_drop_shared map_of_write_out at io mem)
    qed
  qed
qed

text \<open>
  C12: A poll that finds an event hands it over completely: the oldest event leaves the queue and
  no other does, the answer is \<open>ok\<close>, and the caller's pointer is a new string that reads as the
  event's JSON and that the caller owns; an empty queue answers \<open>wouldBlock\<close> with a null pointer
  and stays empty; an event that cannot be serialised answers \<open>panic\<close> with a null pointer and a
  detail, and is lost.
\<close>

theorem poll_hands_over_oldest:
  assumes "arcs_wf held st" and "ffi_wf st" and "reg st h = Some a" and "out \<noteq> 0"
    and "rk_quic_server_poll x t h ms out None st = (result, st')"
  shows "case pending st a of
      [] \<Rightarrow> result = as_c_str WouldBlock \<and> map_of (cells_ptr st') out = Some 0 \<and> pending st' a = []
    | e # rest \<Rightarrow> pending st' a = rest \<and>
        (case x_json_to_string x (event_object e) of
           Inr json \<Rightarrow> result = as_c_str StatusOk \<and>
             (\<exists>p mem. p \<noteq> 0 \<and> map_of (heap st) p = None \<and> map_of (cells_ptr st') out = Some p \<and>
                map_of (heap st') p = Some mem \<and>
                c_read mem = Some (if NUL \<in> set json then NUL_REPLACEMENT else json))
         | Inl why \<Rightarrow> result = as_c_str Panic \<and> map_of (cells_ptr st') out = Some 0 \<and>
             last_error st' t = Some (''event could not be serialised: '' @ why))"
proof -
  note o = poll_oldest [OF assms]
  show ?thesis
  proof (cases "pending st a")
    case (Cons e rest)
    with o show ?thesis by (cases "x_json_to_string x (event_object e)") fastforce+
  qed (use o in simp)
qed

text \<open>A process with one connected client, whose first event waits.\<close>

definition demo_connected :: process where
  "demo_connected = snd (connect calm demo_client initial_process)"

lemma demo_connected_facts:
  "arcs_wf [] demo_connected" "ffi_wf demo_connected" "reg demo_connected 2 = Some 0"
  "pending demo_connected 0 = [SessionOpened 1 [] ''https://localhost/rk'']"
  "next_ptr demo_connected = 1"
proof -
  have "\<exists>st. connect calm demo_client initial_process = (Inr (2, 1), st)"
    by (simp add: connect_def demo_client_def calm_def Let_def next_handle_def register_def arc_new_def)
  then obtain st where s: "connect calm demo_client initial_process = (Inr (2, 1), st)" by blast
  then have d: "demo_connected = st" by (simp add: demo_connected_def)
  from connect_arcs_wf [OF arcs_wf_initial s] show "arcs_wf [] demo_connected" unfolding d .
  have c: "core st = core initial_process" by (rule boundary_core [OF boundary_connect [OF s]])
  with ffi_wf_initial show "ffi_wf demo_connected" unfolding d by (simp add: core_def ffi_wf_def)
  from c show "next_ptr demo_connected = 1"
    unfolding d by (simp add: core_def initial_process_def ffi_state.defs empty_ffi_def)
  show "reg demo_connected 2 = Some 0"
    "pending demo_connected 0 = [SessionOpened 1 [] ''https://localhost/rk'']"
    by (simp_all add: demo_connected_def connect_def demo_client_def calm_def Let_def next_handle_def
        register_def arc_new_def reg_def pending_def arc_at_def emit_on_def emit_buf
        live_endpoint_def sync_channel_def EVENT_QUEUE_DEPTH_def)
qed

theorem poll_hands_over_oldest_witness:
  "\<exists>st' p. rk_quic_server_poll calm 1 2 100 5 None demo_connected = (as_c_str StatusOk, st') \<and>
     p \<noteq> 0 \<and> map_of (cells_ptr st') 5 = Some p \<and> pending st' 0 = []"
proof -
  obtain r st' where s: "rk_quic_server_poll calm 1 2 100 5 None demo_connected = (r, st')" by fastforce
  have j: "x_json_to_string calm e = Inr ''{}''" for e by (simp add: calm_def)
  from poll_hands_over_oldest [OF demo_connected_facts(1,2,3) _ s] s show ?thesis
    by (auto simp: demo_connected_facts(4) j)
qed

text \<open>
  Passing a null pointer to a poll loses the event: the call answers \<open>ok\<close>, the oldest event
  has left the queue, its JSON has been allocated, and no cell of the caller holds its address.
\<close>

lemma poll_without_pointer_loses_event:
  assumes "arcs_wf held st" and "ffi_wf st" and "reg st h = Some a" and "pending st a = e # rest"
    and "x_json_to_string x (event_object e) = Inr json"
    and "rk_quic_server_poll x t h ms 0 None st = (result, st')"
  shows "result = as_c_str StatusOk \<and> pending st' a = rest \<and> cells_ptr st' = cells_ptr st \<and>
    map_of (heap st) (next_ptr st) = None \<and> map_of (heap st') (next_ptr st) \<noteq> None"
proof -
  let ?st1 = "clear_last_error t st"
  let ?st2 = "arc_clone a ?st1" and ?ep = "endpoint (arc_at st a)"
  let ?ep' = "?ep\<lparr>events := lock_set ((guarded (events ?ep))\<lparr>buf := rest\<rparr>) (events ?ep)\<rparr>"
  let ?st3 = "set_endpoint a ?ep' ?st2"
  note ok = registered_healthy [OF assms(1,3)]
  have look: "lookup h ?st1 = (Some a, ?st2)"
    using assms(1,3) by (intro lookup_registered [of held]) simp_all
  have ne: "next_event (poll_timeout ms) None ?ep = (Some e, 0, ?ep')"
    using ok assms(4) by (simp add: next_event_pending pending_def)
  obtain p st4 where io: "into_owned_c_string json ?st3 = (p, st4)" by fastforce
  have p: "p = next_ptr st" using io by (auto simp: into_owned_c_string_def Let_def)
  have at: "arc_at st4 a = arc_at ?st3 a" and cp: "cells_ptr st4 = cells_ptr st"
    using arc_at_cells(4) [of json ?st3 a] into_owned_frame(4) [of json ?st3] io by simp_all
  have ep2: "endpoint (arc_at ?st2 a) = ?ep" by simp
  have "result = as_c_str StatusOk" and "st' = arc_drop a (st4\<lparr>cells_ptr := cells_ptr st4\<rparr>)"
    using look ne assms(5,6) io by (simp_all add: rk_quic_server_poll_def Let_def ep2 write_out_def)
  with ok at cp p ffi_wf_fresh [OF assms(2)] into_owned_readable [OF io] show ?thesis
    by (auto simp: pending_def arc_at_drop_shared)
qed

lemma poll_without_pointer_loses_event_witness:
  "\<exists>st'. rk_quic_server_poll calm 1 2 100 0 None demo_connected = (as_c_str StatusOk, st') \<and>
     pending st' 0 = [] \<and> map_of (heap st') 1 \<noteq> None"
proof -
  obtain r st' where s: "rk_quic_server_poll calm 1 2 100 0 None demo_connected = (r, st')" by fastforce
  have j: "x_json_to_string calm (event_object (SessionOpened 1 [] ''https://localhost/rk'')) = Inr ''{}''"
    by (simp add: calm_def)
  from poll_without_pointer_loses_event [OF demo_connected_facts(1,2,3,4) j s] s show ?thesis
    by (simp add: demo_connected_facts(5))
qed


section \<open>The detail of a failure\<close>

lemma same_detail:
  "lookup h st = (r1, st1) \<Longrightarrow> last_error st1 = last_error st"
  "remove h st = (r2, st2) \<Longrightarrow> last_error st2 = last_error st"
  "start x c st = (r3, st3) \<Longrightarrow> last_error st3 = last_error st"
  "connect x cc st = (r4, st4) \<Longrightarrow> last_error st4 = last_error st"
  "open_stream x h sid st = (r5, st5) \<Longrightarrow> last_error st5 = last_error st"
  by (drule core_steps, simp add: core_def)+

fun reports_detail :: "api_call \<Rightarrow> bool" where
  "reports_detail (ServerStart _ _) = True"
| "reports_detail (ClientConnect _ _ _) = True"
| "reports_detail (ClientOpenStream _ _ _) = True"
| "reports_detail _ = False"

lemma into_owned_detail: "into_owned_c_string v st = (p, st') \<Longrightarrow> last_error st' = last_error st"
  using into_owned_frame(1) [of v st] by simp

text \<open>No failure is reported under the name of success.\<close>

lemma failures_are_not_ok:
  "config_parse certs key cfg \<noteq> Inl (StatusOk, m)"
  "identity_from x pc \<noteq> Inl (StatusOk, m)"
  "register h r st \<noteq> (Inl (StatusOk, m), st')"
  by (auto simp: config_parse_def identity_from_def register_def
      Let_def split: option.splits sum.splits prod.splits if_splits PrivateKeyDer.splits)

lemma client_config_not_ok: "client_config_parse dbg ccfg \<noteq> Returned (Inl (StatusOk, m))"
  by (auto simp: client_config_parse_def dest: parse_hash_errors
      split: sum.splits prod.splits if_splits outcome.splits)

lemma start_not_ok: "start x cfg st \<noteq> (Inl (StatusOk, m), st')"
  by (auto simp: start_def next_handle_def bind_status_def Let_def failures_are_not_ok
      split: sum.splits prod.splits if_splits ErrorKind.splits)

lemma connect_not_ok: "connect x cfg st \<noteq> (Inl (StatusOk, m), st')"
  by (auto simp: connect_def next_handle_def connect_status_def Let_def failures_are_not_ok
      split: sum.splits prod.splits if_splits)

lemma open_stream_not_ok: "open_stream x h sid st \<noteq> (Inl (StatusOk, m), st')"
  by (auto simp: open_stream_def open_stream_on_def Let_def
      split: sum.splits prod.splits if_splits option.splits)

lemma ok_no_detail:
  assumes "api x t c st = (as_c_str StatusOk, st')"
  shows "last_error st' t = None"
  using assms
  by (cases c)
    (auto simp: rk_quic_server_start_def rk_quic_server_stop_def rk_quic_server_local_port_def
      rk_quic_server_poll_def rk_quic_session_send_def rk_quic_stream_send_def rk_quic_stream_close_def
      rk_quic_client_connect_def rk_quic_client_open_stream_def Let_def
      failures_are_not_ok client_config_not_ok start_not_ok connect_not_ok open_stream_not_ok
      dest!: same_detail into_owned_detail
      split: option.splits sum.splits prod.splits outcome.splits)

lemma failure_detail:
  assumes "api x t c st = (result, st')" "reports_detail c" "result \<noteq> as_c_str StatusOk"
    "result \<noteq> as_c_str Panic"
  shows "last_error st' t \<noteq> None"
  using assms
  by (cases c)
    (auto simp: rk_quic_server_start_def rk_quic_client_connect_def rk_quic_client_open_stream_def Let_def
      split: option.splits sum.splits prod.splits outcome.splits)

end
