(* ===== verification/RkLifecycle.thy ===== *)
theory RkLifecycle
  imports RkSession
begin

text \<open>
  The invariant of a server endpoint under every interleaving of its tasks with the calls that
  read events and close streams: which session is in which table, and how far its events have
  got, is determined by the point its task has reached.
\<close>

section \<open>The tables as functions\<close>

definition sess_of :: "Endpoint \<Rightarrow> u64 \<Rightarrow> conn option" where
  "sess_of ep = map_of (guarded (sessions ep))"

definition strm_of :: "Endpoint \<Rightarrow> u64 \<times> u64 \<Rightarrow> sendstream option" where
  "strm_of ep = map_of (guarded (streams ep))"

lemma tables_emit [simp]: "sess_of (emit_on e ep) = sess_of ep" "strm_of (emit_on e ep) = strm_of ep"
  by (simp_all add: sess_of_def strm_of_def emit_on_def)

lemma tables_emits [simp]:
  "sess_of (fold emit_on evs ep) = sess_of ep" "strm_of (fold emit_on evs ep) = strm_of ep"
  by (induction evs arbitrary: ep) simp_all

lemma ep_wf_emits: "ep_wf ep \<Longrightarrow> ep_wf (fold emit_on evs ep)"
  by (induction evs arbitrary: ep) (simp_all add: ep_wf_emit)

lemma with_sessions_healthy:
  "ep_wf (endpoint r) \<Longrightarrow> with_sessions f r =
     r\<lparr>endpoint := (endpoint r)\<lparr>sessions := lock_set (f (guarded (sessions (endpoint r)))) (sessions (endpoint r))\<rparr>\<rparr>"
  by (simp add: with_sessions_def ep_wf_def)

lemma with_streams_healthy:
  "ep_wf (endpoint r) \<Longrightarrow> with_streams f r =
     r\<lparr>endpoint := (endpoint r)\<lparr>streams := lock_set (f (guarded (streams (endpoint r)))) (streams (endpoint r))\<rparr>\<rparr>"
  by (simp add: with_streams_def ep_wf_def)

section \<open>What a task's point says about its session\<close>

text \<open>Whether the session is in the table of sessions.\<close>

fun listed :: "task \<Rightarrow> bool" where
  "listed (AnnounceOpen _ _ _ _) = True"
| "listed (Serve _ _ _) = True"
| "listed (ReadUni _ _ _) = True"
| "listed (KeepStream _ _ _ _ _) = True"
| "listed (AnnounceStream _ _ _ _ _) = True"
| "listed (Forget _ _ _) = True"
| "listed _ = False"

text \<open>Whether the table of streams is known to hold nothing of the session.\<close>

fun stream_free :: "task \<Rightarrow> bool" where
  "stream_free (Register _ _ _ _) = True"
| "stream_free (AnnounceOpen _ _ _ _) = True"
| "stream_free (AnnounceClosed _ _) = True"
| "stream_free _ = False"

fun open_phase :: "task \<Rightarrow> phase" where
  "open_phase (Register _ _ _ _) = NotYet"
| "open_phase (AnnounceOpen _ _ _ _) = NotYet"
| "open_phase _ = Open"

fun server_task :: "task \<Rightarrow> bool" where
  "server_task (Serve side _ _) = (side = ServerSide)"
| "server_task (ReadUni side _ _) = (side = ServerSide)"
| "server_task (KeepStream side _ _ _ _) = (side = ServerSide)"
| "server_task (AnnounceStream side _ _ _ _) = (side = ServerSide)"
| "server_task (Forget side _ _) = (side = ServerSide)"
| "server_task (ApiOpening _ _) = False"
| "server_task (ApiOpened _ _ _) = False"
| "server_task _ = True"

fun reader_of :: "task \<Rightarrow> u64 option" where
  "reader_of (ReadBi sid _ _) = Some sid"
| "reader_of (AnnounceStreamClosed sid _) = Some sid"
| "reader_of _ = None"

definition handed :: "node \<Rightarrow> u64 \<Rightarrow> bool" where
  "handed n s \<longleftrightarrow> 1 \<le> unat s \<and> unat s \<le> accepted n"

definition sess_ok :: "node \<Rightarrow> u64 \<Rightarrow> bool" where
  "sess_ok n s \<longleftrightarrow>
     (case stage (tasks n) s of
        None \<Rightarrow>
          sess_of (endpoint n) s = None \<and> (\<forall>q. strm_of (endpoint n) (s, q) = None) \<and>
          phase s (history n) = (if handed n s then Over else NotYet)
      | Some t \<Rightarrow>
          handed n s \<and> (sess_of (endpoint n) s \<noteq> None \<longleftrightarrow> listed t) \<and>
          (stream_free t \<longrightarrow> (\<forall>q. strm_of (endpoint n) (s, q) = None)) \<and>
          phase s (history n) = open_phase t)"

definition server_inv :: "node \<Rightarrow> bool" where
  "server_inv n \<longleftrightarrow>
     ep_wf (endpoint n) \<and> uniq (tasks n) \<and> (\<forall>t \<in> set (tasks n). server_task t) \<and>
     unat (next_session n) = Suc (accepted n) \<and> (\<forall>s. sess_ok n s) \<and>
     (\<forall>t \<in> set (tasks n). \<forall>s. reader_of t = Some s \<longrightarrow> phase s (history n) \<in> {Open, Over})"

lemma open_phase_cases: "open_phase t \<in> {NotYet, Open}"
  by (cases t) simp_all

lemma sess_ok_phase: "sess_ok n s \<Longrightarrow> phase s (history n) \<noteq> Broken"
  using open_phase_cases by (auto simp: sess_ok_def split: option.splits)
    (metis insertE phase.distinct singletonD)+

lemma server_inv_start: "server_inv (server_node rt port path)"
  by (auto simp: server_inv_def server_node_def uniq_def sess_ok_def stage_def handed_def sess_of_def
      strm_of_def live_endpoint_def [of rt port] simp del: One_nat_def)
    (simp_all add: ep_wf_def sync_channel_def channel_live_def)

section \<open>One move keeps the invariant\<close>

text \<open>
  The general step: what has to be checked of the session the task serves after the move, of
  the one it served before, and of every other.
\<close>

lemma settle_sess_ok:
  fixes n n1 n2 :: node
  assumes n2_def: "n2 = settle i t' sp evs n1" and ok: "\<And>s. sess_ok n s" and u: "uniq (tasks n)" and i: "i < length (tasks n)"
    and same: "tasks n1 = tasks n" "history n1 = history n"
    and sp: "\<forall>t \<in> set sp. session_of t = None"
    and fresh: "\<And>s. session_of t' = Some s \<Longrightarrow>
      session_of (tasks n ! i) = Some s \<or> stage (tasks n) s = None"
    and now: "\<And>s. session_of t' = Some s \<Longrightarrow>
      handed n2 s \<and> (sess_of (endpoint n1) s \<noteq> None \<longleftrightarrow> listed t') \<and>
      (stream_free t' \<longrightarrow> (\<forall>q. strm_of (endpoint n1) (s, q) = None)) \<and>
      phase s (history n @ evs) = open_phase t'"
    and before: "\<And>s. session_of (tasks n ! i) = Some s \<Longrightarrow> session_of t' \<noteq> Some s \<Longrightarrow>
      sess_of (endpoint n1) s = None \<and> (\<forall>q. strm_of (endpoint n1) (s, q) = None) \<and>
      phase s (history n @ evs) = Over \<and> handed n2 s"
    and others: "\<And>s. session_of (tasks n ! i) \<noteq> Some s \<Longrightarrow> session_of t' \<noteq> Some s \<Longrightarrow>
      sess_of (endpoint n1) s = sess_of (endpoint n) s \<and>
      (\<forall>q. strm_of (endpoint n1) (s, q) = strm_of (endpoint n) (s, q)) \<and>
      phase s (history n @ evs) = phase s (history n) \<and> handed n2 s = handed n s"
  shows "sess_ok n2 s"
proof -
  have st: "stage (tasks n2) s =
    (if session_of t' = Some s then Some t'
     else if session_of (tasks n ! i) = Some s then None else stage (tasks n) s)"
    using stage_update [OF u i sp fresh] by (simp add: n2_def settle_def same)
  have tb: "sess_of (endpoint n2) = sess_of (endpoint n1)" "strm_of (endpoint n2) = strm_of (endpoint n1)"
    and h: "history n2 = history n @ evs"
    by (simp_all add: n2_def settle_def same)
  show ?thesis
  proof (cases "session_of t' = Some s")
    case True
    with now [OF True] show ?thesis unfolding sess_ok_def by (simp add: st tb h)
  next
    case nt: False
    show ?thesis
    proof (cases "session_of (tasks n ! i) = Some s")
      case True
      with before [OF True nt] nt show ?thesis unfolding sess_ok_def by (simp add: st tb h)
    next
      case False
      from others [OF False nt] ok [of s] False nt show ?thesis
        unfolding sess_ok_def by (simp add: st tb h split: option.splits)
    qed
  qed
qed

text \<open>What the invariant says of the session served by the task that is about to move.\<close>

lemma serving_facts:
  assumes "server_inv n" "i < length (tasks n)" "session_of (tasks n ! i) = Some s"
  shows "handed n s \<and> (sess_of (endpoint n) s \<noteq> None \<longleftrightarrow> listed (tasks n ! i)) \<and>
    (stream_free (tasks n ! i) \<longrightarrow> (\<forall>q. strm_of (endpoint n) (s, q) = None)) \<and>
    phase s (history n) = open_phase (tasks n ! i)"
proof -
  from assms(1) have u: "uniq (tasks n)" and ok: "sess_ok n s" by (simp_all add: server_inv_def)
  from ok show ?thesis by (simp add: sess_ok_def stage_nth [OF u assms(2,3)])
qed

lemma next_session_fresh:
  assumes "server_inv n"
  shows "stage (tasks n) (next_session n) = None \<and> sess_of (endpoint n) (next_session n) = None \<and>
    (\<forall>q. strm_of (endpoint n) (next_session n, q) = None) \<and>
    phase (next_session n) (history n) = NotYet"
proof -
  have nh: "\<not> handed n (next_session n)" and ok: "sess_ok n (next_session n)"
    using assms by (auto simp: server_inv_def handed_def)
  then have "stage (tasks n) (next_session n) = None"
    by (auto simp: sess_ok_def split: option.splits)
  with ok nh show ?thesis by (auto simp: sess_ok_def)
qed

lemma reader_facts:
  assumes "server_inv n" "i < length (tasks n)" "reader_of (tasks n ! i) = Some s"
  shows "phase s (history n) \<in> {Open, Over}"
  using assms nth_mem [OF assms(2)] by (auto simp: server_inv_def)

lemma with_tables:
  assumes "ep_wf (endpoint r)"
  shows "sess_of (endpoint (with_sessions (AList.update sid c) r)) = (sess_of (endpoint r))(sid \<mapsto> c)"
    and "sess_of (endpoint (with_sessions (AList.delete sid) r)) = (sess_of (endpoint r))(sid := None)"
    and "strm_of (endpoint (with_sessions f r)) = strm_of (endpoint r)"
    and "sess_of (endpoint (with_streams g r)) = sess_of (endpoint r)"
    and "strm_of (endpoint (with_streams (AList.update k v) r)) = (strm_of (endpoint r))(k \<mapsto> v)"
    and "strm_of (endpoint (with_streams (retain p) r)) k' =
           (if p k' then strm_of (endpoint r) k' else None)"
    and "ep_wf (endpoint (with_sessions f r))" "ep_wf (endpoint (with_streams g r))"
  using assms
  by (simp_all add: with_sessions_healthy with_streams_healthy sess_of_def strm_of_def
      update_conv' delete_conv' map_of_retain ep_wf_sessions ep_wf_streams)

lemma with_frame [simp]:
  "tasks (with_sessions f r) = tasks r" "tasks (with_streams g r) = tasks r"
  "next_session (with_sessions f r) = next_session r" "next_session (with_streams g r) = next_session r"
  "arc.more (with_sessions f r) = arc.more r" "arc.more (with_streams g r) = arc.more r"
  by (simp_all add: with_sessions_def with_streams_def split: option.splits)

lemma with_frame_node [simp]:
  "history (with_sessions f n) = history n" "history (with_streams g n) = history n"
  "accepted (with_sessions f n) = accepted n" "accepted (with_streams g n) = accepted n"
  by (simp_all add: with_sessions_def with_streams_def split: option.splits)

lemma settle_fields [simp]:
  "endpoint (settle i t' sp evs n) = fold emit_on evs (endpoint n)"
  "tasks (settle i t' sp evs n) = (tasks n)[i := t'] @ sp"
  "next_session (settle i t' sp evs n) = next_session n"
  "history (settle i t' sp evs n) = history n @ evs"
  by (simp_all add: settle_def)

lemma task_step_frame:
  fixes n n1 :: node
  assumes "task_step f t inp n = Some (t', sp, n1, evs)"
  shows "tasks n1 = tasks n" "history n1 = history n" "accepted n1 = accepted n"
    "\<forall>q \<in> set sp. session_of q = None"
    "ep_wf (endpoint n) \<Longrightarrow> ep_wf (endpoint n1)"
    "server_task t \<Longrightarrow> server_task t' \<and> (\<forall>q \<in> set sp. server_task q)"
  using assms
  by (cases t; cases inp; auto simp: with_tables split: if_splits side.splits)+

lemma unat_succ: "unat w < 2 ^ 64 - 1 \<Longrightarrow> unat (w + 1 :: u64) = Suc (unat w)"
  by (simp add: unat_word_ariths)

lemma task_step_session:
  assumes "task_step f t inp n = Some (t', sp, n1, evs)" "stage ts (next_session n) = None"
    and "session_of t' = Some s"
  shows "session_of t = Some s \<or> stage ts s = None"
  using assms by (cases t) (auto split: input.splits if_splits side.splits)

lemma run_task_sess_ok:
  assumes inv: "server_inv n" and i: "i < length (tasks n)" and t: "t = tasks n ! i"
    and step: "task_step f t inp n = Some (t', sp, n1, evs)"
  shows "sess_ok (settle i t' sp evs n1) s"
proof -
  note now = serving_facts [OF inv i, folded t] and new = next_session_fresh [OF inv]
    and rd = reader_facts [OF inv i, folded t]
  have ok: "sess_ok n s" for s using inv by (simp add: server_inv_def)
  have u: "uniq (tasks n)" and wf: "ep_wf (endpoint n)"
    and nx: "unat (next_session n) = Suc (accepted n)" and srv: "server_task t"
    using inv i by (simp_all add: server_inv_def t)
  note fr = task_step_frame [OF step]
  have nx': "unat s = Suc (accepted n) \<longleftrightarrow> s = next_session n" for s
    using nx by (metis unsigned_word_eqI)
  show ?thesis
  proof (rule settle_sess_ok [OF refl ok u i fr(1,2,4)]; (unfold t [symmetric])?)
    fix s assume "session_of t' = Some s"
    then show "session_of t = Some s \<or> stage (tasks n) s = None"
      using task_step_session [OF step, of "tasks n" s] new by simp
  next
    fix s assume "session_of t' = Some s"
    then show "handed (settle i t' sp evs n1) s \<and> (sess_of (endpoint n1) s \<noteq> None \<longleftrightarrow> listed t') \<and>
      (stream_free t' \<longrightarrow> (\<forall>q. strm_of (endpoint n1) (s, q) = None)) \<and>
      phase s (history n @ evs) = open_phase t'"
      using step new now srv wf nx
      by (cases t) (auto simp: with_tables handed_def settle_def split: input.splits if_splits side.splits)
  next
    fix s assume "session_of t = Some s" "session_of t' \<noteq> Some s"
    then show "sess_of (endpoint n1) s = None \<and> (\<forall>q. strm_of (endpoint n1) (s, q) = None) \<and>
      phase s (history n @ evs) = Over \<and> handed (settle i t' sp evs n1) s"
      using step now srv wf
      by (cases t) (auto simp: with_tables handed_def settle_def split: input.splits if_splits side.splits)
  next
    fix s assume "session_of t \<noteq> Some s" "session_of t' \<noteq> Some s"
    then show "sess_of (endpoint n1) s = sess_of (endpoint n) s \<and>
      (\<forall>q. strm_of (endpoint n1) (s, q) = strm_of (endpoint n) (s, q)) \<and>
      phase s (history n @ evs) = phase s (history n) \<and> handed (settle i t' sp evs n1) s = handed n s"
      using step new rd srv wf nx nx'
      by (cases t) (auto simp: with_tables handed_def settle_def le_Suc_eq split: input.splits if_splits side.splits)
  qed
qed

text \<open>A session that has opened stays opened, whatever follows.\<close>

lemma phase_steps_keep: "p \<in> {Open, Over, Broken} \<Longrightarrow> foldl (phase_step s) p h \<in> {Open, Over, Broken}"
proof (induction h arbitrary: p)
  case (Cons e h)
  from Cons.prems have "phase_step s p e \<in> {Open, Over, Broken}" by (cases e) auto
  then show ?case unfolding foldl_Cons by (rule Cons.IH)
qed simp

lemma phase_append: "phase s (h @ h') = foldl (phase_step s) (phase s h) h'"
  by (simp add: phase_def)

lemma task_step_readers:
  assumes "task_step f t inp n = Some (t', sp, n1, evs)" "server_task t"
    and "q = t' \<or> q \<in> set sp" "reader_of q = Some s"
  shows "reader_of t = Some s \<or> session_of t = Some s \<and> open_phase t = Open"
  using assms by (cases t) (auto split: input.splits if_splits side.splits)

lemma task_step_counter:
  assumes "task_step f t inp n = Some (t', sp, n1, evs)" "unat (next_session n) = Suc (accepted n)"
    "accepted (settle i t' sp evs n1) < 2 ^ 64 - 1"
  shows "unat (next_session n1) = Suc (accepted (settle i t' sp evs n1))"
  using assms unat_succ [of "next_session n"]
  by (cases t) (auto simp: settle_def split: input.splits if_splits side.splits)

lemma run_task_inv:
  assumes inv: "server_inv n" and i: "i < length (tasks n)"
    and step: "task_step f (tasks n ! i) inp n = Some (t', sp, n1, evs)"
    and room: "accepted (settle i t' sp evs n1) < 2 ^ 64 - 1"
  shows "server_inv (settle i t' sp evs n1)" (is "server_inv ?n2")
proof -
  note fr = task_step_frame [OF step]
  have srv: "server_task (tasks n ! i)" and u: "uniq (tasks n)" and old: "\<forall>t \<in> set (tasks n). server_task t"
    and nx: "unat (next_session n) = Suc (accepted n)" and wf: "ep_wf (endpoint n)"
    and rd: "\<And>t s. t \<in> set (tasks n) \<Longrightarrow> reader_of t = Some s \<Longrightarrow> phase s (history n) \<in> {Open, Over}"
    using inv i by (simp_all add: server_inv_def)
  have ok: "sess_ok ?n2 s" for s by (rule run_task_sess_ok [OF inv i refl step])
  have ts: "tasks ?n2 = (tasks n)[i := t'] @ sp" by (simp add: fr)
  have mem: "t \<in> set (tasks ?n2) \<Longrightarrow> t \<in> set (tasks n) \<or> t = t' \<or> t \<in> set sp" for t
    unfolding ts using set_update_subset_insert [of "tasks n" i t'] by auto
  have "uniq (tasks ?n2)"
    unfolding ts using task_step_session [OF step, of "tasks n"] next_session_fresh [OF inv]
    by (intro uniq_append [OF uniq_update [OF u i] fr(4)]) simp
  moreover have "phase s (history ?n2) \<in> {Open, Over}" if "t \<in> set (tasks ?n2)" "reader_of t = Some s" for t s
  proof -
    have "phase s (history n) \<in> {Open, Over}"
      using mem [OF that(1)] rd [of t s] rd [OF nth_mem [OF i], of s] that(2)
        task_step_readers [OF step srv _ that(2)] serving_facts [OF inv i, of s] by auto
    then have "phase s (history ?n2) \<in> {Open, Over, Broken}"
      unfolding settle_fields fr(2) phase_append by (intro phase_steps_keep) auto
    with sess_ok_phase [OF ok] show ?thesis by blast
  qed
  moreover have "server_task t" if "t \<in> set (tasks ?n2)" for t
    using mem [OF that] old fr(6) [OF srv] by blast
  ultimately show ?thesis
    using ok task_step_counter [OF step nx room] ep_wf_emits [OF fr(5) [OF wf]]
    unfolding server_inv_def by auto
qed

section \<open>The invariant along every run\<close>

text \<open>A call of the boundary touches the queue, or takes entries out of the table of streams.\<close>

lemma api_inv:
  assumes inv: "server_inv n" and wf: "ep_wf ep"
    and "sess_of ep = sess_of (endpoint n)"
    and "\<And>k. strm_of ep k = None \<or> strm_of ep k = strm_of (endpoint n) k"
  shows "server_inv (n\<lparr>endpoint := ep\<rparr>)"
proof -
  have "sess_ok (n\<lparr>endpoint := ep\<rparr>) s" for s
  proof -
    from inv have "sess_ok n s" by (simp add: server_inv_def)
    then show ?thesis using assms(3,4)
      by (fastforce simp: sess_ok_def handed_def split: option.splits)
  qed
  with inv wf show ?thesis by (simp add: server_inv_def)
qed

lemma next_event_tables:
  "next_event timeout arrival ep = (r, w, ep') \<Longrightarrow> sess_of ep' = sess_of ep \<and> strm_of ep' = strm_of ep"
  by (auto simp: next_event_def sess_of_def strm_of_def split: option.splits sum.splits prod.splits RecvTimeoutError.splits)

lemma stream_close_tables:
  "stream_close x ep sid stream tr = (r, ep', tr') \<Longrightarrow>
     sess_of ep' = sess_of ep \<and> (strm_of ep' k = None \<or> strm_of ep' k = strm_of ep k)"
  by (auto simp: stream_close_def Let_def sess_of_def strm_of_def tab.find_drop lock_get_def
      split: option.splits sum.splits if_splits)

lemma accepted_mono: "node_step x opens n n' \<Longrightarrow> accepted n \<le> accepted n'"
  by (erule node_stepE) (auto simp: settle_def dest: task_step_frame(3))

lemma server_step_inv:
  assumes "node_step x False n n'" "server_inv n" "accepted n' < 2 ^ 64 - 1"
  shows "server_inv n'"
  using assms(1)
proof cases
  case (run_task i inp t' spawned n1 evs)
  with run_task_inv [OF assms(2)] assms(3) show ?thesis by blast
next
  case (api_poll timeout r waited ep)
  from assms(2) have wf: "ep_wf (endpoint n)" by (simp add: server_inv_def)
  from next_event_wf [OF wf api_poll(2)] next_event_tables [OF api_poll(2)] show ?thesis
    unfolding api_poll(1) by (intro api_inv [OF assms(2)]) simp_all
next
  case (api_close sid stream tr r ep tr')
  from assms(2) have wf: "ep_wf (endpoint n)" by (simp add: server_inv_def)
  from stream_close_wf [OF wf api_close(2)] stream_close_tables [OF api_close(2)] show ?thesis
    unfolding api_close(1) by (intro api_inv [OF assms(2)]) simp_all
next
  case api_open
  then show ?thesis by simp
next
  case api_opened
  then show ?thesis by simp
qed

lemma server_reaches_inv:
  assumes "reaches x False (server_node rt port path) n" "accepted n < 2 ^ 64 - 1"
  shows "server_inv n"
  using assms
proof (induction rule: reaches.induct)
  case here
  show ?case by (rule server_inv_start)
next
  case (more n n')
  with accepted_mono [OF more.hyps(2)] show ?case by (intro server_step_inv [OF more.hyps(2)]) simp_all
qed

end
