(* ===== verification/RkRuns.thy ===== *)
theory RkRuns
  imports RkLifecycle
begin

text \<open>
  Runs of an endpoint as data: a move names the task that runs and what it is given, or the
  call of the boundary (a read that has to wait is the read made once an event is there). The moves are exactly the steps of \<open>node_step\<close>, so a run can be
  evaluated, and a situation that can arise is shown by the run that leads to it.
\<close>

section \<open>Moves\<close>

datatype move =
    Run nat input
  | Poll Duration
  | CloseStream u64 u64
  | OpenStream u64
  | OpenedStream u64 sendstream recvstream

fun make_move :: "external \<Rightarrow> bool \<Rightarrow> move \<Rightarrow> node \<Rightarrow> node option" where
  "make_move x opens (Run i inp) n =
     (if i < length (tasks n) then
        (case task_step (x_stream_id x) (tasks n ! i) inp n of
           None \<Rightarrow> None
         | Some (t', spawned, n', evs) \<Rightarrow> Some (settle i t' spawned evs n'))
      else None)"
| "make_move x opens (Poll timeout) n =
     Some (n\<lparr>endpoint := snd (snd (next_event timeout None (endpoint n)))\<rparr>)"
| "make_move x opens (CloseStream sid stream) n =
     Some (n\<lparr>endpoint := fst (snd (stream_close x (endpoint n) sid stream []))\<rparr>)"
| "make_move x opens (OpenStream sid) n =
     (if opens then
        (case lock_get (sessions (endpoint n)) of
           None \<Rightarrow> None
         | Some m \<Rightarrow> map_option (\<lambda>c. n\<lparr>tasks := tasks n @ [ApiOpening sid c]\<rparr>) (map_of m sid))
      else None)"
| "make_move x opens (OpenedStream sid s rcv) n =
     (if opens then
        (case lock_get (sessions (endpoint n)) of
           None \<Rightarrow> None
         | Some m \<Rightarrow> map_option (\<lambda>c. (with_streams (AList.update (sid, x_stream_id x s) s) n)
             \<lparr>tasks := tasks n @ [ReadBi sid (x_stream_id x s) rcv]\<rparr>) (map_of m sid))
      else None)"

fun make_moves :: "external \<Rightarrow> bool \<Rightarrow> move list \<Rightarrow> node \<Rightarrow> node option" where
  "make_moves x opens [] n = Some n"
| "make_moves x opens (m # ms) n =
     (case make_move x opens m n of None \<Rightarrow> None | Some n' \<Rightarrow> make_moves x opens ms n')"

lemma stream_close_trace:
  "fst (snd (stream_close x ep sid stream tr)) = fst (snd (stream_close x ep sid stream tr'))"
  by (simp add: stream_close_def Let_def split: option.splits sum.splits)

lemma make_move_step: "make_move x opens m n = Some n' \<Longrightarrow> node_step x opens n n'"
proof (cases m)
  case (Poll timeout)
  assume "make_move x opens m n = Some n'"
  with Poll show ?thesis
    by (cases "next_event timeout None (endpoint n)") (auto split: if_splits intro: api_poll)
next
  case (CloseStream sid stream)
  assume "make_move x opens m n = Some n'"
  with CloseStream show ?thesis
    by (cases "stream_close x (endpoint n) sid stream []") (auto intro: api_close)
qed (auto split: if_splits option.splits intro: run_task api_open api_opened)

lemma step_is_move: "node_step x opens n n' \<Longrightarrow> \<exists>m. make_move x opens m n = Some n'"
proof (erule node_stepE)
  fix i inp t' spawned n1 evs
  assume "n' = settle i t' spawned evs n1" "i < length (tasks n)"
    "task_step (x_stream_id x) (tasks n ! i) inp n = Some (t', spawned, n1, evs)"
  then have "make_move x opens (Run i inp) n = Some n'" by simp
  then show ?thesis ..
next
  fix timeout r waited ep
  assume "n' = n\<lparr>endpoint := ep\<rparr>" "next_event timeout None (endpoint n) = (r, waited, ep)"
  then have "make_move x opens (Poll timeout) n = Some n'" by simp
  then show ?thesis ..
next
  fix sid stream tr r ep tr'
  assume "n' = n\<lparr>endpoint := ep\<rparr>" "stream_close x (endpoint n) sid stream tr = (r, ep, tr')"
  then have "make_move x opens (CloseStream sid stream) n = Some n'"
    using stream_close_trace [of x "endpoint n" sid stream "[]" tr] by simp
  then show ?thesis ..
next
  fix m sid c
  assume "n' = n\<lparr>tasks := tasks n @ [ApiOpening sid c]\<rparr>" "opens"
    "lock_get (sessions (endpoint n)) = Some m" "map_of m sid = Some c"
  then have "make_move x opens (OpenStream sid) n = Some n'" by simp
  then show ?thesis ..
next
  fix m sid c s rcv
  assume "n' = (with_streams (AList.update (sid, x_stream_id x s) s) n)
      \<lparr>tasks := tasks n @ [ReadBi sid (x_stream_id x s) rcv]\<rparr>" "opens"
    "lock_get (sessions (endpoint n)) = Some m" "map_of m sid = Some c"
  then have "make_move x opens (OpenedStream sid s rcv) n = Some n'" by simp
  then show ?thesis ..
qed

lemma make_moves_append:
  "make_moves x opens (ms @ ms') n =
     (case make_moves x opens ms n of None \<Rightarrow> None | Some n' \<Rightarrow> make_moves x opens ms' n')"
  by (induction ms arbitrary: n) (simp_all split: option.splits)

lemma reaches_trans:
  assumes "reaches x opens n1 n2" "reaches x opens n0 n1"
  shows "reaches x opens n0 n2"
  using assms by (induction rule: reaches.induct) (auto intro: reaches.intros)

lemma make_moves_reaches: "make_moves x opens ms n = Some n' \<Longrightarrow> reaches x opens n n'"
proof (induction ms arbitrary: n)
  case Nil
  then show ?case by (simp add: here)
next
  case (Cons m ms)
  then obtain n1 where n1: "make_move x opens m n = Some n1" "make_moves x opens ms n1 = Some n'"
    by (auto split: option.splits)
  from more [OF here make_move_step [OF n1(1)]] Cons.IH [OF n1(2)] show ?case
    by (rule reaches_trans [rotated])
qed

lemma reaches_iff_moves: "reaches x opens n n' \<longleftrightarrow> (\<exists>ms. make_moves x opens ms n = Some n')"
proof
  show "\<exists>ms. make_moves x opens ms n = Some n'" if "reaches x opens n n'"
    using that
  proof (induction rule: reaches.induct)
    case here
    show ?case by (rule exI [of _ "[]"]) simp
  next
    case (more n1 n2)
    then obtain ms m where "make_moves x opens ms n = Some n1" "make_move x opens m n1 = Some n2"
      using step_is_move by blast
    then have "make_moves x opens (ms @ [m]) n = Some n2" by (simp add: make_moves_append)
    then show ?case ..
  qed
qed (auto intro: make_moves_reaches)

end
