(* ===== verification/RkSafety.thy ===== *)
theory RkSafety
  imports RkRuns RkScenario
begin

text \<open>
  What every run of an endpoint guarantees: the order of a session's events, what a closed
  session leaves behind, which requests become sessions, what a reader is handed; and the runs
  that show what is not guaranteed.
\<close>

section \<open>Helpers\<close>

definition opened_ids :: "Event list \<Rightarrow> u64 list" where
  "opened_ids h = concat (map (\<lambda>e. case e of SessionOpened s _ _ \<Rightarrow> [s] | _ \<Rightarrow> []) h)"

lemma opened_ids_snoc:
  "opened_ids (h @ [e]) = opened_ids h @ (case e of SessionOpened s _ _ \<Rightarrow> [s] | _ \<Rightarrow> [])"
  by (simp add: opened_ids_def)

lemma phase_unbroken_prefix: "phase s (h @ h') \<noteq> Broken \<Longrightarrow> phase s h \<noteq> Broken"
  by (auto simp: phase_append phase_Broken)

lemma phase_step_opens:
  "phase_step s p e \<noteq> Broken \<Longrightarrow>
     phase_step s p e \<noteq> NotYet \<longleftrightarrow> p \<noteq> NotYet \<or> (\<exists>a q. e = SessionOpened s a q)"
  by (cases e) (auto split: if_splits)

lemma opened_once:
  assumes "\<And>s. phase s h \<noteq> Broken"
  shows "distinct (opened_ids h) \<and> (\<forall>s. s \<in> set (opened_ids h) \<longleftrightarrow> phase s h \<noteq> NotYet)"
  using assms
proof (induction h rule: rev_induct)
  case Nil
  then show ?case by (simp add: opened_ids_def)
next
  case (snoc e h)
  then have "\<And>s. phase s h \<noteq> Broken" using phase_unbroken_prefix by blast
  with snoc.IH have ih: "distinct (opened_ids h)" "\<And>s. s \<in> set (opened_ids h) \<longleftrightarrow> phase s h \<noteq> NotYet"
    by auto
  have ok: "phase_step s (phase s h) e \<noteq> Broken" for s using snoc.prems [of s] by simp
  have new: "phase s h = NotYet" if "e = SessionOpened s a q" for s a q
    using ok [of s] that by (auto split: if_splits)
  have "distinct (opened_ids (h @ [e]))"
    using ih new by (cases e) (auto simp: opened_ids_snoc)
  moreover have "s \<in> set (opened_ids (h @ [e])) \<longleftrightarrow> phase s (h @ [e]) \<noteq> NotYet" for s
    using ih phase_step_opens [OF ok [of s]] by (cases e) (auto simp: opened_ids_snoc)
  ultimately show ?case by blast
qed

lemma healthy_send:
  assumes "ep_wf ep"
  shows "fst (send x ep s p rel tr) \<in> {Inl UnknownHandle, Inl PeerGone, Inr ()}"
    and "fst (stream_send x ep s q p tr) \<in> {Inl UnknownHandle, Inl PeerGone, Inr ()}"
    and "fst (stream_close x ep s q tr) \<in> {Inl UnknownHandle, Inl PeerGone, Inr ()}"
  using assms
  by (auto simp: send_def stream_send_def stream_close_def Let_def ep_wf_def
      split: option.splits sum.splits)

lemma unknown_session:
  assumes "ep_wf ep" "sess_of ep s = None"
  shows "send x ep s p rel tr = (Inl UnknownHandle, tr)"
  using assms by (simp add: send_def sess_of_def ep_wf_def)

lemma unknown_stream:
  assumes "ep_wf ep" "strm_of ep (s, q) = None"
  shows "stream_send x ep s q p tr = (Inl UnknownHandle, tr)"
    and "stream_close x ep s q tr = (Inl UnknownHandle, ep, tr)"
proof -
  from assms have h: "lock_get (streams ep) = Some (guarded (streams ep))"
    and none: "map_of (guarded (streams ep)) (s, q) = None"
    by (simp_all add: ep_wf_def strm_of_def)
  from none have "AList.delete (s, q) (guarded (streams ep)) = guarded (streams ep)"
    by (simp add: delete_idem map_of_eq_None_iff)
  with h none show "stream_close x ep s q tr = (Inl UnknownHandle, ep, tr)"
    by (simp add: stream_close_def Let_def lock_set_def)
  from h none show "stream_send x ep s q p tr = (Inl UnknownHandle, tr)"
    by (simp add: stream_send_def)
qed

lemma inv_closed:
  assumes "server_inv n" "SessionClosed s reason \<in> set (history n)"
  shows "sess_of (endpoint n) s = None \<and> (\<forall>q. strm_of (endpoint n) (s, q) = None) \<and>
    stage (tasks n) s = None"
proof -
  from assms(1) have ok: "sess_ok n s" by (simp add: server_inv_def)
  have over: "phase s (history n) = Over" by (rule closed_is_over [OF assms(2) sess_ok_phase [OF ok]])
  have "stage (tasks n) s = None"
  proof (cases "stage (tasks n) s")
    case (Some t)
    with ok over open_phase_cases [of t] show ?thesis by (auto simp: sess_ok_def)
  qed simp
  with ok show ?thesis by (simp add: sess_ok_def)
qed

section \<open>What tasks carry to the reader\<close>

text \<open>The path a task was asked for, and the text an event carries.\<close>

fun asks_for :: "rstr \<Rightarrow> task \<Rightarrow> bool" where
  "asks_for path (AcceptLoop q) = (q = path)"
| "asks_for path (AwaitRequest q) = (q = path)"
| "asks_for path (AwaitAccept _ q) = (q = path)"
| "asks_for path (Register _ _ _ q) = (q = path)"
| "asks_for path (AnnounceOpen _ _ _ q) = (q = path)"
| "asks_for path _ = True"

fun fit :: "rstr \<Rightarrow> Event \<Rightarrow> bool" where
  "fit path (SessionOpened _ _ q) = (q = path)"
| "fit path (Datagram _ text) = utf8_valid text"
| "fit path (StreamMessage _ text) = utf8_valid text"
| "fit path (StreamData _ _ text) = utf8_valid text"
| "fit path (EndpointError _) = False"
| "fit path _ = True"

definition fit_inv :: "rstr \<Rightarrow> node \<Rightarrow> bool" where
  "fit_inv path n \<longleftrightarrow> (\<forall>t \<in> set (tasks n). asks_for path t) \<and> (\<forall>e \<in> set (history n). fit path e)"

lemma task_step_fit:
  assumes "task_step f t inp r = Some (t', sp, r', evs)" "asks_for path t"
  shows "asks_for path t' \<and> (\<forall>q \<in> set sp. asks_for path q) \<and> (\<forall>e \<in> set evs. fit path e)"
  using assms by (cases t) (auto split: input.splits if_splits side.splits)

lemma fit_step:
  assumes "node_step x opens n n'" "fit_inv path n"
  shows "fit_inv path n'"
  using assms(1)
proof cases
  case (run_task i inp t' spawned n1 evs)
  have "asks_for path (tasks n ! i)" using assms(2) run_task(2) by (simp add: fit_inv_def)
  note f = task_step_fit [OF run_task(3) this]
  have "set ((tasks n)[i := t']) \<subseteq> insert t' (set (tasks n))" by (rule set_update_subset_insert)
  with f assms(2) task_step_frame(1,2) [OF run_task(3)] show ?thesis
    unfolding run_task(1) fit_inv_def settle_fields by auto
qed (use assms(2) in \<open>auto simp: fit_inv_def\<close>)

lemma fit_reaches: "reaches x opens n0 n \<Longrightarrow> fit_inv path n0 \<Longrightarrow> fit_inv path n"
  by (induction rule: reaches.induct) (auto intro: fit_step)

section \<open>What the reader is handed\<close>

fun reads :: "external \<Rightarrow> bool \<Rightarrow> move list \<Rightarrow> node \<Rightarrow> Event list" where
  "reads x opens [] n = []"
| "reads x opens (m # ms) n =
     (case m of Poll timeout \<Rightarrow>
        (case fst (next_event timeout None (endpoint n)) of Some e \<Rightarrow> [e] | None \<Rightarrow> []) | _ \<Rightarrow> []) @
     (case make_move x opens m n of None \<Rightarrow> [] | Some n' \<Rightarrow> reads x opens ms n')"

definition waiting :: "node \<Rightarrow> Event list" where
  "waiting n = buf (guarded (events (endpoint n)))"

lemma node_step_ep_wf: "node_step x opens n n' \<Longrightarrow> ep_wf (endpoint n) \<Longrightarrow> ep_wf (endpoint n')"
  by (erule node_stepE)
    (auto intro: ep_wf_emits task_step_frame(5) next_event_wf stream_close_wf simp: with_tables)

lemma reaches_ep_wf: "reaches x opens n0 n \<Longrightarrow> ep_wf (endpoint n0) \<Longrightarrow> ep_wf (endpoint n)"
  by (induction rule: reaches.induct) (auto intro: node_step_ep_wf)

lemma queue_of_emits:
  "guarded (events (fold emit_on evs ep)) = fold emit evs (guarded (events ep))"
  by (induction evs arbitrary: ep) (simp_all add: emit_on_def)

lemma task_step_queue:
  fixes n n1 :: node
  shows "task_step f t inp n = Some (t', sp, n1, evs) \<Longrightarrow>
    guarded (events (endpoint n1)) = guarded (events (endpoint n))"
  by (cases t; cases inp)
    (auto simp: with_sessions_def with_streams_def split: if_splits option.splits)

lemma stream_close_queue: "events (fst (snd (stream_close x ep sid stream tr))) = events ep"
  by (simp add: stream_close_def Let_def split: option.splits sum.splits)

lemma poll_queue:
  assumes "ep_wf ep"
  shows "(case fst (next_event timeout None ep) of Some e \<Rightarrow> [e] | None \<Rightarrow> []) @
      buf (guarded (events (snd (snd (next_event timeout None ep))))) = buf (guarded (events ep))"
  using assms
  by (auto simp: next_event_def ep_wf_def recv_timeout_def
      split: option.splits list.splits prod.splits sum.splits RecvTimeoutError.splits)

text \<open>One move: what is read and what waits after it, against what waited and what is emitted.\<close>

lemma make_move_queue:
  assumes wf: "ep_wf (endpoint n)" and m: "make_move x opens m n = Some n'"
  shows "\<exists>evs. history n' = history n @ evs \<and>
    reads x opens [m] n @ waiting n' = take (1024 + length (reads x opens [m] n)) (waiting n @ evs)"
proof (cases m)
  case (Run i inp)
  with m obtain t' sp n1 evs where
    step: "task_step (x_stream_id x) (tasks n ! i) inp n = Some (t', sp, n1, evs)"
    and n': "n' = settle i t' sp evs n1"
    by (auto split: if_splits option.splits)
  have "waiting n' = take 1024 (waiting n @ evs)"
    using wf emits_without_reader [of "guarded (events (endpoint n))" evs]
    by (simp add: waiting_def n' queue_of_emits task_step_queue [OF step] ep_wf_def
        EVENT_QUEUE_DEPTH_def)
  moreover have "reads x opens [m] n = []" using Run m by simp
  ultimately show ?thesis using task_step_frame(2) [OF step] by (auto simp: n')
next
  case (Poll timeout)
  with m wf poll_queue [OF wf, of timeout] show ?thesis
    by (auto simp: waiting_def ep_wf_def EVENT_QUEUE_DEPTH_def split: option.splits
        intro!: exI [of _ "[]"])
next
  case (CloseStream sid stream)
  with m wf show ?thesis
    by (auto simp: waiting_def stream_close_queue ep_wf_def EVENT_QUEUE_DEPTH_def)
next
  case (OpenStream sid)
  with m wf show ?thesis
    by (auto simp: waiting_def ep_wf_def EVENT_QUEUE_DEPTH_def split: if_splits option.splits)
next
  case (OpenedStream sid s rcv)
  with m wf show ?thesis
    by (auto simp: waiting_def with_streams_healthy [OF wf] ep_wf_def EVENT_QUEUE_DEPTH_def
        split: if_splits option.splits)
qed

lemma make_moves_queue:
  "ep_wf (endpoint n) \<Longrightarrow> make_moves x opens ms n = Some n' \<Longrightarrow>
     \<exists>evs. history n' = history n @ evs \<and>
       subseq (reads x opens ms n @ waiting n') (waiting n @ evs) \<and>
       (length (waiting n @ evs) \<le> 1024 \<longrightarrow> reads x opens ms n @ waiting n' = waiting n @ evs)"
proof (induction ms arbitrary: n)
  case (Cons m ms)
  from Cons.prems(2) obtain n1 where m: "make_move x opens m n = Some n1"
    and ms: "make_moves x opens ms n1 = Some n'"
    by (auto split: option.splits)
  have wf: "ep_wf (endpoint n1)" by (rule node_step_ep_wf [OF make_move_step [OF m] Cons.prems(1)])
  from make_move_queue [OF Cons.prems(1) m] obtain evs where h: "history n1 = history n @ evs"
    and q: "reads x opens [m] n @ waiting n1 =
      take (1024 + length (reads x opens [m] n)) (waiting n @ evs)" by blast
  from Cons.IH [OF wf ms] obtain evs' where h': "history n' = history n1 @ evs'"
    and sub: "subseq (reads x opens ms n1 @ waiting n') (waiting n1 @ evs')"
    and all: "length (waiting n1 @ evs') \<le> 1024 \<longrightarrow>
      reads x opens ms n1 @ waiting n' = waiting n1 @ evs'" by blast
  have r: "reads x opens (m # ms) n = reads x opens [m] n @ reads x opens ms n1" using m by simp
  have "subseq (reads x opens [m] n @ waiting n1) (waiting n @ evs)"
    unfolding q by (rule prefix_imp_subseq) (rule take_is_prefix)
  then have "subseq (reads x opens [m] n @ waiting n1 @ evs') (waiting n @ evs @ evs')"
    using list_emb_append_mono [OF _ subseq_order.order_refl [of evs']] by fastforce
  moreover have "subseq (reads x opens (m # ms) n @ waiting n') (reads x opens [m] n @ waiting n1 @ evs')"
    unfolding r using list_emb_append_mono [OF subseq_order.order_refl [of "reads x opens [m] n"] sub]
    by simp
  ultimately have one: "subseq (reads x opens (m # ms) n @ waiting n') (waiting n @ evs @ evs')"
    by (meson subseq_order.order_trans)
  have two: "reads x opens (m # ms) n @ waiting n' = waiting n @ evs @ evs'"
    if len: "length (waiting n @ evs @ evs') \<le> 1024"
  proof -
    from len q have "reads x opens [m] n @ waiting n1 = waiting n @ evs" by simp
    then have e: "reads x opens [m] n @ waiting n1 @ evs' = waiting n @ evs @ evs'" by simp
    then have "length (waiting n1 @ evs') \<le> length (waiting n @ evs @ evs')"
      by (metis length_append le_add2)
    with len all have "reads x opens ms n1 @ waiting n' = waiting n1 @ evs'" by simp
    with e show ?thesis unfolding r by simp
  qed
  from one two h h' show ?case by (intro exI [of _ "evs @ evs'"]) simp
qed simp

section \<open>A run to evaluate\<close>

text \<open>A client connects, its session is announced, the connection fails, the session is forgotten.\<close>

definition demo_start :: node where
  "demo_start = server_node 0 4433 ''/rk''"

definition demo_accept :: "move list" where
  "demo_accept = [Run 0 InIncoming, Run 1 (InRequest ''/rk'' ''localhost''), Run 1 (InAccepted 7),
     Run 1 InContinue, Run 1 InContinue]"

definition demo_loss :: "move list" where
  "demo_loss = [Run 1 (InConnError ''timed out''), Run 1 InContinue, Run 1 InContinue, Run 1 InContinue]"

lemmas node_eval =
  demo_start_def demo_accept_def demo_loss_def server_node_def client_node_def live_endpoint_def
  with_sessions_def with_streams_def settle_def emit_on_def emit_def try_send_def sync_channel_def
  EVENT_QUEUE_DEPTH_def retain_def next_event_def recv_timeout_def

lemma demo_accepted:
  "\<exists>n. make_moves calm False demo_accept demo_start = Some n \<and> accepted n = 1 \<and>
     history n = [SessionOpened 1 ''localhost'' ''/rk''] \<and> sess_of (endpoint n) 1 = Some 7 \<and>
     tasks n = [AcceptLoop ''/rk'', Serve ServerSide 1 7]"
  by (simp add: node_eval sess_of_def)

lemma demo_closed:
  "\<exists>n. make_moves calm False (demo_accept @ demo_loss) demo_start = Some n \<and> accepted n = 1 \<and>
     history n = [SessionOpened 1 ''localhost'' ''/rk'', SessionClosed 1 ''timed out''] \<and>
     tasks n = [AcceptLoop ''/rk'', Done]"
  by (simp add: node_eval)

lemma demo_reaches:
  "make_moves calm False ms demo_start = Some n \<Longrightarrow> reaches calm False (server_node 0 4433 ''/rk'') n"
  unfolding demo_start_def by (rule make_moves_reaches)

end
