(* ===== verification/RkClientLife.thy ===== *)
theory RkClientLife
  imports RkSafety
begin

text \<open>
  The invariant of a client endpoint, which has one session. It holds with any number of streams
  being opened by the calls of the boundary at the same time.
\<close>

fun client_task :: "u64 \<Rightarrow> task \<Rightarrow> bool" where
  "client_task sid (Serve side s _) = (side = ClientSide \<and> s = sid)"
| "client_task sid (ReadUni side s _) = (side = ClientSide \<and> s = sid)"
| "client_task sid (KeepStream side s _ _ _) = (side = ClientSide \<and> s = sid)"
| "client_task sid (AnnounceStream side s _ _ _) = (side = ClientSide \<and> s = sid)"
| "client_task sid (Forget side s _) = (side = ClientSide \<and> s = sid)"
| "client_task sid (AnnounceClosed s _) = (s = sid)"
| "client_task sid (ReadBi s _ _) = (s = sid)"
| "client_task sid (AnnounceStreamClosed s _) = (s = sid)"
| "client_task sid (ApiOpening s _) = (s = sid)"
| "client_task sid (ApiOpened s _ _) = (s = sid)"
| "client_task sid Done = True"
| "client_task sid _ = False"

definition client_inv :: "u64 \<Rightarrow> node \<Rightarrow> bool" where
  "client_inv sid n \<longleftrightarrow>
     ep_wf (endpoint n) \<and> uniq (tasks n) \<and> (\<forall>t \<in> set (tasks n). client_task sid t) \<and>
     (\<forall>s. s \<noteq> sid \<longrightarrow> sess_of (endpoint n) s = None) \<and>
     (case stage (tasks n) sid of
        None \<Rightarrow> sess_of (endpoint n) sid = None \<and> phase sid (history n) = Over
      | Some t \<Rightarrow> (sess_of (endpoint n) sid \<noteq> None \<longleftrightarrow> listed t) \<and> phase sid (history n) = Open)"

lemma client_inv_start: "client_inv sid (client_node rt port sid c url)"
proof -
  have h: "phase sid [SessionOpened sid [] url] = Open" by (simp add: phase_def)
  show ?thesis
    by (simp add: client_inv_def client_node_def ep_wf_emit ep_wf_sessions uniq_def stage_def h)
      (simp add: sess_of_def live_endpoint_def)
qed

lemma client_task_step:
  assumes "task_step f t inp n = Some (t', sp, n1, evs)" "client_task sid t"
  shows "client_task sid t' \<and> (\<forall>q \<in> set sp. client_task sid q \<and> session_of q = None) \<and>
    (session_of t' = Some s \<longrightarrow> session_of t = Some s)"
  using assms by (cases t) (auto split: input.splits if_splits side.splits)

lemma client_task_tables:
  fixes n n1 :: node
  assumes "task_step f t inp n = Some (t', sp, n1, evs)" "client_task sid t" "ep_wf (endpoint n)"
  shows "(\<forall>s. s \<noteq> sid \<longrightarrow> sess_of (endpoint n1) s = sess_of (endpoint n) s) \<and>
    (session_of t = None \<and> phase sid (history n) \<in> {Open, Over} \<longrightarrow>
       phase sid (history n @ evs) = phase sid (history n)) \<and>
    (session_of t = Some sid \<and> phase sid (history n) = Open \<and>
       (sess_of (endpoint n) sid \<noteq> None \<longleftrightarrow> listed t) \<longrightarrow>
       (if session_of t' = Some sid
        then (sess_of (endpoint n1) sid \<noteq> None \<longleftrightarrow> listed t') \<and> phase sid (history n @ evs) = Open
        else sess_of (endpoint n1) sid = None \<and> phase sid (history n @ evs) = Over))"
  using assms
  by (cases t) (auto simp: with_tables split: input.splits if_splits side.splits)

lemma client_sessionless:
  fixes n n1 :: node
  assumes "task_step f t inp n = Some (t', sp, n1, evs)" "client_task sid t" "ep_wf (endpoint n)"
    and "session_of t = None"
  shows "sess_of (endpoint n1) = sess_of (endpoint n)"
  using assms by (cases t) (auto simp: with_tables split: input.splits if_splits side.splits)

lemma client_session_of: "client_task sid t \<Longrightarrow> session_of t = None \<or> session_of t = Some sid"
  by (cases t) auto

lemma client_run_task:
  assumes inv: "client_inv sid n" and i: "i < length (tasks n)" and t: "t = tasks n ! i"
    and step: "task_step f t inp n = Some (t', sp, n1, evs)"
  shows "client_inv sid (settle i t' sp evs n1)" (is "client_inv sid ?n2")
proof -
  note fr = task_step_frame [OF step]
  from inv i have wf: "ep_wf (endpoint n)" and u: "uniq (tasks n)"
    and ct: "client_task sid t" "\<forall>t \<in> set (tasks n). client_task sid t"
    and oth: "\<forall>s. s \<noteq> sid \<longrightarrow> sess_of (endpoint n) s = None"
    by (simp_all add: client_inv_def t)
  note cs = client_task_step [OF step ct(1)]
  note tb = client_task_tables [OF step ct(1) wf]
  have sp: "\<forall>q \<in> set sp. session_of q = None" and keep: "session_of t' = Some s \<Longrightarrow> session_of (tasks n ! i) = Some s \<or> stage (tasks n) s = None" for s
    using cs client_task_step [OF step ct(1), of s] by (auto simp: t)
  have ts: "tasks ?n2 = (tasks n)[i := t'] @ sp" by (simp add: fr)
  have "set (tasks ?n2) \<subseteq> insert t' (set (tasks n)) \<union> set sp"
    unfolding ts using set_update_subset_insert [of "tasks n" i t'] by auto
  with cs ct(2) have ct2: "\<forall>q \<in> set (tasks ?n2). client_task sid q" by blast
  have u2: "uniq (tasks ?n2)"
    unfolding ts by (rule uniq_append [OF uniq_update [OF u i keep] sp])
  have st: "stage (tasks ?n2) sid = (if session_of t' = Some sid then Some t'
      else if session_of t = Some sid then None else stage (tasks n) sid)"
    unfolding ts t by (rule stage_update [OF u i sp keep])
  have h: "history ?n2 = history n @ evs" and e: "sess_of (endpoint ?n2) = sess_of (endpoint n1)"
    by (simp_all add: fr)
  have last: "case stage (tasks ?n2) sid of
      None \<Rightarrow> sess_of (endpoint ?n2) sid = None \<and> phase sid (history ?n2) = Over
    | Some t \<Rightarrow> (sess_of (endpoint ?n2) sid \<noteq> None \<longleftrightarrow> listed t) \<and> phase sid (history ?n2) = Open"
  proof (cases "session_of t")
    case None
    with cs have "session_of t' \<noteq> Some sid" using client_task_step [OF step ct(1), of sid] by auto
    with None have "stage (tasks ?n2) sid = stage (tasks n) sid" using st by simp
    moreover have "phase sid (history n) \<in> {Open, Over}"
      using inv by (auto simp: client_inv_def split: option.splits)
    ultimately show ?thesis
      using inv tb None client_sessionless [OF step ct(1) wf None] unfolding h e
      by (simp add: client_inv_def split: option.splits)
  next
    case (Some s)
    with client_session_of [OF ct(1)] have s: "session_of t = Some sid" by simp
    with stage_nth [OF u i] inv have "phase sid (history n) = Open"
      "sess_of (endpoint n) sid \<noteq> None \<longleftrightarrow> listed t"
      by (simp_all add: client_inv_def t)
    with tb s st show ?thesis unfolding h e by (auto split: if_splits)
  qed
  from wf fr(5) have "ep_wf (endpoint ?n2)" by (simp add: ep_wf_emits)
  with u2 ct2 last oth tb show ?thesis unfolding client_inv_def e by auto
qed

lemma stage_snoc: "session_of t = None \<Longrightarrow> stage (ts @ [t]) s = stage ts s"
  unfolding stage_def by (induction ts) simp_all

lemma client_step_inv:
  assumes "node_step x opens n n'" "client_inv sid n"
  shows "client_inv sid n'"
  using assms(1)
proof cases
  case (run_task i inp t' spawned n1 evs)
  with client_run_task [OF assms(2) run_task(2) refl run_task(3)] show ?thesis by simp
next
  case (api_poll timeout r waited ep)
  from assms(2) have "ep_wf (endpoint n)" by (simp add: client_inv_def)
  from assms(2) next_event_wf [OF this api_poll(2)] next_event_tables [OF api_poll(2)] show ?thesis
    by (simp add: api_poll(1) client_inv_def split: option.splits)
next
  case (api_close s stream tr r ep tr')
  from assms(2) have "ep_wf (endpoint n)" by (simp add: client_inv_def)
  from assms(2) stream_close_wf [OF this api_close(2)] stream_close_tables [OF api_close(2)] show ?thesis
    by (simp add: api_close(1) client_inv_def split: option.splits)
next
  case (api_open m s c)
  from assms(2) have wf: "ep_wf (endpoint n)" and u: "uniq (tasks n)" by (simp_all add: client_inv_def)
  with api_open have "sess_of (endpoint n) s = Some c" by (simp add: sess_of_def ep_wf_def)
  with assms(2) have s: "s = sid" by (auto simp: client_inv_def)
  have u2: "uniq (tasks n @ [ApiOpening sid c])" by (rule uniq_append [OF u]) simp
  have "stage (tasks n @ [ApiOpening sid c]) sid = stage (tasks n) sid"
    by (simp add: stage_snoc)
  with assms(2) u2 show ?thesis unfolding api_open(1) s
    by (simp add: client_inv_def split: option.splits)
next
  case (api_opened m s c str rcv)
  from assms(2) have wf: "ep_wf (endpoint n)" and u: "uniq (tasks n)" by (simp_all add: client_inv_def)
  with api_opened have "sess_of (endpoint n) s = Some c" by (simp add: sess_of_def ep_wf_def)
  with assms(2) have s: "s = sid" by (auto simp: client_inv_def)
  have u2: "uniq (tasks n @ [ReadBi sid (x_stream_id x str) rcv])" by (rule uniq_append [OF u]) simp
  have "stage (tasks n @ [ReadBi sid (x_stream_id x str) rcv]) sid = stage (tasks n) sid"
    by (simp add: stage_snoc)
  with assms(2) u2 with_tables [OF wf] show ?thesis unfolding api_opened(1) s
    by (simp add: client_inv_def split: option.splits)
qed

lemma client_reaches_inv: "reaches x opens (client_node rt port sid c url) n \<Longrightarrow> client_inv sid n"
  by (induction rule: reaches.induct) (auto intro: client_inv_start client_step_inv)

end
