(* ===== verification/RkGuarantees.thy ===== *)
theory RkGuarantees
  imports RkClientLife
begin

text \<open>
  The guarantees of a server endpoint over every run, the ways a session begins and ends, and
  the runs that show where a client endpoint, or an endpoint with a stream being opened, keeps
  something of a session that is over.
\<close>

section \<open>A stalled task\<close>

lemma stalled_moves:
  "i < length (tasks n) \<Longrightarrow> tasks n ! i = ReadUni side sid c \<Longrightarrow> make_moves x opens ms n = Some n' \<Longrightarrow>
     \<forall>m \<in> set ms. \<forall>text. m \<noteq> Run i (InReadAll text) \<and> m \<noteq> Run i InReadFailed \<Longrightarrow>
     i < length (tasks n') \<and> tasks n' ! i = ReadUni side sid c"
proof (induction ms arbitrary: n)
  case (Cons m ms)
  from Cons.prems(3) obtain n1 where m: "make_move x opens m n = Some n1"
    "make_moves x opens ms n1 = Some n'" by (auto split: option.splits)
  have "i < length (tasks n1) \<and> tasks n1 ! i = ReadUni side sid c"
  proof (cases m)
    case (Run j inp)
    with m(1) obtain t' sp n2 evs where s: "j < length (tasks n)"
      "task_step (x_stream_id x) (tasks n ! j) inp n = Some (t', sp, n2, evs)" "n1 = settle j t' sp evs n2"
      by (auto split: if_splits option.splits)
    have "j \<noteq> i" using s(2) Cons.prems(2,4) Run by (auto split: input.splits)
    with s Cons.prems(1,2) show ?thesis by (simp add: task_step_frame(1) [OF s(2)] nth_append)
  qed (use m Cons.prems in \<open>auto simp: nth_append split: if_splits option.splits\<close>)
  with Cons.IH [of n1] m(2) Cons.prems(4) show ?case by auto
qed simp

section \<open>What every run of a server endpoint guarantees\<close>





text \<open>
  A server endpoint leaks nothing: whenever no task serves a session any more, both of its
  tables are empty.
\<close>

lemma idle_endpoint_holds_nothing:
  assumes "reaches x False (server_node rt port path) n" and "accepted n < 2 ^ 64 - 1"
    and "\<forall>t \<in> set (tasks n). session_of t = None"
  shows "guarded (sessions (endpoint n)) = [] \<and> guarded (streams (endpoint n)) = []"
proof -
  from assms(3) have "stage (tasks n) s = None" for s by (auto simp: stage_None)
  with server_reaches_inv [OF assms(1,2)] have "sess_of (endpoint n) s = None"
    "strm_of (endpoint n) (s, q) = None" for s q
    by (auto simp: server_inv_def sess_ok_def)
  then have "sess_of (endpoint n) = Map.empty" "strm_of (endpoint n) = Map.empty" by auto
  then show ?thesis by (simp add: sess_of_def strm_of_def)
qed

lemma idle_endpoint_holds_nothing_witness:
  "\<exists>n. reaches calm False (server_node 0 4433 ''/rk'') n \<and> accepted n = 1 \<and>
     guarded (sessions (endpoint n)) = []"
proof -
  from demo_closed obtain n where n: "make_moves calm False (demo_accept @ demo_loss) demo_start = Some n"
    "accepted n = 1" "\<forall>t \<in> set (tasks n). session_of t = None" by force
  with idle_endpoint_holds_nothing [OF demo_reaches [OF n(1)]] show ?thesis
    using demo_reaches [OF n(1)] by auto
qed

text \<open>
  Only requests for the configured path become sessions, and everything an endpoint reports
  as text is UTF-8: what is not is dropped.
\<close>

lemma only_fit_events:
  assumes "reaches x opens (server_node rt port path) n"
  shows "(\<forall>sid authority q. SessionOpened sid authority q \<in> set (history n) \<longrightarrow> q = path) \<and>
    (\<forall>sid stream text. Datagram sid text \<in> set (history n) \<or> StreamMessage sid text \<in> set (history n) \<or>
       StreamData sid stream text \<in> set (history n) \<longrightarrow> utf8_valid text)"
proof -
  have "fit_inv path (server_node rt port path)" by (simp add: fit_inv_def server_node_def)
  from fit_reaches [OF assms this] have "e \<in> set (history n) \<Longrightarrow> fit path e" for e
    by (simp add: fit_inv_def)
  then show ?thesis by fastforce
qed

lemma only_fit_events_witness:
  "\<exists>n. reaches calm False (server_node 0 4433 ''/rk'') n \<and>
     SessionOpened 1 ''localhost'' ''/rk'' \<in> set (history n) \<and>
     (\<forall>sid authority q. SessionOpened sid authority q \<in> set (history n) \<longrightarrow> q = ''/rk'')"
proof -
  from demo_accepted obtain n where n: "make_moves calm False demo_accept demo_start = Some n"
    "SessionOpened 1 ''localhost'' ''/rk'' \<in> set (history n)" by force
  with only_fit_events [OF demo_reaches [OF n(1)]] show ?thesis
    using demo_reaches [OF n(1)] by blast
qed

text \<open>
  C16: A reader is handed the events of a server endpoint in the order they were emitted: what its
  reads returned followed by what still waits is a subsequence of what was emitted, at most 1024
  events wait, and nothing is lost while no more than 1024 events were emitted.
\<close>

theorem reader_sees_history:
  assumes "make_moves x opens ms (server_node rt port path) = Some n"
  shows "subseq (reads x opens ms (server_node rt port path) @ waiting n) (history n) \<and>
    length (waiting n) \<le> 1024 \<and>
    (length (history n) \<le> 1024 \<longrightarrow>
       reads x opens ms (server_node rt port path) @ waiting n = history n)"
proof -
  let ?n0 = "server_node rt port path"
  have wf: "ep_wf (endpoint ?n0)" and e: "waiting ?n0 = []" "history ?n0 = []"
    by (simp add: server_node_def)
      (simp_all add: server_node_def waiting_def live_endpoint_def new_mutex_def sync_channel_def)
  from reaches_ep_wf [OF make_moves_reaches [OF assms] wf] have "length (waiting n) \<le> 1024"
    by (simp add: ep_wf_def waiting_def EVENT_QUEUE_DEPTH_def)
  with make_moves_queue [OF wf assms] e show ?thesis by auto
qed

theorem reader_sees_history_witness:
  "\<exists>n. make_moves calm False (demo_accept @ [Poll 5]) demo_start = Some n \<and>
     reads calm False (demo_accept @ [Poll 5]) demo_start @ waiting n = history n \<and>
     history n = [SessionOpened 1 ''localhost'' ''/rk'']"
proof -
  have "\<exists>n. make_moves calm False (demo_accept @ [Poll 5]) demo_start = Some n \<and>
      history n = [SessionOpened 1 ''localhost'' ''/rk'']"
    by (simp add: node_eval)
  then obtain n where n: "make_moves calm False (demo_accept @ [Poll 5]) demo_start = Some n"
    "history n = [SessionOpened 1 ''localhost'' ''/rk'']" by blast
  with reader_sees_history [OF n(1) [unfolded demo_start_def]] show ?thesis
    by (auto simp: demo_start_def)
qed

text \<open>
  On an endpoint that is running, the mutexes are never poisoned and the runtime is there:
  whatever has happened, sending, writing to a stream and closing one answer \<open>ok\<close>,
  \<open>unknownHandle\<close> or \<open>peerGone\<close>, never \<open>panic\<close> or \<open>notRunning\<close>.
\<close>

lemma running_endpoint_answers:
  assumes "reaches x opens (server_node rt port path) n \<or> reaches x opens (client_node rt port s c url) n"
  shows "fst (send x (endpoint n) sid payload reliable tr) \<in> {Inl UnknownHandle, Inl PeerGone, Inr ()} \<and>
    fst (stream_send x (endpoint n) sid stream payload tr) \<in> {Inl UnknownHandle, Inl PeerGone, Inr ()} \<and>
    fst (stream_close x (endpoint n) sid stream tr) \<in> {Inl UnknownHandle, Inl PeerGone, Inr ()}"
proof -
  have "ep_wf (endpoint (server_node rt port path))" "ep_wf (endpoint (client_node rt port s c url))"
    by (simp_all add: server_node_def client_node_def ep_wf_emit ep_wf_sessions)
  with assms reaches_ep_wf have "ep_wf (endpoint n)" by blast
  from healthy_send [OF this] show ?thesis by blast
qed

lemma running_endpoint_answers_witness:
  "fst (send calm (endpoint (server_node 0 4433 ''/rk'')) 1 ''hi'' True [])
     \<in> {Inl UnknownHandle, Inl PeerGone, Inr ()}"
  using running_endpoint_answers [of calm True 0 4433 "''/rk''" "server_node 0 4433 ''/rk''"]
  by (simp add: here)

section \<open>A client endpoint\<close>

text \<open>
  C25: Along every run of a client endpoint, with any number of streams being opened at the same
  time, the events of its session are in order; once the end of the session has been reported the
  session is gone from the table, and sending to it or opening a stream on it finds nothing.
\<close>

theorem client_session_lifecycle:
  assumes "reaches x opens (client_node rt port sid c url) n"
  shows "phase sid (history n) \<in> {Open, Over} \<and>
    (SessionClosed sid reason \<in> set (history n) \<longrightarrow>
       guarded (sessions (endpoint n)) = [] \<and>
       send x (endpoint n) sid payload reliable tr = (Inl UnknownHandle, tr))"
proof -
  note inv = client_reaches_inv [OF assms]
  then have wf: "ep_wf (endpoint n)" by (simp add: client_inv_def)
  from inv have ph: "phase sid (history n) \<in> {Open, Over}"
    by (auto simp: client_inv_def split: option.splits)
  have "sess_of (endpoint n) = Map.empty" if "SessionClosed sid reason \<in> set (history n)"
  proof -
    from ph have "phase sid (history n) \<noteq> Broken" by auto
    from closed_is_over [OF that this] inv have "sess_of (endpoint n) s = None" for s
      by (cases "s = sid") (auto simp: client_inv_def split: option.splits)
    then show ?thesis by auto
  qed
  then show ?thesis using ph unknown_session [OF wf, of sid] by (auto simp: sess_of_def)
qed

theorem client_session_lifecycle_witness:
  "phase 1 (history (client_node 0 5000 1 7 ''https://localhost/rk'')) \<in> {Open, Over}"
  using client_session_lifecycle [OF here [of calm True "client_node 0 5000 1 7 ''https://localhost/rk''"]]
  by blast

text \<open>
  A client endpoint keeps the streams of a session that is over: there is a run in which the
  peer opens a stream, the connection fails, the end of the session is reported, and the stream is
  still in the table, so that writing to it reaches the network instead of answering
  \<open>unknownHandle\<close>. (The task of an accepted session removes the streams; the one of a client's
  session does not.)
\<close>

lemma client_keeps_streams_of_closed_session:
  "\<exists>n. reaches calm False (client_node 0 5000 1 7 ''https://localhost/rk'') n \<and>
     SessionClosed 1 ''timed out'' \<in> set (history n) \<and>
     guarded (streams (endpoint n)) = [((1, 9), 9)] \<and>
     stream_send calm (endpoint n) 1 9 ''hi'' [] = (Inr (), [WriteAll 9 ''hi''])"
proof -
  have "\<exists>n. make_moves calm False
      [Run 0 (InBiStream 9 3), Run 0 InContinue, Run 0 InContinue, Run 0 (InConnError ''timed out''),
       Run 0 InContinue, Run 0 InContinue] (client_node 0 5000 1 7 ''https://localhost/rk'') = Some n \<and>
     SessionClosed 1 ''timed out'' \<in> set (history n) \<and>
     guarded (streams (endpoint n)) = [((1, 9), 9)] \<and>
     stream_send calm (endpoint n) 1 9 ''hi'' [] = (Inr (), [WriteAll 9 ''hi''])"
    by (simp add: node_eval calm_def stream_send_def new_mutex_def lock_set_def lock_get_def)
  with make_moves_reaches show ?thesis by blast
qed

text \<open>
  The guarantee that a closed session is forgotten needs that no stream is being opened while
  the session ends: a call that has its connection, and waits for the peer, still enters its stream
  in the table after the session was forgotten.
\<close>

lemma open_stream_outlives_session:
  "\<exists>n. reaches calm True (server_node 0 4433 ''/rk'') n \<and>
     SessionClosed 1 ''timed out'' \<in> set (history n) \<and> guarded (sessions (endpoint n)) = [] \<and>
     guarded (streams (endpoint n)) = [((1, 9), 9)]"
proof -
  have "\<exists>n. make_moves calm True
      (demo_accept @ [OpenStream 1, Run 2 (InBiStream 9 3)] @ demo_loss @ [Run 2 InContinue]) demo_start
        = Some n \<and>
     SessionClosed 1 ''timed out'' \<in> set (history n) \<and> guarded (sessions (endpoint n)) = [] \<and>
     guarded (streams (endpoint n)) = [((1, 9), 9)]"
    by (simp add: node_eval calm_def new_mutex_def lock_set_def lock_get_def)
  then show ?thesis unfolding demo_start_def using make_moves_reaches by blast
qed

section \<open>How a session begins, ends and stalls\<close>

text \<open>
  From every state of a running server endpoint a request for its path becomes a session:
  there is a continuation in which the next session id is announced with what the request carried
  and the session is in the table, whatever else the endpoint is doing.
\<close>

lemma request_becomes_session:
  assumes "reaches x opens (server_node rt port path) n"
    and "AcceptLoop path \<in> set (tasks n)"
  shows "\<exists>n'. reaches x opens n n' \<and>
    history n' = history n @ [SessionOpened (next_session n) authority path] \<and>
    map_of (guarded (sessions (endpoint n'))) (next_session n) = Some c"
proof -
  from assms(2) obtain i where i: "i < length (tasks n)" "tasks n ! i = AcceptLoop path"
    by (auto simp: in_set_conv_nth)
  have wf: "ep_wf (endpoint n)"
    by (rule reaches_ep_wf [OF assms(1)]) (simp add: server_node_def)
  let ?k = "length (tasks n)"
  have "\<exists>n'. make_moves x opens [Run i InIncoming, Run ?k (InRequest path authority),
      Run ?k (InAccepted c), Run ?k InContinue, Run ?k InContinue] n = Some n' \<and>
    history n' = history n @ [SessionOpened (next_session n) authority path] \<and>
    map_of (guarded (sessions (endpoint n'))) (next_session n) = Some c"
    using i wf
    by (simp add: settle_def nth_append list_update_append with_sessions_healthy update_conv'
        emit_on_def)
  with make_moves_reaches show ?thesis by blast
qed

lemma request_becomes_session_witness:
  "\<exists>n'. reaches calm False (server_node 0 4433 ''/rk'') n' \<and>
     history n' = [SessionOpened 1 ''localhost'' ''/rk'']"
  using request_becomes_session [OF here [of calm False "server_node 0 4433 ''/rk''"],
      of "''localhost''" 7]
  by (auto simp: server_node_def)

text \<open>
  C36: A session that is served can always end: from every state in which its task waits for the
  connection, four moves of that task after the connection fails report its end with the reason,
  and by then nothing of it is left in either table.
\<close>

theorem failed_connection_ends_session:
  assumes "reaches x opens (server_node rt port path) n"
    and "i < length (tasks n)" "tasks n ! i = Serve ServerSide sid c"
  shows "\<exists>n'. make_moves x opens [Run i (InConnError reason), Run i InContinue, Run i InContinue,
      Run i InContinue] n = Some n' \<and>
    history n' = history n @ [SessionClosed sid reason] \<and>
    map_of (guarded (sessions (endpoint n'))) sid = None \<and>
    (\<forall>stream. map_of (guarded (streams (endpoint n'))) (sid, stream) = None)"
proof -
  have wf: "ep_wf (endpoint n)"
    by (rule reaches_ep_wf [OF assms(1)]) (simp add: server_node_def)
  then have "ep_wf (endpoint (with_sessions (AList.delete sid) n))" by (rule with_tables)
  with wf assms(2,3) show ?thesis
    by (simp add: settle_def with_sessions_healthy with_streams_healthy delete_conv' emit_on_def
        map_of_retain ep_wf_def)
qed

theorem failed_connection_ends_session_witness:
  "\<exists>n n'. make_moves calm False demo_accept demo_start = Some n \<and>
     make_moves calm False demo_loss n = Some n' \<and>
     history n' = history n @ [SessionClosed 1 ''timed out'']"
proof -
  from demo_accepted obtain n where n: "make_moves calm False demo_accept demo_start = Some n"
    "accepted n = 1" "tasks n = [AcceptLoop ''/rk'', Serve ServerSide 1 7]" by blast
  with failed_connection_ends_session [OF demo_reaches [OF n(1)], of 1 1 7 "''timed out''"]
  show ?thesis unfolding demo_loss_def by auto
qed

text \<open>
  A unidirectional stream is read where the session is served, so a peer that opens one and
  does not end it stalls its session: until that read ends (with the whole stream or with an
  error), the task stays where it is however the rest of the endpoint moves, no datagram and no
  further stream of the session is taken, and the session stays in the table and open.
\<close>

lemma unfinished_uni_stream_stalls_session:
  assumes "reaches x False (server_node rt port path) n" and "accepted n' < 2 ^ 64 - 1"
    and "i < length (tasks n)" "tasks n ! i = ReadUni ServerSide sid c"
    and "make_moves x False ms n = Some n'"
    and "\<forall>m \<in> set ms. \<forall>text. m \<noteq> Run i (InReadAll text) \<and> m \<noteq> Run i InReadFailed"
  shows "tasks n' ! i = ReadUni ServerSide sid c \<and> phase sid (history n') = Open \<and>
    map_of (guarded (sessions (endpoint n'))) sid \<noteq> None"
proof -
  have "i < length (tasks n') \<and> tasks n' ! i = ReadUni ServerSide sid c"
    using assms(3-6) by (rule stalled_moves)
  moreover have "server_inv n'"
    by (rule server_reaches_inv [OF reaches_trans [OF make_moves_reaches [OF assms(5)] assms(1)] assms(2)])
  ultimately show ?thesis using serving_facts [of n' i sid] by (auto simp: sess_of_def)
qed

lemma unfinished_uni_stream_stalls_session_witness:
  "\<exists>n n'. make_moves calm False (demo_accept @ [Run 1 InUniStream]) demo_start = Some n \<and>
     make_moves calm False [Run 0 InIncoming, Poll 5] n = Some n' \<and> phase 1 (history n') = Open"
proof -
  have "\<exists>n n'. make_moves calm False (demo_accept @ [Run 1 InUniStream]) demo_start = Some n \<and>
      tasks n = [AcceptLoop ''/rk'', ReadUni ServerSide 1 7] \<and>
      make_moves calm False [Run 0 InIncoming, Poll 5] n = Some n' \<and> accepted n' = 1"
    by (simp add: node_eval)
  then obtain n n' where n: "make_moves calm False (demo_accept @ [Run 1 InUniStream]) demo_start = Some n"
      "tasks n = [AcceptLoop ''/rk'', ReadUni ServerSide 1 7]"
      "make_moves calm False [Run 0 InIncoming, Poll 5] n = Some n'" "accepted n' = 1" by blast
  have "phase 1 (history n') = Open"
    using unfinished_uni_stream_stalls_session [OF demo_reaches [OF n(1)] _ _ _ n(3), of 1 1 7] n(2,4)
    by simp
  with n show ?thesis by blast
qed

end
