(* ===== verification/RkSystem.thy ===== *)
theory RkSystem
  imports RkGuarantees RkPoll
begin

text \<open>
  The whole process as a state machine: any number of endpoints, each with the tasks of its
  runtime, and any number of threads inside calls of the C ABI. A call of one thread may run as a
  whole, or as its parts: looking the endpoint up, working on it, giving the reference back;
  between two such parts any other thread and any task may move.
\<close>

section \<open>The state\<close>

text \<open>
  Beside the process: the references that calls in flight hold, and two observations that are not
  in the program, what each endpoint has emitted and how many sessions it has accepted.
\<close>

record system =
  proc :: process
  in_use :: "nat list"
  told :: "nat \<Rightarrow> Event list"
  entered :: "nat \<Rightarrow> nat"

definition live :: "'a process_scheme \<Rightarrow> nat \<Rightarrow> bool" where
  "live st a \<longleftrightarrow> map_of (arcs st) a \<noteq> None"

definition body :: "'a process_scheme \<Rightarrow> nat \<Rightarrow> Endpoint \<times> task list \<times> u64" where
  "body st a = (endpoint (arc_at st a), tasks (arc_at st a), next_session (arc_at st a))"

definition node_at :: "system \<Rightarrow> nat \<Rightarrow> node" where
  "node_at s a =
     \<lparr>strong = 1, endpoint = endpoint (arc_at (proc s) a), tasks = tasks (arc_at (proc s) a),
      next_session = next_session (arc_at (proc s) a), history = told s a, accepted = entered s a\<rparr>"

definition put_node :: "nat \<Rightarrow> node \<Rightarrow> system \<Rightarrow> system" where
  "put_node a n s =
     s\<lparr>proc := set_arc a ((arc_at (proc s) a)\<lparr>endpoint := endpoint n, tasks := tasks n,
                next_session := next_session n\<rparr>) (proc s),
       told := (told s)(a := history n), entered := (entered s)(a := accepted n)\<rparr>"

definition system_start :: system where
  "system_start = \<lparr>proc = initial_process, in_use = [], told = (\<lambda>_. []), entered = (\<lambda>_. 0)\<rparr>"

section \<open>Steps\<close>

text \<open>
  \<open>opens\<close> tells whether streams may be opened on a server's sessions too; on a client's they
  always may. A poll that waits is the poll made once an event is there.
\<close>

fun serves :: "task list \<Rightarrow> bool" where
  "serves (AcceptLoop _ # _) = True"
| "serves _ = False"

definition opening_ok :: "bool \<Rightarrow> process \<Rightarrow> nat \<Rightarrow> bool" where
  "opening_ok opens st a \<longleftrightarrow> opens \<or> \<not> serves (tasks (arc_at st a))"

fun call_ok :: "bool \<Rightarrow> api_call \<Rightarrow> process \<Rightarrow> bool" where
  "call_ok opens (ServerPoll h ms out arrival) st \<longleftrightarrow> arrival = None"
| "call_ok opens (ClientOpenStream h sid out) st \<longleftrightarrow>
     (case reg st h of None \<Rightarrow> True | Some a \<Rightarrow> opening_ok opens st a)"
| "call_ok opens c st \<longleftrightarrow> True"

definition after_call :: "external \<Rightarrow> thread \<Rightarrow> api_call \<Rightarrow> system \<Rightarrow> system" where
  "after_call x t c s =
     (let st' = snd (api x t c (proc s)); a = next_arc (proc s) in
      s\<lparr>proc := st', told := (told s)(a := pending st' a), entered := (entered s)(a := 0)\<rparr>)"

fun may_move :: "system \<Rightarrow> nat \<Rightarrow> move \<Rightarrow> bool" where
  "may_move s a (Run i inp) \<longleftrightarrow> live (proc s) a"
| "may_move s a m \<longleftrightarrow> a \<in> set (in_use s)"

inductive sys_step :: "external \<Rightarrow> bool \<Rightarrow> system \<Rightarrow> system \<Rightarrow> bool"
  for x :: external and opens :: bool where
  sys_call: "call_ok opens c (proc s) \<Longrightarrow> sys_step x opens s (after_call x t c s)"
| sys_move: "may_move s a m \<Longrightarrow>
     make_move x (opening_ok opens (proc s) a) m (node_at s a) = Some n \<Longrightarrow>
     sys_step x opens s (put_node a n s)"
| sys_begin: "lookup h (proc s) = (Some a, st) \<Longrightarrow>
     sys_step x opens s (s\<lparr>proc := st, in_use := a # in_use s\<rparr>)"
| sys_end: "a \<in> set (in_use s) \<Longrightarrow>
     sys_step x opens s (s\<lparr>proc := arc_drop a (proc s), in_use := remove1 a (in_use s)\<rparr>)"

inductive sys_reaches :: "external \<Rightarrow> bool \<Rightarrow> system \<Rightarrow> bool"
  for x :: external and opens :: bool where
  sys_here: "sys_reaches x opens system_start"
| sys_more: "sys_reaches x opens s \<Longrightarrow> sys_step x opens s s' \<Longrightarrow> sys_reaches x opens s'"

section \<open>Endpoints as nodes\<close>

definition hosted :: "external \<Rightarrow> bool \<Rightarrow> node \<Rightarrow> bool" where
  "hosted x opens n \<longleftrightarrow>
     (\<exists>rt port path. reaches x opens (server_node rt port path) n) \<or>
     (\<exists>rt port sid c url. reaches x True (client_node rt port sid c url) n)"

lemma serves_iff: "serves ts \<longleftrightarrow> (\<exists>path ts'. ts = AcceptLoop path # ts')"
  by (cases ts rule: serves.cases) auto

lemma serves_step:
  assumes "node_step x opens n n'" "serves (tasks n)"
  shows "serves (tasks n')"
  using assms(1)
proof cases
  case (run_task i inp t' sp n1 evs)
  from assms(2) obtain path ts where "tasks n = AcceptLoop path # ts" by (auto simp: serves_iff)
  with run_task task_step_frame(1) [OF run_task(3)] show ?thesis
    by (cases i) (auto simp: serves_iff split: input.splits)
qed (use assms(2) in \<open>auto simp: serves_iff\<close>)

lemma server_serves: "reaches x opens (server_node rt port path) n \<Longrightarrow> serves (tasks n)"
  by (induction rule: reaches.induct) (auto simp: server_node_def intro: serves_step)

lemma make_move_opens: "make_move x b m n = Some n' \<Longrightarrow> make_move x True m n = Some n'"
  by (cases m) (auto split: if_splits)

lemma hosted_move:
  assumes "hosted x opens n" "make_move x (opens \<or> \<not> serves (tasks n)) m n = Some n'"
  shows "hosted x opens n'"
  using assms(1) unfolding hosted_def
proof (elim disjE exE)
  fix rt port path assume r: "reaches x opens (server_node rt port path) n"
  with assms(2) have "node_step x opens n n'" using server_serves make_move_step by fastforce
  with r show "(\<exists>rt port path. reaches x opens (server_node rt port path) n') \<or>
      (\<exists>rt port sid c url. reaches x True (client_node rt port sid c url) n')"
    using more by blast
next
  fix rt port sid c url assume r: "reaches x True (client_node rt port sid c url) n"
  from make_move_step [OF make_move_opens [OF assms(2)]] r
  show "(\<exists>rt port path. reaches x opens (server_node rt port path) n') \<or>
      (\<exists>rt port sid c url. reaches x True (client_node rt port sid c url) n')"
    using more by blast
qed

lemma hosted_ep_wf: "hosted x opens n \<Longrightarrow> ep_wf (endpoint n)"
  unfolding hosted_def
  by (auto simp: server_node_def client_node_def ep_wf_emit ep_wf_sessions dest!: reaches_ep_wf)

lemma with_strong [simp]: "strong (with_sessions f r) = strong r" "strong (with_streams g r) = strong r"
  by (simp_all add: with_sessions_def with_streams_def split: option.splits)

lemma task_step_strong: "task_step f t inp r = Some (t', sp, r', evs) \<Longrightarrow> strong r' = strong r"
  by (cases t) (auto split: input.splits if_splits side.splits)

lemma make_move_strong: "make_move x opens m n = Some n' \<Longrightarrow> strong n' = strong n"
  by (cases m) (auto simp: settle_def dest: task_step_strong split: if_splits option.splits)

lemma node_at_put:
  "node_at (put_node a n s) b = (if b = a then n\<lparr>strong := 1\<rparr> else node_at s b)"
  by (cases n) (simp add: node_at_def put_node_def)

end
