(* ===== verification/RkTouch.thy ===== *)
theory RkTouch
  imports RkSystem
begin

text \<open>
  What one call of the C ABI does to the endpoints of the process: it changes at most one that is
  there already, and only the way a move of that endpoint does, or it adds a new one in the state
  a server or a client starts in.
\<close>

section \<open>What a call does to the endpoints\<close>

text \<open>
  At most one endpoint \<open>a\<close> changes, to \<open>v\<close>; others stay as they are or are freed.
\<close>

definition touch ::
  "'a process_scheme \<Rightarrow> nat \<Rightarrow> Endpoint \<times> task list \<times> u64 \<Rightarrow> 'a process_scheme \<Rightarrow> bool" where
  "touch st a v st' \<longleftrightarrow>
     next_arc st' = next_arc st \<and>
     (\<forall>b. live st' b \<longrightarrow> live st b \<and> body st' b = (if b = a then v else body st b))"

lemma body_simps [simp]:
  "body (arc_clone a st) b = body st b"
  "body (set_endpoint a ep st) b = (if b = a then (ep, snd (body st a)) else body st b)"
  "body (set_arc a r st) b = (if b = a then (endpoint r, tasks r, next_session r) else body st b)"
  by (simp_all add: body_def arc_clone_def set_endpoint_def)

lemma live_simps [simp]:
  "live (arc_clone a st) b \<longleftrightarrow> b = a \<or> live st b"
  "live (set_endpoint a ep st) b \<longleftrightarrow> b = a \<or> live st b"
  "live (set_arc a r st) b \<longleftrightarrow> b = a \<or> live st b"
  by (auto simp: live_def arc_clone_def set_endpoint_def)

lemma body_trace [simp]: "body (st\<lparr>trace := tr\<rparr>) b = body st b" "live (st\<lparr>trace := tr\<rparr>) b = live st b"
  by (simp_all add: body_def live_def)

lemma body_error [simp]:
  "body (clear_last_error t st) b = body st b" "live (clear_last_error t st) b = live st b"
  "body (set_last_error t m st) b = body st b" "live (set_last_error t m st) b = live st b"
  by (simp_all add: body_def live_def)

lemma next_arc_simps [simp]:
  "next_arc (arc_clone a st) = next_arc st" "next_arc (set_endpoint a ep st) = next_arc st"
  "next_arc (snd (into_owned_c_string v st)) = next_arc st"
  by (simp_all add: arc_clone_def set_endpoint_def into_owned_c_string_def Let_def)

lemma arcs_boundary [simp]: "arcs (snd (into_owned_c_string v st)) = arcs st"
  by (simp add: into_owned_c_string_def Let_def)

lemma same_arcs:
  assumes "arcs st' = arcs st"
  shows "body st' b = body st b" "live st' b = live st b"
  unfolding body_def arc_at_def live_def assms by (rule refl)+

lemma touch_same: "arcs st' = arcs st \<Longrightarrow> next_arc st' = next_arc st \<Longrightarrow> touch st a (body st a) st'"
  unfolding touch_def by (metis same_arcs)

lemma drop_keeps:
  assumes "live (arc_drop b st) c"
  shows "live st c \<and> body (arc_drop b st) c = body st c"
proof (cases "live st b")
  case True
  with assms show ?thesis
    by (auto simp: arc_drop_def Let_def live_def body_def arc_at_def set_arc_def delete_conv' update_conv'
        split: if_splits)
next
  case False
  with assms show ?thesis
    by (auto simp: arc_drop_def Let_def live_def body_def arc_at_def no_arc_def set_arc_def delete_conv'
        split: if_splits)
qed

lemma touch_drop: "touch st a v st' \<Longrightarrow> touch st a v (arc_drop b st')"
  using drop_keeps [of b st'] unfolding touch_def by (metis arc_drop_frame(8))

lemma touch_frame:
  "touch st a v st' \<Longrightarrow> arcs st'' = arcs st' \<Longrightarrow> next_arc st'' = next_arc st' \<Longrightarrow> touch st a v st''"
  unfolding touch_def by (metis same_arcs)

lemma touch_set_endpoint:
  "live st a \<Longrightarrow> touch st a (body st a) st' \<Longrightarrow> body st' a = body st a \<Longrightarrow> touch st a (ep, snd (body st a)) (set_endpoint a ep st')"
  by (auto simp: touch_def)

definition node_of :: "Endpoint \<times> task list \<times> u64 \<Rightarrow> Event list \<Rightarrow> nat \<Rightarrow> node" where
  "node_of v l k = \<lparr>strong = 1, endpoint = fst v, tasks = fst (snd v), next_session = snd (snd v),
     history = l, accepted = k\<rparr>"

lemma node_at_of: "node_at s a = node_of (body (proc s) a) (told s a) (entered s a)"
  by (simp add: node_at_def node_of_def body_def)

definition moved :: "external \<Rightarrow> bool \<Rightarrow> Endpoint \<times> task list \<times> u64 \<Rightarrow> Endpoint \<times> task list \<times> u64 \<Rightarrow> bool" where
  "moved x ok v v' \<longleftrightarrow> v' = v \<or> (\<forall>l k. \<exists>m. make_move x ok m (node_of v l k) = Some (node_of v' l k))"

lemma moved_same [simp]: "moved x ok v v"
  by (simp add: moved_def)

lemma moved_poll:
  "next_event d None (fst v) = (r, w, ep) \<Longrightarrow> moved x ok v (ep, snd v)"
  unfolding moved_def by (intro disjI2 allI exI [of _ "Poll d"]) (simp add: node_of_def)

lemma moved_close:
  "stream_close x (fst v) sid stream tr = (r, ep, tr') \<Longrightarrow> moved x ok v (ep, snd v)"
  unfolding moved_def using stream_close_trace [of x "fst v" sid stream "[]" tr]
  by (intro disjI2 allI exI [of _ "CloseStream sid stream"]) (simp add: node_of_def)

lemma lookup_touch:
  assumes wf: "arcs_wf held st" and same: "arcs st1 = arcs st" "next_arc st1 = next_arc st" "registry st1 = registry st"
    and look: "lookup h st1 = (Some a, st2)"
  shows "live st a \<and> reg st h = Some a \<and> touch st a (body st a) st2 \<and> body st2 a = body st a \<and> st2 = arc_clone a st1 \<and> live st2 a"
proof -
  have wf1: "arcs_wf held st1" using arcs_wf_frame [OF same(3,1,2)] wf by simp
  from lookup_wf [OF wf1 look] have r: "reg st1 h = Some a" and c: "st2 = arc_clone a st1" by simp_all
  have "reg st1 = reg st" by (simp add: reg_def same)
  with r have r': "reg st h = Some a" by simp
  from registered_arc [OF wf r'] have l: "live st a" by (simp add: live_def)
  have "touch st a (body st a) (arc_clone a st1)"
    using l by (auto simp: touch_def same same_arcs [OF same(1)])
  with l r' c show ?thesis by (simp add: same_arcs [OF same(1)])
qed

lemma touch_into_owned:
  "touch st a v st' \<Longrightarrow> into_owned_c_string txt st' = (p, st'') \<Longrightarrow> touch st a v (st''\<lparr>cells_ptr := cp\<rparr>)"
  by (erule touch_frame) (auto simp: into_owned_c_string_def Let_def)

lemma lookup_none_touch:
  assumes "arcs_wf held st" and same: "arcs st1 = arcs st" "next_arc st1 = next_arc st" "registry st1 = registry st"
    and "lookup h st1 = (None, st2)"
  shows "touch st a (body st a) st2"
proof -
  have "st2 = st1"
    using assms lookup_None [of held st1 h st2] arcs_wf_frame [OF same(3,1,2)] by simp
  with touch_same [OF same(1,2)] show ?thesis by simp
qed

text \<open>What one call does to the endpoint its handle names, if it names one.\<close>

definition touches_one :: "external \<Rightarrow> (nat \<Rightarrow> bool) \<Rightarrow> process \<Rightarrow> process \<Rightarrow> bool" where
  "touches_one x ok st st' \<longleftrightarrow> (\<exists>a v. touch st a v st' \<and> moved x (ok a) (body st a) v)"

lemma touches_still: "touch st a (body st a) st' \<Longrightarrow> touches_one x ok st st'"
  unfolding touches_one_def using moved_same by blast

lemma fst_body: "fst (body st a) = endpoint (arc_at st a)"
  by (simp add: body_def)

lemma poll_touches:
  assumes wf: "arcs_wf held st"
  shows "touches_one x ok st (snd (rk_quic_server_poll x t h ms out None st))"
proof -
  let ?st1 = "(clear_last_error t st)\<lparr>cells_ptr := write_out out 0 (cells_ptr st)\<rparr>"
  have same: "arcs ?st1 = arcs st" "next_arc ?st1 = next_arc st" "registry ?st1 = registry st" by simp_all
  obtain r st2 where look: "lookup h ?st1 = (r, st2)" by fastforce
  show ?thesis
  proof (cases r)
    case None
    from touches_still [OF lookup_none_touch [OF wf same look [unfolded None]]] look None show ?thesis
      by (simp add: rk_quic_server_poll_def Let_def)
  next
    case (Some a)
    note l = lookup_touch [OF wf same look [unfolded Some]]
    obtain e w ep where n: "next_event (poll_timeout ms) None (endpoint (arc_at st2 a)) = (e, w, ep)"
      by (metis prod_cases3)
    have t3: "touch st a (ep, snd (body st a)) (set_endpoint a ep st2)"
      using l touch_set_endpoint by blast
    have "touch st a (ep, snd (body st a)) (snd (rk_quic_server_poll x t h ms out None st))"
      using look Some n t3
      by (auto simp: rk_quic_server_poll_def Let_def split: option.splits sum.splits prod.splits
          intro!: touch_drop touch_into_owned [OF t3] intro: touch_frame [OF t3])
    moreover have "moved x (ok a) (body st a) (ep, snd (body st a))"
      using moved_poll [of "poll_timeout ms" "body st a" e w ep] n l fst_body [of st a] by simp
    ultimately show ?thesis unfolding touches_one_def by blast
  qed
qed

lemma close_touches:
  assumes wf: "arcs_wf held st"
  shows "touches_one x ok st (snd (rk_quic_stream_close x t h sid stream st))"
proof -
  let ?st1 = "clear_last_error t st"
  have same: "arcs ?st1 = arcs st" "next_arc ?st1 = next_arc st" "registry ?st1 = registry st" by simp_all
  obtain r st2 where look: "lookup h ?st1 = (r, st2)" by fastforce
  show ?thesis
  proof (cases r)
    case None
    from touches_still [OF lookup_none_touch [OF wf same look [unfolded None]]] look None show ?thesis
      by (simp add: rk_quic_stream_close_def)
  next
    case (Some a)
    note l = lookup_touch [OF wf same look [unfolded Some]]
    obtain res ep tr where n: "stream_close x (endpoint (arc_at st2 a)) sid stream (trace st2) = (res, ep, tr)"
      by (metis prod_cases3)
    have "touch st a (body st a) (st2\<lparr>trace := tr\<rparr>)"
      by (rule touch_frame [OF conjunct1 [OF conjunct2 [OF conjunct2 [OF l]]]]) simp_all
    moreover have "body (st2\<lparr>trace := tr\<rparr>) a = body st a" using l by simp
    ultimately have "touch st a (ep, snd (body st a)) (set_endpoint a ep (st2\<lparr>trace := tr\<rparr>))"
      using l touch_set_endpoint by blast
    with look Some n have "touch st a (ep, snd (body st a)) (snd (rk_quic_stream_close x t h sid stream st))"
      by (simp add: rk_quic_stream_close_def touch_drop)
    moreover have "moved x (ok a) (body st a) (ep, snd (body st a))"
      using moved_close [of x "body st a" sid stream "trace st2"] n l fst_body [of st a] by simp
    ultimately show ?thesis unfolding touches_one_def by blast
  qed
qed

text \<open>Calls that only read the endpoint.\<close>

lemma reading_touches:
  assumes wf: "arcs_wf held st"
  shows "touches_one x ok st (snd (rk_quic_server_local_port t h out st))"
    and "touches_one x ok st (snd (rk_quic_session_send x t h sid payload reliable st))"
    and "touches_one x ok st (snd (rk_quic_stream_send x t h sid stream payload st))"
proof -
  let ?st1 = "clear_last_error t st"
  have same: "arcs ?st1 = arcs st" "next_arc ?st1 = next_arc st" "registry ?st1 = registry st" by simp_all
  have refused: "touches_one x ok st (set_last_error t msg_payload_null ?st1)"
    by (rule touches_still [of _ 0], rule touch_same) simp_all
  have gone: "touches_one x ok st st2" if "lookup h ?st1 = (None, st2)" for st2
    using touches_still [OF lookup_none_touch [OF wf same that]] .
  have still: "touches_one x ok st (arc_drop a st3)"
    if "lookup h ?st1 = (Some a, st2)" "arcs st3 = arcs st2" "next_arc st3 = next_arc st2" for a st2 st3
    using lookup_touch [OF wf same that(1)] touches_still [OF touch_drop [OF touch_frame [OF _ that(2,3)]]]
    by blast
  show "touches_one x ok st (snd (rk_quic_server_local_port t h out st))"
    by (auto simp: rk_quic_server_local_port_def split: prod.splits option.splits intro: gone still)
  show "touches_one x ok st (snd (rk_quic_session_send x t h sid payload reliable st))"
    by (auto simp: rk_quic_session_send_def Let_def split: prod.splits option.splits intro: gone still simp: refused)
  show "touches_one x ok st (snd (rk_quic_stream_send x t h sid stream payload st))"
    by (auto simp: rk_quic_stream_send_def Let_def split: prod.splits option.splits intro: gone still simp: refused)
qed

lemma stop_touches:
  assumes wf: "arcs_wf held st"
  shows "touches_one x ok st (snd (rk_quic_server_stop t h st))"
proof -
  have "touch st 0 (body st 0) (snd (remove h (clear_last_error t st)))"
    by (auto simp: remove_def Let_def split: option.splits intro!: touch_drop touch_same)
  then show ?thesis
    by (auto simp: rk_quic_server_stop_def split: prod.splits intro: touches_still)
qed

lemma moved_open:
  assumes "lock_get (sessions (fst v)) = Some m" "map_of m sid = Some c"
  shows "moved x True v
    (case lock_get (streams (fst v)) of
       None \<Rightarrow> fst v
     | Some t \<Rightarrow> (fst v)\<lparr>streams := lock_set (AList.update (sid, x_stream_id x s) s t) (streams (fst v))\<rparr>,
     fst (snd v) @ [ReadBi sid (x_stream_id x s) rcv], snd (snd v))"
  unfolding moved_def using assms
  by (intro disjI2 allI exI [of _ "OpenedStream sid s rcv"])
    (simp add: node_of_def with_streams_def split: option.splits)

lemma open_on_touches:
  assumes "open_stream_on x a sid st = (r, st')" "live st a"
  shows "\<exists>v. touch st a v st' \<and> moved x True (body st a) v"
proof -
  have still: "touch st a (body st a) (st\<lparr>trace := tr\<rparr>)" for tr
    by (rule touch_same) simp_all
  let ?ep = "endpoint (arc_at st a)"
  show ?thesis
  proof (cases r)
    case (Inl e)
    with assms(1) have "\<exists>tr. st' = st\<lparr>trace := tr\<rparr>"
      by (auto simp: open_stream_on_def Let_def split: option.splits sum.splits prod.splits
          intro: exI [of _ "trace st"])
    with still show ?thesis by (metis moved_same)
  next
    case (Inr q)
    with assms(1) obtain m c s rcv tr where ses: "lock_get (sessions ?ep) = Some m" "map_of m sid = Some c"
      and st': "st' = set_arc a ((arc_at st a)\<lparr>endpoint := (case lock_get (streams ?ep) of
           None \<Rightarrow> ?ep
         | Some t \<Rightarrow> ?ep\<lparr>streams := lock_set (AList.update (sid, x_stream_id x s) s t) (streams ?ep)\<rparr>),
         tasks := tasks (arc_at st a) @ [ReadBi sid (x_stream_id x s) rcv]\<rparr>) (st\<lparr>trace := tr\<rparr>)"
      by (auto simp: open_stream_on_def Let_def split: option.splits sum.splits prod.splits)
    let ?v = "(case lock_get (streams ?ep) of
           None \<Rightarrow> ?ep
         | Some t \<Rightarrow> ?ep\<lparr>streams := lock_set (AList.update (sid, x_stream_id x s) s t) (streams ?ep)\<rparr>,
         tasks (arc_at st a) @ [ReadBi sid (x_stream_id x s) rcv], next_session (arc_at st a))"
    have "touch st a ?v st'" using assms(2) by (simp add: st' touch_def)
    moreover have "moved x True (body st a) ?v"
      using moved_open [of "body st a" m sid c x s rcv] ses unfolding body_def fst_conv snd_conv by blast
    ultimately show ?thesis by blast
  qed
qed

lemma touch_trans:
  "touch st a (body st a) st1 \<Longrightarrow> body st1 a = body st a \<Longrightarrow> touch st1 a v st2 \<Longrightarrow> touch st a v st2"
  unfolding touch_def by metis

lemma open_touches:
  assumes wf: "arcs_wf held st" and ok: "\<And>a. reg st h = Some a \<Longrightarrow> ok a"
  shows "touches_one x ok st (snd (rk_quic_client_open_stream x t h sid out st))"
proof -
  let ?st1 = "clear_last_error t st"
  have same: "arcs ?st1 = arcs st" "next_arc ?st1 = next_arc st" "registry ?st1 = registry st" by simp_all
  obtain r st2 where look: "lookup h ?st1 = (r, st2)" by fastforce
  obtain res st3 where os: "open_stream x h sid ?st1 = (res, st3)" by fastforce
  have fin: "touch st a v (snd (rk_quic_client_open_stream x t h sid out st))" if "touch st a v st3" for a v
    using os that
    by (auto simp: rk_quic_client_open_stream_def split: sum.splits prod.splits intro: touch_frame)
  show ?thesis
  proof (cases r)
    case None
    with os look have "st3 = st2" by (simp add: open_stream_def)
    with touches_still [OF fin [OF lookup_none_touch [OF wf same look [unfolded None], folded \<open>st3 = st2\<close>]]]
    show ?thesis by simp
  next
    case (Some a)
    note l = lookup_touch [OF wf same look [unfolded Some]]
    obtain res' st4 where o4: "open_stream_on x a sid st2 = (res', st4)" by fastforce
    from open_on_touches [OF o4] l obtain v where v: "touch st2 a v st4" "moved x True (body st2 a) v" by blast
    have "touch st a v st4" using touch_trans l v(1) by blast
    moreover have "st3 = arc_drop a st4" using os look Some o4 by (simp add: open_stream_def)
    ultimately have "touch st a v (snd (rk_quic_client_open_stream x t h sid out st))"
      using fin touch_drop by blast
    moreover have "moved x (ok a) (body st a) v" using v(2) l ok by simp
    ultimately show ?thesis unfolding touches_one_def by blast
  qed
qed

section \<open>New endpoints\<close>

definition adds ::
  "'a process_scheme \<Rightarrow> Endpoint \<times> task list \<times> u64 \<Rightarrow> 'a process_scheme \<Rightarrow> bool" where
  "adds st v st' \<longleftrightarrow>
     (\<forall>b. live st' b \<longrightarrow>
        (if b = next_arc st then body st' b = v else live st b \<and> body st' b = body st b))"

definition begins :: "Endpoint \<times> task list \<times> u64 \<Rightarrow> bool" where
  "begins v \<longleftrightarrow>
     (\<exists>rt port path. node_of v (buf (guarded (events (fst v)))) 0 = server_node rt port path) \<or>
     (\<exists>rt port sid c url. node_of v (buf (guarded (events (fst v)))) 0 = client_node rt port sid c url)"

definition grows :: "'a process_scheme \<Rightarrow> 'a process_scheme \<Rightarrow> bool" where
  "grows st st' \<longleftrightarrow> (\<exists>v. begins v \<and> adds st v st')"

lemma next_not_live: "arcs_wf held st \<Longrightarrow> \<not> live st (next_arc st)"
  by (cases "map_of (arcs st) (next_arc st)") (auto simp: live_def dest: arcs_wfD(3))

lemma adds_none: "\<not> live st (next_arc st) \<Longrightarrow> arcs st' = arcs st \<Longrightarrow> adds st v st'"
  unfolding adds_def by (metis same_arcs)

lemma adds_frame: "adds st v st' \<Longrightarrow> arcs st'' = arcs st' \<Longrightarrow> adds st v st''"
  unfolding adds_def by (metis same_arcs)

lemma adds_from: "adds st0 v st' \<Longrightarrow> arcs st0 = arcs st \<Longrightarrow> next_arc st0 = next_arc st \<Longrightarrow> adds st v st'"
  unfolding adds_def by (metis same_arcs)

lemma register_adds:
  assumes "arcs_wf held st" "register h r st = (res, st')"
  shows "adds st (endpoint r, tasks r, next_session r) st'"
proof -
  let ?st = "st\<lparr>arcs := AList.update (next_arc st) r (arcs st), next_arc := Suc (next_arc st),
    registry := lock_set (AList.update h (next_arc st) (guarded (registry st))) (registry st)\<rparr>"
  have new: "adds st (endpoint r, tasks r, next_session r) ?st"
    by (auto simp: adds_def live_def body_def arc_at_def update_conv')
  have "st' = ?st \<or> (\<exists>old. st' = arc_drop old ?st)"
    using assms(2) by (auto simp: register_def lock_registry [OF assms(1)] arc_new_def Let_def split: option.splits)
  then show ?thesis
  proof
    assume "\<exists>old. st' = arc_drop old ?st"
    then obtain old where "st' = arc_drop old ?st" ..
    with new drop_keeps [of old ?st] show ?thesis unfolding adds_def by metis
  qed (use new in simp)
qed

lemma begins_server: "begins (live_endpoint rt port, [AcceptLoop path], 1)"
  unfolding begins_def
  by (rule disjI1) (auto simp: node_of_def server_node_def live_endpoint_def sync_channel_def)

lemma begins_client:
  "begins (emit_on (SessionOpened sid [] url)
     ((live_endpoint rt port)\<lparr>sessions := lock_set [(sid, c)] (sessions (live_endpoint rt port))\<rparr>),
     [Serve ClientSide sid c], 1)"
  unfolding begins_def
  by (rule disjI2) (auto simp: node_of_def client_node_def emit_on_def emit_buf live_endpoint_def
      sync_channel_def EVENT_QUEUE_DEPTH_def)

lemma start_adds:
  assumes wf: "arcs_wf held st" and "start x cfg st = (r, st')"
  shows "grows st st'"
proof -
  have none: "grows st (st\<lparr>trace := tr\<rparr>)" for tr
    using begins_server adds_none [OF next_not_live [OF wf]] unfolding grows_def by fastforce
  have reg: "grows st st2"
    if "register h \<lparr>strong = 1, endpoint = live_endpoint rt port, tasks = [AcceptLoop path], next_session = 1\<rparr>
      (st\<lparr>trace := tr, handle_counter := hc\<rparr>) = (res, st2)" for h rt port path tr hc res st2
    
  proof -
    have "arcs_wf held (st\<lparr>trace := tr, handle_counter := hc\<rparr>)" using wf by simp
    from adds_from [OF register_adds [OF this that]] begins_server show ?thesis unfolding grows_def by fastforce
  qed
  show ?thesis
    using assms(2) none [of "trace st"] none reg
    by (auto simp: start_def next_handle_def Let_def split: sum.splits prod.splits if_splits)
qed

lemma connect_adds:
  assumes wf: "arcs_wf held st" and "connect x cfg st = (r, st')"
  shows "grows st st'"
proof -
  have none: "grows st (st\<lparr>trace := tr\<rparr>)" for tr
    using begins_server adds_none [OF next_not_live [OF wf]] unfolding grows_def by fastforce
  have reg: "grows st st2"
    if "register h \<lparr>strong = 1, endpoint = emit_on (SessionOpened sid [] url)
        ((live_endpoint rt port)\<lparr>sessions := lock_set [(sid, c)] (sessions (live_endpoint rt port))\<rparr>),
        tasks = [Serve ClientSide sid c], next_session = 1\<rparr>
      (st\<lparr>trace := tr, handle_counter := hc\<rparr>) = (res, st2)" for h rt port sid c url tr hc res st2
    
  proof -
    have "arcs_wf held (st\<lparr>trace := tr, handle_counter := hc\<rparr>)" using wf by simp
    from adds_from [OF register_adds [OF this that]] begins_client show ?thesis unfolding grows_def by fastforce
  qed
  show ?thesis
    using assms(2) none [of "trace st"] none reg
    by (auto simp: connect_def next_handle_def Let_def split: sum.splits prod.splits if_splits)
qed

lemma start_call_adds:
  assumes wf: "arcs_wf held st"
  shows "grows st (snd (rk_quic_server_start x t json out st))"
proof -
  let ?st0 = "clear_last_error t st"
  have none: "grows st st'" if "arcs st' = arcs st" for st'
    using begins_server adds_none [OF next_not_live [OF wf] that] unfolding grows_def by blast
  have go: "grows st st''" if "start x cfg ?st0 = (r, st')" "arcs st'' = arcs st'" for cfg r st' st''
  proof -
    have wf0: "arcs_wf held ?st0" using wf by simp
    from start_adds [OF wf0 that(1)] obtain v where v: "begins v" "adds ?st0 v st'" unfolding grows_def by blast
    have "adds st v st'" by (rule adds_from [OF v(2)]) simp_all
    from v(1) adds_frame [OF this that(2)] show ?thesis unfolding grows_def by blast
  qed
  show ?thesis
    by (auto simp: rk_quic_server_start_def Let_def split: option.splits sum.splits prod.splits
        intro: none go)
qed

lemma connect_call_adds:
  assumes wf: "arcs_wf held st"
  shows "grows st (snd (rk_quic_client_connect x t json out_h out_s st))"
proof -
  let ?st0 = "clear_last_error t st"
  have none: "grows st st'" if "arcs st' = arcs st" for st'
    using begins_server adds_none [OF next_not_live [OF wf] that] unfolding grows_def by blast
  have go: "grows st st''" if "connect x cfg ?st0 = (r, st')" "arcs st'' = arcs st'" for cfg r st' st''
  proof -
    have wf0: "arcs_wf held ?st0" using wf by simp
    from connect_adds [OF wf0 that(1)] obtain v where v: "begins v" "adds ?st0 v st'" unfolding grows_def by blast
    have "adds st v st'" by (rule adds_from [OF v(2)]) simp_all
    from v(1) adds_frame [OF this that(2)] show ?thesis unfolding grows_def by blast
  qed
  show ?thesis
    by (auto simp: rk_quic_client_connect_def Let_def
        split: option.splits sum.splits prod.splits outcome.splits intro: none go)
qed

lemma call_changes:
  assumes wf: "arcs_wf held st" and ok: "call_ok opens c st"
  shows "touches_one x (opening_ok opens st) st (snd (api x t c st)) \<or>
    grows st (snd (api x t c st))"
proof (cases c)
  case (ClientOpenStream h sid out)
  have "\<And>a. reg st h = Some a \<Longrightarrow> opening_ok opens st a" using ok ClientOpenStream by simp
  with ClientOpenStream open_touches [OF wf] show ?thesis by simp
next
  case (ServerPoll h ms out arrival)
  with ok poll_touches [OF wf] show ?thesis by simp
qed (simp_all add: start_call_adds [OF wf] connect_call_adds [OF wf] stop_touches [OF wf]
    reading_touches [OF wf] close_touches [OF wf])

end
