(* ===== verification/RkWhole.thy ===== *)
theory RkWhole
  imports RkTouch
begin

text \<open>
  What holds in every state the process can reach, with any threads inside calls and any tasks
  running: who owns which endpoint, that each endpoint is in a state of its own runs, that no call
  or task of one endpoint touches another, and what the C ABI answers about a session that is over.
\<close>

section \<open>The invariant of the process\<close>

definition sys_inv :: "external \<Rightarrow> bool \<Rightarrow> system \<Rightarrow> bool" where
  "sys_inv x opens s \<longleftrightarrow> arcs_wf (in_use s) (proc s) \<and>
     (\<forall>a. live (proc s) a \<longrightarrow> hosted x opens (node_at s a))"

lemma arcs_wf_count:
  assumes "arcs_wf held st" "\<And>b. count_list held' b = count_list held b"
  shows "arcs_wf held' st"
  using assms(1) unfolding arcs_wf_def refs_def assms(2) .

lemma count_remove1: "a \<in> set l \<Longrightarrow> count_list (a # remove1 a l) b = count_list l b"
  by (induction l) auto

lemma inv_begins:
  assumes "begins v"
  shows "hosted x opens (node_of v (buf (guarded (events (fst v)))) 0)"
  using assms here unfolding begins_def hosted_def by metis

lemma inv_moved:
  assumes "moved x (opens \<or> \<not> serves (fst (snd v))) v v'" "hosted x opens (node_of v l k)"
  shows "hosted x opens (node_of v' l k)"
proof (cases "v' = v")
  case False
  with assms(1) obtain m where
    "make_move x (opens \<or> \<not> serves (fst (snd v))) m (node_of v l k) = Some (node_of v' l k)"
    unfolding moved_def by blast
  then have "make_move x (opens \<or> \<not> serves (tasks (node_of v l k))) m (node_of v l k) = Some (node_of v' l k)"
    by (simp add: node_of_def)
  from hosted_move [OF assms(2) this] show ?thesis .
qed (use assms(2) in simp)

lemma inv_call:
  assumes inv: "sys_inv x opens s" and ok: "call_ok opens c (proc s)"
  shows "sys_inv x opens (after_call x t c s)"
proof -
  let ?st = "proc s" and ?st' = "snd (api x t c (proc s))" and ?s' = "after_call x t c s"
  have wf: "arcs_wf (in_use s) ?st" and host: "live ?st a \<Longrightarrow> hosted x opens (node_at s a)" for a
    using inv by (simp_all add: sys_inv_def)
  note new = next_not_live [OF wf]
  have at: "node_at ?s' b = (if b = next_arc ?st then node_of (body ?st' b) (pending ?st' b) 0
      else node_of (body ?st' b) (told s b) (entered s b))" for b
    by (simp add: node_at_of after_call_def Let_def)
  have "hosted x opens (node_at ?s' b)" if b: "live ?st' b" for b
    using call_changes [OF wf ok, of x t]
  proof
    assume "touches_one x (opening_ok opens ?st) ?st ?st'"
    then obtain a v where t: "touch ?st a v ?st'" "moved x (opening_ok opens ?st a) (body ?st a) v"
      unfolding touches_one_def by blast
    from t(1) b have l: "live ?st b" "body ?st' b = (if b = a then v else body ?st b)"
      unfolding touch_def by blast+
    from l(1) new have ne: "b \<noteq> next_arc ?st" by auto
    have old: "hosted x opens (node_of (body ?st b) (told s b) (entered s b))"
      using host [OF l(1)] unfolding node_at_of .
    have mv: "moved x (opens \<or> \<not> serves (fst (snd (body ?st a)))) (body ?st a) v"
      using t(2) by (simp add: opening_ok_def body_def)
    have "hosted x opens (node_of (body ?st' b) (told s b) (entered s b))"
      using old inv_moved [OF mv] l(2) by (cases "b = a") simp_all
    with ne at [of b] show ?thesis by simp
  next
    assume "grows ?st ?st'"
    then obtain v where v: "begins v" "adds ?st v ?st'" unfolding grows_def by blast
    show ?thesis
    proof (cases "b = next_arc ?st")
      case True
      with v b have "body ?st' b = v" unfolding adds_def by metis
      moreover have "pending ?st' b = buf (guarded (events (fst v)))"
        unfolding \<open>body ?st' b = v\<close> [symmetric] by (simp add: pending_def body_def)
      ultimately show ?thesis using inv_begins [OF v(1)] True at [of b] by simp
    next
      case False
      with v b have "live ?st b \<and> body ?st' b = body ?st b" unfolding adds_def by metis
      with host [of b] False show ?thesis unfolding at by (simp add: node_at_of)
    qed
  qed
  moreover have "arcs_wf (in_use s) ?st'" by (rule wf_api [OF wf])
  ultimately show ?thesis by (simp add: sys_inv_def after_call_def Let_def)
qed

lemma may_move_live: "arcs_wf (in_use s) (proc s) \<Longrightarrow> may_move s a m \<Longrightarrow> live (proc s) a"
  using held_arc [of "in_use s" "proc s" a] by (cases m) (auto simp: live_def)

lemma inv_move:
  assumes inv: "sys_inv x opens s" and may: "may_move s a m"
    and move: "make_move x (opening_ok opens (proc s) a) m (node_at s a) = Some n"
  shows "sys_inv x opens (put_node a n s)"
proof -
  have wf: "arcs_wf (in_use s) (proc s)" and host: "live (proc s) b \<Longrightarrow> hosted x opens (node_at s b)" for b
    using inv by (simp_all add: sys_inv_def)
  from may_move_live [OF wf may] have l: "live (proc s) a" .
  have n: "hosted x opens n"
    by (rule hosted_move [OF host [OF l]]) (use move in \<open>simp add: opening_ok_def node_at_def\<close>)
  have one: "strong n = 1" using make_move_strong [OF move] by (simp add: node_at_def)
  then have same: "node_at (put_node a n s) a = n" by (cases n) (simp add: node_at_put)
  from l obtain r where r: "map_of (arcs (proc s)) a = Some r" by (auto simp: live_def)
  with arcs_wfD(3) [OF wf r] hosted_ep_wf [OF n]
  have "arcs_wf (in_use s) (proc (put_node a n s))"
    unfolding put_node_def by (auto simp: arc_at_def intro: arcs_wf_set_arc [OF wf r])
  moreover have "hosted x opens (node_at (put_node a n s) b)" if "live (proc (put_node a n s)) b" for b
  proof (cases "b = a")
    case False
    with that have "live (proc s) b" by (simp add: put_node_def)
    from host [OF this] False show ?thesis by (simp add: node_at_put)
  qed (simp add: same n)
  moreover have "in_use (put_node a n s) = in_use s" by (simp add: put_node_def)
  ultimately show ?thesis by (simp add: sys_inv_def)
qed

lemma inv_begin:
  assumes inv: "sys_inv x opens s" and look: "lookup h (proc s) = (Some a, st)"
  shows "sys_inv x opens (s\<lparr>proc := st, in_use := a # in_use s\<rparr>)"
proof -
  have wf: "arcs_wf (in_use s) (proc s)" using inv by (simp add: sys_inv_def)
  from lookup_touch [OF wf refl refl refl look] have t: "touch (proc s) a (body (proc s) a) st" by blast
  have "node_at (s\<lparr>proc := st, in_use := a # in_use s\<rparr>) b = node_at s b \<and> live (proc s) b" if "live st b" for b
    using t that by (auto simp: touch_def node_at_of)
  with inv have "hosted x opens (node_at (s\<lparr>proc := st, in_use := a # in_use s\<rparr>) b)" if "live st b" for b
    using that by (simp add: sys_inv_def)
  with conjunct1 [OF lookup_wf [OF wf look]] show ?thesis by (simp add: sys_inv_def)
qed

lemma inv_end:
  assumes inv: "sys_inv x opens s" and a: "a \<in> set (in_use s)"
  shows "sys_inv x opens (s\<lparr>proc := arc_drop a (proc s), in_use := remove1 a (in_use s)\<rparr>)"
proof -
  have wf: "arcs_wf (in_use s) (proc s)" using inv by (simp add: sys_inv_def)
  have "arcs_wf (a # remove1 a (in_use s)) (proc s)"
    by (rule arcs_wf_count [OF wf]) (rule count_remove1 [OF a])
  from arc_drop_wf [OF this] drop_keeps [of a "proc s"] inv show ?thesis
    by (auto simp: sys_inv_def node_at_of)
qed

lemma inv_step: "sys_step x opens s s' \<Longrightarrow> sys_inv x opens s \<Longrightarrow> sys_inv x opens s'"
  by (induction rule: sys_step.induct) (simp_all add: inv_call inv_move inv_begin inv_end)

lemma inv_start: "sys_inv x opens system_start"
  by (simp add: sys_inv_def system_start_def live_def)

lemma inv_reaches: "sys_reaches x opens s \<Longrightarrow> sys_inv x opens s"
  by (induction rule: sys_reaches.induct) (simp_all add: inv_start inv_step)

section \<open>Runs of the process to evaluate\<close>

text \<open>Moves of the tasks of one endpoint, made inside a process.\<close>

fun task_moves :: "move list \<Rightarrow> bool" where
  "task_moves [] = True"
| "task_moves (Run _ _ # ms) = task_moves ms"
| "task_moves (_ # _) = False"

lemma process_runs_tasks:
  "sys_reaches x opens s \<Longrightarrow> live (proc s) a \<Longrightarrow> task_moves ms \<Longrightarrow>
     make_moves x b ms (node_at s a) = Some n \<Longrightarrow>
     \<exists>s'. sys_reaches x opens s' \<and> node_at s' a = n \<and> live (proc s') a \<and>
       registry (proc s') = registry (proc s) \<and> in_use s' = in_use s"
proof (induction ms arbitrary: s)
  case (Cons m ms)
  from Cons.prems(3) obtain i inp where m: "m = Run i inp" by (cases m) simp_all
  from Cons.prems(4) obtain n1 where n1: "make_move x b m (node_at s a) = Some n1"
    "make_moves x b ms n1 = Some n" by (auto split: option.splits)
  let ?s1 = "put_node a n1 s"
  have "make_move x (opening_ok opens (proc s) a) m (node_at s a) = Some n1"
    using n1(1) by (simp add: m)
  from sys_move [OF _ this] Cons.prems(1,2) have r: "sys_reaches x opens ?s1"
    by (auto simp: m intro: sys_more)
  have "strong n1 = 1" using make_move_strong [OF n1(1)] by (simp add: node_at_def)
  then have "node_at ?s1 a = n1" by (cases n1) (simp add: node_at_put)
  with Cons.IH [OF r] n1(2) Cons.prems(2,3) m show ?case by (fastforce simp: put_node_def)
qed auto

definition demo_hosting :: system where
  "demo_hosting = after_call calm 1 (ServerStart (Some [NUL]) 8) system_start"

lemma demo_hosting_reaches: "sys_reaches calm opens demo_hosting"
  unfolding demo_hosting_def by (rule sys_more [OF sys_here sys_call]) (simp add: system_start_def)

lemma demo_hosting_facts:
  "live (proc demo_hosting) 0" "reg (proc demo_hosting) 1 = Some 0" "in_use demo_hosting = []"
  "node_at demo_hosting 0 = demo_start"
proof -
  have b: "borrow_c_string (Some [NUL]) = Some []" by code_simp
  have j: "x_server_config_from_str calm [] = Inr good_server_config" by (simp add: calm_def)
  have p: "proc demo_hosting = snd (api calm 1 (ServerStart (Some [NUL]) 8) initial_process)"
    by (simp add: demo_hosting_def after_call_def system_start_def Let_def)
  have r: "arcs (proc demo_hosting) = [(0, \<lparr>strong = 1, endpoint = live_endpoint 0 4433,
      tasks = [AcceptLoop ''/rk''], next_session = 1\<rparr>)]"
    and g: "registry (proc demo_hosting) = new_mutex [(1, 0)]"
    unfolding p
    by (simp_all add: rk_quic_server_start_def b j good_config_parses Let_def)
      (simp_all add: start_def identity_from_def calm_def Let_def next_handle_def register_def
        arc_new_def new_mutex_def lock_set_def)
  from r show "live (proc demo_hosting) 0" by (simp add: live_def)
  from g show "reg (proc demo_hosting) 1 = Some 0" by (simp add: reg_def new_mutex_def)
  show "in_use demo_hosting = []"
    by (simp add: demo_hosting_def after_call_def system_start_def Let_def)
  have "told demo_hosting 0 = pending (proc demo_hosting) 0" "entered demo_hosting 0 = 0"
    by (simp_all add: demo_hosting_def after_call_def system_start_def Let_def)
  with r show "node_at demo_hosting 0 = demo_start"
    by (simp add: node_at_def arc_at_def demo_start_def server_node_def pending_def live_endpoint_def
        sync_channel_def new_mutex_def)
qed

lemma demo_session_over:
  "\<exists>s. sys_reaches calm opens s \<and> live (proc s) 0 \<and> reg (proc s) 1 = Some 0 \<and>
     serves (tasks (arc_at (proc s) 0)) \<and> entered s 0 = 1 \<and>
     told s 0 = [SessionOpened 1 ''localhost'' ''/rk'', SessionClosed 1 ''timed out'']"
proof -
  from demo_closed obtain n where n: "make_moves calm False (demo_accept @ demo_loss) demo_start = Some n"
    "accepted n = 1" "tasks n = [AcceptLoop ''/rk'', Done]"
    "history n = [SessionOpened 1 ''localhost'' ''/rk'', SessionClosed 1 ''timed out'']" by blast
  have "task_moves (demo_accept @ demo_loss)" by (simp add: demo_accept_def demo_loss_def)
  from process_runs_tasks [OF demo_hosting_reaches demo_hosting_facts(1) this] n(1) demo_hosting_facts(4)
  obtain s where s: "sys_reaches calm opens s" "node_at s 0 = n" "live (proc s) 0"
    "registry (proc s) = registry (proc demo_hosting)" by metis
  then have "reg (proc s) 1 = Some 0" using demo_hosting_facts(2) by (simp add: reg_def)
  with s n(2-4) show ?thesis by (intro exI [of _ s]) (auto simp: node_at_def)
qed

section \<open>Ownership while calls overlap\<close>

text \<open>
  C4: In every state of the process, whatever calls are in flight and however they interleave, an
  endpoint is in memory exactly while a handle or a call refers to it; its count is the number of
  these references; no handle and no call refers to an endpoint that was freed; two handles never
  name the same endpoint; and every endpoint in memory is healthy.
\<close>

theorem ownership_under_overlap:
  assumes "sys_reaches x opens s"
  shows "(\<forall>a. live (proc s) a \<longleftrightarrow> (\<exists>h. reg (proc s) h = Some a) \<or> a \<in> set (in_use s)) \<and>
    (\<forall>a. live (proc s) a \<longrightarrow> ep_wf (endpoint (arc_at (proc s) a)) \<and>
       strong (arc_at (proc s) a) =
         (if \<exists>h. reg (proc s) h = Some a then 1 else 0) + count_list (in_use s) a) \<and>
    (\<forall>h h' a. reg (proc s) h = Some a \<longrightarrow> reg (proc s) h' = Some a \<longrightarrow> h' = h)"
proof -
  have wf: "arcs_wf (in_use s) (proc s)" using inv_reaches [OF assms] by (simp add: sys_inv_def)
  have there: "live (proc s) a" if "(\<exists>h. reg (proc s) h = Some a) \<or> a \<in> set (in_use s)" for a
    using that registered_arc [OF wf] held_arc [OF wf] by (auto simp: live_def)
  have count: "ep_wf (endpoint (arc_at (proc s) a)) \<and> strong (arc_at (proc s) a) = refs (proc s) (in_use s) a
      \<and> 0 < refs (proc s) (in_use s) a" if "live (proc s) a" for a
    using that arcs_wfD(3) [OF wf] by (auto simp: live_def arc_at_def)
  have owned: "(\<exists>h. reg (proc s) h = Some a) \<or> a \<in> set (in_use s)" if "live (proc s) a" for a
    using count [OF that] count_list_0_iff [of "in_use s" a] by (auto simp: refs_def split: if_splits)
  show ?thesis
    using there owned count arcs_wfD(2) [OF wf] unfolding refs_def by blast
qed

theorem ownership_under_overlap_witness:
  "\<exists>s. sys_reaches calm True s \<and> in_use s = [0] \<and> live (proc s) 0 \<and> strong (arc_at (proc s) 0) = 2"
proof -
  let ?s = "demo_hosting"
  have wf: "arcs_wf (in_use ?s) (proc ?s)"
    using inv_reaches [OF demo_hosting_reaches] by (simp add: sys_inv_def)
  from lookup_registered [OF wf demo_hosting_facts(2)]
  have "sys_step calm True ?s (?s\<lparr>proc := arc_clone 0 (proc ?s), in_use := 0 # in_use ?s\<rparr>)"
    by (rule sys_begin)
  from sys_more [OF demo_hosting_reaches this] demo_hosting_facts(2,3)
  obtain s where s: "sys_reaches calm True s" "in_use s = [0]" "reg (proc s) 1 = Some 0"
    by (fastforce simp: reg_def)
  from ownership_under_overlap [OF s(1)] s(2,3) have "live (proc s) 0" "strong (arc_at (proc s) 0) = 2"
    by auto
  with s show ?thesis by blast
qed

section \<open>Each endpoint on its own\<close>

text \<open>
  C3: The process refines a collection of independent endpoints: in every state of the process,
  what an endpoint holds, what its tasks are doing and what it has emitted is a state that a server
  or a client endpoint reaches by moves of its own, so that everything proved of the runs of one
  endpoint holds of every endpoint in a process in which any number of calls and endpoints are active.
\<close>

theorem process_refines_endpoints:
  assumes "sys_reaches x opens s" and "live (proc s) a"
  shows "(\<exists>rt port path. reaches x opens (server_node rt port path) (node_at s a)) \<or>
    (\<exists>rt port sid c url. reaches x True (client_node rt port sid c url) (node_at s a))"
  using inv_reaches [OF assms(1)] assms(2) by (simp add: sys_inv_def hosted_def)

theorem process_refines_endpoints_witness:
  "(\<exists>rt port path. reaches calm False (server_node rt port path) (node_at demo_hosting 0)) \<or>
    (\<exists>rt port sid c url. reaches calm True (client_node rt port sid c url) (node_at demo_hosting 0))"
  by (rule process_refines_endpoints [OF demo_hosting_reaches demo_hosting_facts(1)])



section \<open>A session that is over, seen from the boundary\<close>

lemma accepts_from:
  "task_step f q inp r = Some (t', sp, r', evs) \<Longrightarrow> \<not> serves [q] \<Longrightarrow>
     \<not> serves [t'] \<and> (\<forall>t \<in> set sp. \<not> serves [t])"
  by (cases q) (auto split: input.splits if_splits side.splits)

lemma no_accept_step:
  "node_step x opens n n' \<Longrightarrow> \<forall>t \<in> set (tasks n). \<not> serves [t] \<Longrightarrow> \<forall>t \<in> set (tasks n'). \<not> serves [t]"
proof (erule node_stepE)
  fix i inp t' sp n1 evs
  assume *: "n' = settle i t' sp evs n1" "i < length (tasks n)" "\<forall>t \<in> set (tasks n). \<not> serves [t]"
    "task_step (x_stream_id x) (tasks n ! i) inp n = Some (t', sp, n1, evs)"
  then have "\<not> serves [tasks n ! i]" by simp
  from accepts_from [OF *(4) this] have "\<not> serves [t'] \<and> (\<forall>t \<in> set sp. \<not> serves [t])" .
  with * task_step_frame(1) [OF *(4)] set_update_subset_insert [of "tasks n" i t']
  show ?thesis by auto
qed auto

lemma client_serves_not: "reaches x opens (client_node rt port sid c url) n \<Longrightarrow> \<not> serves (tasks n)"
proof -
  assume "reaches x opens (client_node rt port sid c url) n"
  then have "\<forall>t \<in> set (tasks n). \<not> serves [t]"
    by (induction rule: reaches.induct) (auto simp: client_node_def dest: no_accept_step)
  then show ?thesis by (cases "tasks n") (auto simp: serves_iff)
qed

lemma closed_session_at_boundary:
  assumes "arcs_wf held st" and "reg st h = Some a" and "endpoint (arc_at st a) = endpoint n"
    and "reaches x False (server_node rt port path) n" and "accepted n < 2 ^ 64 - 1"
    and "SessionClosed sid reason \<in> set (history n)" and "borrow_c_string payload \<noteq> None"
    and "c \<in> {SessionSend h sid payload reliable, StreamSend h sid stream payload, StreamClose h sid stream}"
    and "api x t c st = (result, st')"
  shows "result = as_c_str UnknownHandle \<and> trace st' = trace st \<and> endpoint (arc_at st' a) = endpoint n"
proof -
  note inv = server_reaches_inv [OF assms(4,5)]
  then have wf: "ep_wf (endpoint n)" by (simp add: server_inv_def)
  from inv_closed [OF inv assms(6)] have none: "sess_of (endpoint n) sid = None"
    "strm_of (endpoint n) (sid, stream) = None" by auto
  let ?st1 = "clear_last_error t st"
  have look: "lookup h ?st1 = (Some a, arc_clone a ?st1)"
    using assms(1,2) by (intro lookup_registered [of held]) simp_all
  have ep: "endpoint (arc_at (arc_clone a ?st1) a) = endpoint n" using assms(3) by simp
  note healthy = registered_healthy [OF assms(1,2)]
  from assms(7,8,9) look ep unknown_session [OF wf none(1)] unknown_stream [OF wf none(2)] healthy
  show ?thesis
    by (auto simp: rk_quic_session_send_def rk_quic_stream_send_def rk_quic_stream_close_def Let_def
        answer_def arc_at_drop_shared trace_drop_shared)
qed



end
