(* ===== verification/RkRest.thy ===== *)
theory RkRest
  imports RkSafety
begin

text \<open>
  The tasks of an endpoint come to rest: how many moves they can make is bounded by what they have
  in hand and by what peers and callers bring, and no task stops anywhere but where it waits for
  the network.
\<close>

section \<open>The work a task has in hand\<close>

text \<open>
  An upper bound on the moves a task, and the tasks it spawns, still make when no peer sends
  anything new.
\<close>

fun work :: "task \<Rightarrow> nat" where
  "work (AcceptLoop _) = 0"
| "work (AwaitRequest _) = 8"
| "work AwaitNotFound = 1"
| "work (AwaitAccept _ _) = 7"
| "work (Register _ _ _ _) = 6"
| "work (AnnounceOpen _ _ _ _) = 5"
| "work (Serve _ _ _) = 4"
| "work (ReadUni _ _ _) = 5"
| "work (KeepStream _ _ _ _ _) = 8"
| "work (AnnounceStream _ _ _ _ _) = 7"
| "work (Forget _ _ _) = 3"
| "work (Prune _ _) = 2"
| "work (AnnounceClosed _ _) = 1"
| "work (ReadBi _ _ _) = 2"
| "work (AnnounceStreamClosed _ _) = 1"
| "work (ApiOpening _ _) = 4"
| "work (ApiOpened _ _ _) = 3"
| "work Done = 0"

definition in_hand :: "node \<Rightarrow> nat" where
  "in_hand n = sum_list (map work (tasks n))"

text \<open>What a move brings: the moves that the new session, message or stream can cause.\<close>

fun brings_input :: "input \<Rightarrow> nat" where
  "brings_input InIncoming = 9"
| "brings_input (InDatagram _) = 1"
| "brings_input InUniStream = 2"
| "brings_input (InBiStream _ _) = 5"
| "brings_input _ = 0"

fun brings :: "move \<Rightarrow> nat" where
  "brings (Run _ inp) = brings_input inp"
| "brings (OpenStream _) = 4"
| "brings (OpenedStream _ _ _) = 2"
| "brings _ = 0"

definition brought :: "move list \<Rightarrow> nat" where
  "brought ms = sum_list (map brings ms)"

fun task_turns :: "move list \<Rightarrow> nat" where
  "task_turns [] = 0"
| "task_turns (Run _ _ # ms) = Suc (task_turns ms)"
| "task_turns (_ # ms) = task_turns ms"

text \<open>The points at which a task waits for the network or a peer.\<close>

fun waits :: "task \<Rightarrow> bool" where
  "waits (Register _ _ _ _) = False"
| "waits (AnnounceOpen _ _ _ _) = False"
| "waits (KeepStream _ _ _ _ _) = False"
| "waits (AnnounceStream _ _ _ _ _) = False"
| "waits (Forget _ _ _) = False"
| "waits (Prune _ _) = False"
| "waits (AnnounceClosed _ _) = False"
| "waits (AnnounceStreamClosed _ _) = False"
| "waits (ApiOpened _ _ _) = False"
| "waits _ = True"

section \<open>Every turn costs\<close>

lemma turn_costs:
  "task_step f t inp r = Some (t', sp, r', evs) \<Longrightarrow>
     Suc (work t' + sum_list (map work sp)) \<le> work t + brings_input inp"
  by (cases t) (auto split: input.splits if_splits side.splits)

lemma sum_update:
  "i < length ts \<Longrightarrow>
     sum_list (map work (ts[i := t])) + work (ts ! i) = sum_list (map work ts) + work t"
  by (induction ts arbitrary: i) (auto split: nat.splits)

lemma move_costs:
  assumes "make_move x opens m n = Some n'"
  shows "task_turns [m] + in_hand n' \<le> in_hand n + brings m"
proof (cases m)
  case (Run i inp)
  with assms obtain t' sp n1 evs where s: "i < length (tasks n)"
    "task_step (x_stream_id x) (tasks n ! i) inp n = Some (t', sp, n1, evs)" "n' = settle i t' sp evs n1"
    by (auto split: if_splits option.splits)
  from turn_costs [OF s(2)] sum_update [OF s(1), of t'] Run show ?thesis
    by (simp add: s(3) in_hand_def task_step_frame(1) [OF s(2)])
qed (use assms in \<open>auto simp: in_hand_def split: if_splits option.splits\<close>)

lemma moves_cost:
  "make_moves x opens ms n = Some n' \<Longrightarrow> task_turns ms + in_hand n' \<le> in_hand n + brought ms"
proof (induction ms arbitrary: n)
  case (Cons m ms)
  from Cons.prems obtain n1 where n1: "make_move x opens m n = Some n1" "make_moves x opens ms n1 = Some n'"
    by (auto split: option.splits)
  have "task_turns (m # ms) = task_turns [m] + task_turns ms" by (cases m) simp_all
  with move_costs [OF n1(1)] Cons.IH [OF n1(2)] show ?case by (simp add: brought_def)
qed (simp add: brought_def)

text \<open>
  C20: The tasks of an endpoint never run on by themselves: from any state, however its tasks and
  the calls interleave, the tasks together take at most as many turns as the work they have in hand
  (at most 8 for each task) and what was brought from outside allow, 9 for an incoming connection, 1
  for a datagram, 2 and 5 for a stream a peer opens, at most 4 for one a caller opens; so without
  anything new from outside every run ends.
\<close>

theorem tasks_come_to_rest:
  assumes "make_moves x opens ms n = Some n'"
  shows "task_turns ms \<le> in_hand n + brought ms \<and> in_hand n \<le> 8 * length (tasks n)"
proof
  show "task_turns ms \<le> in_hand n + brought ms" using moves_cost [OF assms] by simp
  have "sum_list (map work ts) \<le> 8 * length ts" for ts
  proof (induction ts)
    case (Cons t ts)
    then show ?case by (cases t) simp_all
  qed simp
  then show "in_hand n \<le> 8 * length (tasks n)" by (simp add: in_hand_def)
qed

theorem tasks_come_to_rest_witness:
  "\<exists>n. make_moves calm False (demo_accept @ demo_loss) demo_start = Some n \<and>
     task_turns (demo_accept @ demo_loss) = 9 \<and> in_hand demo_start + brought (demo_accept @ demo_loss) = 9"
proof -
  from demo_closed obtain n where n: "make_moves calm False (demo_accept @ demo_loss) demo_start = Some n"
    by blast
  have "task_turns (demo_accept @ demo_loss) = 9" "in_hand demo_start + brought (demo_accept @ demo_loss) = 9"
    by (simp_all add: demo_accept_def demo_loss_def demo_start_def server_node_def in_hand_def brought_def)
  with tasks_come_to_rest [OF n] n show ?thesis by auto
qed

section \<open>No task stops where it need not wait\<close>

lemma runnable:
  assumes "i < length (tasks n)" "\<not> waits (tasks n ! i)"
  shows "make_move x opens (Run i InContinue) n \<noteq> None"
proof -
  have "task_step (x_stream_id x) (tasks n ! i) InContinue n \<noteq> None"
    using assms(2) by (cases "tasks n ! i") simp_all
  with assms(1) show ?thesis by (auto split: option.splits)
qed

lemma continues_brings: "\<forall>m \<in> set ms. \<exists>i. m = Run i InContinue \<Longrightarrow> brought ms = 0 \<and> task_turns ms = length ms"
  by (induction ms) (auto simp: brought_def)

lemma settles:
  "\<exists>ms n'. make_moves x opens ms n = Some n' \<and> (\<forall>m \<in> set ms. \<exists>i. m = Run i InContinue) \<and>
     (\<forall>t \<in> set (tasks n'). waits t)"
proof (induction "in_hand n" arbitrary: n rule: less_induct)
  case less
  show ?case
  proof (cases "\<forall>t \<in> set (tasks n). waits t")
    case True
    then show ?thesis by (intro exI [of _ "[]"] exI [of _ n]) simp
  next
    case False
    then obtain i where i: "i < length (tasks n)" "\<not> waits (tasks n ! i)" by (auto simp: in_set_conv_nth)
    from runnable [OF i] obtain n1 where m: "make_move x opens (Run i InContinue) n = Some n1" by blast
    from move_costs [OF m] have "in_hand n1 < in_hand n" by simp
    from less [OF this] obtain ms n' where ms: "make_moves x opens ms n1 = Some n'"
      "\<forall>m \<in> set ms. \<exists>i. m = Run i InContinue" "\<forall>t \<in> set (tasks n'). waits t" by blast
    with m show ?thesis by (intro exI [of _ "Run i InContinue # ms"] exI [of _ n']) simp
  qed
qed

text \<open>
  No task is ever stuck at a lock, a table or the event queue: from every state, at most as many
  turns as there is work in hand, none of which needs anything from the network, lead to a state
  in which every task waits for the network; and a task that need not wait can always take its turn.
\<close>

lemma tasks_settle:
  "(\<exists>ms n'. make_moves x opens ms n = Some n' \<and> length ms \<le> in_hand n \<and>
      (\<forall>m \<in> set ms. \<exists>i. m = Run i InContinue) \<and> (\<forall>t \<in> set (tasks n'). waits t)) \<and>
   {i. i < length (tasks n) \<and> \<not> waits (tasks n ! i)} \<subseteq>
     {i. make_move x opens (Run i InContinue) n \<noteq> None}"
proof
  from settles [of x opens n] obtain ms n' where ms: "make_moves x opens ms n = Some n'"
    "\<forall>m \<in> set ms. \<exists>i. m = Run i InContinue" "\<forall>t \<in> set (tasks n'). waits t" by blast
  have "length ms \<le> in_hand n"
    using moves_cost [OF ms(1)] continues_brings [OF ms(2)] by simp
  with ms show "\<exists>ms n'. make_moves x opens ms n = Some n' \<and> length ms \<le> in_hand n \<and>
      (\<forall>m \<in> set ms. \<exists>i. m = Run i InContinue) \<and> (\<forall>t \<in> set (tasks n'). waits t)" by blast
  show "{i. i < length (tasks n) \<and> \<not> waits (tasks n ! i)} \<subseteq>
     {i. make_move x opens (Run i InContinue) n \<noteq> None}"
    using runnable by blast
qed

lemma tasks_settle_witness:
  "\<exists>ms n'. make_moves calm False ms demo_start = Some n' \<and> (\<forall>t \<in> set (tasks n'). waits t)"
  using tasks_settle [of calm False demo_start] by blast

end
