(* ===== verification/RkTyping.thy ===== *)
theory RkTyping
  imports RkSafety
begin

text \<open>
  The numbers in events are of the size their reader expects: a Dart \<open>int\<close> holds 63 bits of a
  number that the Rust side sends as 64 bits.
\<close>

section \<open>Numbers that fit\<close>

definition fits :: "u64 \<Rightarrow> bool" where
  "fits w \<longleftrightarrow> unat w < 2 ^ 63"

fun task_fits :: "task \<Rightarrow> bool" where
  "task_fits (Register sid _ _ _) = fits sid"
| "task_fits (AnnounceOpen sid _ _ _) = fits sid"
| "task_fits (Serve _ sid _) = fits sid"
| "task_fits (ReadUni _ sid _) = fits sid"
| "task_fits (KeepStream _ sid _ _ _) = fits sid"
| "task_fits (AnnounceStream _ sid _ stream _) = (fits sid \<and> fits stream)"
| "task_fits (Forget _ sid _) = fits sid"
| "task_fits (Prune sid _) = fits sid"
| "task_fits (AnnounceClosed sid _) = fits sid"
| "task_fits (ReadBi sid stream _) = (fits sid \<and> fits stream)"
| "task_fits (AnnounceStreamClosed sid stream) = (fits sid \<and> fits stream)"
| "task_fits (ApiOpening sid _) = fits sid"
| "task_fits (ApiOpened sid _ _) = fits sid"
| "task_fits _ = True"

definition keys_fit :: "Endpoint \<Rightarrow> bool" where
  "keys_fit ep \<longleftrightarrow> (\<forall>sid \<in> dom (map_of (guarded (sessions ep))). fits sid)"

definition typed :: "node \<Rightarrow> bool" where
  "typed n \<longleftrightarrow> (\<forall>t \<in> set (tasks n). task_fits t) \<and> keys_fit (endpoint n) \<and>
     (\<forall>e \<in> set (history n). dart_sized e)"

text \<open>The counter of sessions, as a number.\<close>

definition counted :: "node \<Rightarrow> bool" where
  "counted n \<longleftrightarrow> next_session n = of_nat (Suc (accepted n))"

lemma counted_fits: "counted n \<Longrightarrow> Suc (accepted n) < 2 ^ 63 \<Longrightarrow> fits (next_session n)"
  by (simp add: counted_def fits_def unat_of_nat take_bit_nat_eq_self del: of_nat_Suc)

lemma dart_sized_simps [simp]:
  "dart_sized (SessionOpened sid a p) = fits sid" "dart_sized (SessionClosed sid r) = fits sid"
  "dart_sized (Datagram sid u) = fits sid" "dart_sized (StreamMessage sid u) = fits sid"
  "dart_sized (StreamOpened sid q) = (fits sid \<and> fits q)"
  "dart_sized (StreamData sid q u) = (fits sid \<and> fits q)"
  "dart_sized (StreamClosed sid q) = (fits sid \<and> fits q)" "dart_sized (EndpointError m)"
  by (auto simp: dart_sized_def fits_def)

section \<open>Steps keep them\<close>

lemma task_step_fits:
  assumes "task_step f t inp r = Some (t', sp, r', evs)" "task_fits t" "\<And>s. fits (f s)"
    and "fits (next_session r)"
  shows "task_fits t' \<and> (\<forall>q \<in> set sp. task_fits q) \<and> (\<forall>e \<in> set evs. dart_sized e)"
  using assms by (cases t) (auto split: input.splits if_splits side.splits)

lemma keys_fit_frame: "sessions ep' = sessions ep \<Longrightarrow> keys_fit ep' = keys_fit ep"
  by (simp add: keys_fit_def)

lemma keys_with_streams [simp]: "keys_fit (endpoint (with_streams g r)) = keys_fit (endpoint r)"
  by (rule keys_fit_frame) (simp add: with_streams_def split: option.splits)

lemma keys_update: "fits sid \<Longrightarrow> keys_fit (endpoint r) \<Longrightarrow> keys_fit (endpoint (with_sessions (AList.update sid c) r))"
  by (auto simp: keys_fit_def with_sessions_def lock_get_def update_conv' split: option.splits if_splits)

lemma keys_delete: "keys_fit (endpoint r) \<Longrightarrow> keys_fit (endpoint (with_sessions (AList.delete sid) r))"
  by (auto simp: keys_fit_def with_sessions_def lock_get_def delete_conv' split: option.splits if_splits)

lemma keys_emits [simp]: "keys_fit (fold emit_on evs ep) = keys_fit ep"
  by (induction evs arbitrary: ep) (simp_all add: keys_fit_def emit_on_def)

lemma task_step_keys:
  "task_step f t inp r = Some (t', sp, r', evs) \<Longrightarrow> task_fits t \<Longrightarrow> keys_fit (endpoint r) \<Longrightarrow>
     keys_fit (endpoint r')"
  by (cases t) (auto split: input.splits if_splits side.splits intro: keys_update keys_delete)

lemma task_step_next:
  fixes n n1 :: node
  shows "task_step f t inp n = Some (t', sp, n1, evs) \<Longrightarrow>
    next_session n1 = next_session n + (case t' of Register _ _ _ _ \<Rightarrow> 1 | _ \<Rightarrow> 0) \<and>
    accepted n1 = accepted n"
  by (cases t; cases inp) (auto split: if_splits side.splits)

lemma counted_step: "node_step x opens n n' \<Longrightarrow> counted n \<Longrightarrow> counted n' \<and> accepted n \<le> accepted n'"
proof (erule node_stepE)
  fix i inp t' sp n1 evs
  assume *: "n' = settle i t' sp evs n1" "counted n"
    "task_step (x_stream_id x) (tasks n ! i) inp n = Some (t', sp, n1, evs)"
  then show ?thesis
    using task_step_next [OF *(3)] by (simp add: counted_def settle_def algebra_simps split: task.splits)
qed (auto simp: counted_def)

lemma typed_step:
  assumes "node_step x opens n n'" "typed n" "counted n" "accepted n' < 2 ^ 63 - 1"
    and "\<And>s. fits (x_stream_id x s)"
  shows "typed n'"
  using assms(1)
proof cases
  case (run_task i inp t' sp n1 evs)
  have "accepted n < 2 ^ 63 - 1" using counted_step [OF assms(1,3)] assms(4) by simp
  then have f: "fits (next_session n)" by (intro counted_fits [OF assms(3)]) simp
  have t: "task_fits (tasks n ! i)" and k: "keys_fit (endpoint n)"
    using assms(2) run_task(2) by (simp_all add: typed_def)
  have "set ((tasks n)[i := t']) \<subseteq> insert t' (set (tasks n))" by (rule set_update_subset_insert)
  with task_step_fits [OF run_task(3) t assms(5) f] task_step_keys [OF run_task(3) t k]
    assms(2) task_step_frame(1,2) [OF run_task(3)]
  show ?thesis unfolding run_task(1) typed_def settle_fields by auto
next
  case (api_poll timeout r waited ep)
  have "sessions ep = sessions (endpoint n)"
    using api_poll(2) by (auto simp: next_event_def split: option.splits prod.splits sum.splits RecvTimeoutError.splits)
  from keys_fit_frame [OF this] assms(2) show ?thesis by (simp add: api_poll(1) typed_def)
next
  case (api_close sid stream tr r ep tr')
  have "sessions ep = sessions (endpoint n)"
    using api_close(2) by (auto simp: stream_close_def Let_def split: option.splits sum.splits)
  from keys_fit_frame [OF this] assms(2) show ?thesis by (simp add: api_close(1) typed_def)
next
  case (api_open m sid c)
  then have "fits sid" using assms(2) by (auto simp: typed_def keys_fit_def lock_get_def split: if_splits)
  with assms(2) show ?thesis by (simp add: api_open(1) typed_def)
next
  case (api_opened m sid c s rcv)
  then have "fits sid" using assms(2) by (auto simp: typed_def keys_fit_def lock_get_def split: if_splits)
  with assms(2,5) show ?thesis by (simp add: api_opened(1) typed_def)
qed

lemma typed_reaches:
  assumes "reaches x opens n0 n" "typed n0" "counted n0" "accepted n < 2 ^ 63 - 1"
    and "\<And>s. fits (x_stream_id x s)"
  shows "typed n"
proof -
  from assms(1) have "counted n \<and> (accepted n < 2 ^ 63 - 1 \<longrightarrow> typed n)"
  proof (induction rule: reaches.induct)
    case (more n1 n2)
    from counted_step [OF more.hyps(2)] more.IH have c: "counted n2 \<and> accepted n1 \<le> accepted n2" by simp
    with typed_step [OF more.hyps(2)] more.IH assms(5) show ?case by simp
  qed (use assms(2,3) in simp)
  with assms(4) show ?thesis by simp
qed

text \<open>
  C17: Everything an endpoint reports reaches the Dart side with its meaning: along every run of a
  server that has accepted fewer than $2^{63} - 1$ sessions, or of a client whose session id is
  below $2^{63}$, every session and stream number of every event is one a Dart \<open>int\<close> holds, and the
  object the event is serialised to is read back as that event. (A QUIC stream id is below $2^{62}$.)
\<close>

theorem reported_events_are_read:
  assumes "reaches x opens (server_node rt port path) n \<or>
      reaches x opens (client_node rt port sid c url) n \<and> unat sid < 2 ^ 63"
    and "accepted n < 2 ^ 63 - 1" and "\<And>s. unat (x_stream_id x s) < 2 ^ 62"
    and "e \<in> set (history n)"
  shows "dart_sized e \<and> QuicEvent_fromObject (event_object e) = meant e"
proof -
  have ids: "fits (x_stream_id x s)" for s
    using assms(3) [of s] unfolding fits_def by (rule less_trans) simp
  have "typed (server_node rt port path)" "counted (server_node rt port path)"
    by (simp_all add: server_node_def typed_def counted_def keys_fit_def live_endpoint_def new_mutex_def)
  moreover have "typed (client_node rt port sid c url)" if "unat sid < 2 ^ 63"
    using that by (simp add: client_node_def typed_def keys_fit_def live_endpoint_def
        new_mutex_def emit_on_def fits_def lock_set_def)
  moreover have "counted (client_node rt port sid c url)" by (simp add: client_node_def counted_def)
  ultimately have "typed n" using assms(1,2) ids typed_reaches by blast
  with assms(4) reads_meant show ?thesis by (simp add: typed_def)
qed

theorem reported_events_are_read_witness:
  "\<exists>n. reaches calm False (server_node 0 4433 ''/rk'') n \<and>
     SessionClosed 1 ''timed out'' \<in> set (history n) \<and>
     QuicEvent_fromObject (event_object (SessionClosed 1 ''timed out'')) = D_SessionClosed 1 ''timed out''"
proof -
  from demo_closed obtain n where n: "make_moves calm False (demo_accept @ demo_loss) demo_start = Some n"
    "accepted n = 1" "SessionClosed 1 ''timed out'' \<in> set (history n)" by force
  let ?x = "calm\<lparr>x_stream_id := \<lambda>_. 4\<rparr>"
  have "make_moves ?x False (demo_accept @ demo_loss) demo_start = Some n"
    using n(1) by (simp add: node_eval)
  then have r: "reaches ?x False (server_node 0 4433 ''/rk'') n"
    unfolding demo_start_def by (rule make_moves_reaches)
  have "QuicEvent_fromObject (event_object (SessionClosed 1 ''timed out'')) = meant (SessionClosed 1 ''timed out'')"
    using reported_events_are_read [OF disjI1 [OF r] _ _ n(3)] n(2) by simp
  with n(3) demo_reaches [OF n(1)] show ?thesis by auto
qed

end
