(* ===== verification/RkHandles.thy ===== *)
theory RkHandles
  imports RkStop
begin

text \<open>
  Handles over the life of the process: each is drawn once from one counter, names one endpoint
  until it is stopped, and never names another.
\<close>

section \<open>What one call does to the handles\<close>

text \<open>
  Nothing, or it gives up \<open>h\<close> (only a stop of \<open>h\<close> does), or it adds one handle the counter has
  not passed before; \<open>k\<close> numbers are drawn.
\<close>

definition draws :: "nat \<Rightarrow> u64 option \<Rightarrow> 'a process_scheme \<Rightarrow> 'a process_scheme \<Rightarrow> bool" where
  "draws k gone st st' \<longleftrightarrow>
     handle_counter st' = handle_counter st + of_nat k \<and> k \<le> 2 \<and>
     (reg st' = reg st \<or> (\<exists>h. gone = Some h \<and> reg st' = (reg st)(h := None)) \<or>
      (\<exists>j a. j < k \<and> reg st' = (reg st)(handle_counter st + of_nat j \<mapsto> a)))"

lemma drawsI:
  "registry st' = registry st \<Longrightarrow> handle_counter st' = handle_counter st \<Longrightarrow> draws 0 gone st st'"
  by (simp add: draws_def reg_def)

lemma counter_kept [simp]:
  "handle_counter (arc_drop a st) = handle_counter st" "handle_counter (arc_clone a st) = handle_counter st"
  "handle_counter (set_endpoint a ep st) = handle_counter st"
  "handle_counter (snd (into_owned_c_string v st')) = handle_counter st'"
  "registry (snd (into_owned_c_string v st')) = registry st'"
  "registry (set_endpoint a ep st) = registry st"
  for st' :: "'a process_scheme"
  by (simp_all add: arc_drop_def arc_clone_def set_endpoint_def into_owned_c_string_def Let_def)

lemma lookup_handles:
  "lookup h st = (r, st') \<Longrightarrow> registry st' = registry st \<and> handle_counter st' = handle_counter st"
  by (auto simp: lookup_def split: option.splits)

lemma into_owned_handles:
  "into_owned_c_string v (st :: 'a process_scheme) = (p, st') \<Longrightarrow>
     registry st' = registry st \<and> handle_counter st' = handle_counter st"
  using counter_kept(4,5) [of v st] by simp

lemma open_stream_handles:
  "open_stream x h sid st = (r, st') \<Longrightarrow>
     registry st' = registry st \<and> handle_counter st' = handle_counter st"
  by (auto simp: open_stream_def open_stream_on_def Let_def dest!: lookup_handles
      split: option.splits prod.splits sum.splits)

lemma register_handles:
  assumes "arcs_wf held st" "register h r st = (res, st')"
  shows "handle_counter st' = handle_counter st \<and> reg st' = (reg st)(h \<mapsto> next_arc st)"
  using assms(2)
  by (auto simp: register_def lock_registry [OF assms(1)] arc_new_def Let_def reg_def update_conv'
      split: option.splits)

lemma start_draws:
  assumes "arcs_wf held st" "start x cfg st = (r, st')"
  shows "\<exists>k. draws k gone st st'"
proof -
  have none: "\<exists>k. draws k gone st (st\<lparr>trace := tr\<rparr>)" for tr
    by (rule exI [of _ 0], rule drawsI) simp_all
  have some: "\<exists>k. draws k gone st st2"
    if "register (handle_counter st) rr (st\<lparr>trace := tr, handle_counter := handle_counter st + 1\<rparr>) = (res, st2)"
    for rr tr res st2
    using register_handles [of held, OF _ that] assms(1)
    by (intro exI [of _ 1]) (auto simp: draws_def reg_def)
  show ?thesis
    using assms(2) none [of "trace st"] none some
    by (auto simp: start_def next_handle_def Let_def split: sum.splits prod.splits if_splits)
qed

lemma connect_draws:
  assumes "arcs_wf held st" "connect x cfg st = (r, st')"
  shows "\<exists>k. draws k gone st st'"
proof -
  have none: "\<exists>k. draws k gone st (st\<lparr>trace := tr\<rparr>)" for tr
    by (rule exI [of _ 0], rule drawsI) simp_all
  have some: "\<exists>k. draws k gone st st2"
    if "register (handle_counter st + 1) rr
      (st\<lparr>trace := tr, handle_counter := handle_counter st + 1 + 1\<rparr>) = (res, st2)" for rr tr res st2
  proof -
    have "arcs_wf held (st\<lparr>trace := tr, handle_counter := handle_counter st + 1 + 1\<rparr>)" using assms(1) by simp
    from register_handles [OF this that]
    have "handle_counter st2 = handle_counter st + of_nat 2"
      "reg st2 = (reg st)(handle_counter st + of_nat 1 \<mapsto> next_arc st)" by (simp_all add: reg_def)
    then have "draws 2 gone st st2"
      unfolding draws_def by (metis le_refl one_less_numeral_iff semiring_norm(76))
    then show ?thesis ..
  qed
  show ?thesis
    using assms(2) none [of "trace st"] none some
    by (auto simp: connect_def next_handle_def Let_def split: sum.splits prod.splits if_splits)
qed

lemma draws_from:
  "draws k gone st0 st' \<Longrightarrow> registry st0 = registry st \<Longrightarrow> handle_counter st0 = handle_counter st \<Longrightarrow>
     registry st'' = registry st' \<Longrightarrow> handle_counter st'' = handle_counter st' \<Longrightarrow> draws k gone st st''"
  by (simp add: draws_def reg_def)

fun stops :: "api_call \<Rightarrow> u64 option" where
  "stops (ServerStop h) = Some h"
| "stops _ = None"

definition draws_some :: "u64 option \<Rightarrow> 'a process_scheme \<Rightarrow> 'a process_scheme \<Rightarrow> bool" where
  "draws_some gone st st' \<longleftrightarrow> (\<exists>k. draws k gone st st')"

lemma draws_none:
  "registry st' = registry st \<Longrightarrow> handle_counter st' = handle_counter st \<Longrightarrow> draws_some gone st st'"
  unfolding draws_some_def using drawsI by blast

lemma remove_draws:
  assumes "arcs_wf held st" "remove h st = (r, st')"
  shows "draws_some (Some h) st st'"
proof -
  have "handle_counter st' = handle_counter st" "reg st' = (reg st)(h := None)"
    using assms(2)
    by (auto simp: remove_def lock_registry [OF assms(1)] Let_def reg_def delete_conv' split: option.splits)
  then have "draws 0 (Some h) st st'" by (simp add: draws_def)
  then show ?thesis unfolding draws_some_def by blast
qed

lemma call_draws:
  assumes wf: "arcs_wf held st"
  shows "draws_some (stops c) st (snd (api x t c st))"
proof -
  let ?st0 = "clear_last_error t st"
  have wf0: "arcs_wf held ?st0" using wf by simp
  have start: "draws_some None st st''" if "start x cfg ?st0 = (r, st')"
    "registry st'' = registry st'" "handle_counter st'' = handle_counter st'" for cfg r st' st''
    using start_draws [OF wf0 that(1), of None] draws_from [OF _ _ _ that(2,3)]
    unfolding draws_some_def by fastforce
  have connect: "draws_some None st st''" if "connect x cfg ?st0 = (r, st')"
    "registry st'' = registry st'" "handle_counter st'' = handle_counter st'" for cfg r st' st''
    using connect_draws [OF wf0 that(1), of None] draws_from [OF _ _ _ that(2,3)]
    unfolding draws_some_def by fastforce
  have remove: "draws_some (Some h) st st'" if "remove h ?st0 = (r, st')" for h r st'
    using remove_draws [OF wf0 that] draws_from unfolding draws_some_def by fastforce
  show ?thesis
  proof (cases c)
    case (ServerStart j out)
    then show ?thesis
      by (auto simp: rk_quic_server_start_def Let_def intro: draws_none start
          split: option.splits sum.splits prod.splits)
  next
    case (ServerStop h)
    then show ?thesis by (auto simp: rk_quic_server_stop_def intro: remove split: prod.splits)
  next
    case (ServerLocalPort h out)
    then show ?thesis
      by (auto simp: rk_quic_server_local_port_def intro!: draws_none dest!: lookup_handles
          split: prod.splits option.splits)
  next
    case (ServerPoll h ms out arrival)
    then show ?thesis
      by (auto simp: rk_quic_server_poll_def Let_def intro!: draws_none
          dest!: lookup_handles into_owned_handles split: prod.splits option.splits sum.splits)
  next
    case (SessionSend h sid p rel)
    then show ?thesis
      by (auto simp: rk_quic_session_send_def Let_def intro!: draws_none dest!: lookup_handles
          split: prod.splits option.splits)
  next
    case (StreamSend h sid s p)
    then show ?thesis
      by (auto simp: rk_quic_stream_send_def Let_def intro!: draws_none dest!: lookup_handles
          split: prod.splits option.splits)
  next
    case (StreamClose h sid s)
    then show ?thesis
      by (auto simp: rk_quic_stream_close_def intro!: draws_none dest!: lookup_handles
          split: prod.splits option.splits)
  next
    case (ClientConnect j oh os)
    then show ?thesis
      by (auto simp: rk_quic_client_connect_def Let_def intro: draws_none connect
          split: option.splits sum.splits prod.splits outcome.splits)
  next
    case (ClientOpenStream h sid out)
    then show ?thesis
      by (auto simp: rk_quic_client_open_stream_def intro!: draws_none dest!: open_stream_handles
          split: prod.splits sum.splits)
  qed
qed

section \<open>Handles over sequences of calls\<close>

text \<open>Every handle in the registry was drawn; \<open>d\<close> numbers were drawn so far.\<close>

definition drawn :: "nat \<Rightarrow> 'a process_scheme \<Rightarrow> bool" where
  "drawn d st \<longleftrightarrow> unat (handle_counter st) \<le> Suc d \<and>
     (\<forall>h \<in> dom (reg st). unat h < unat (handle_counter st))"

lemma counter_plus:
  "unat (c :: u64) \<le> Suc d \<Longrightarrow> d + 3 < 2 ^ 64 \<Longrightarrow> k \<le> 2 \<Longrightarrow> unat (c + of_nat k) = unat c + k"
  by (subst unat_add_lem [THEN iffD1]) (simp_all add: unat_of_nat take_bit_nat_eq_self)

lemma call_handles:
  assumes wf: "arcs_wf held st" and d: "drawn d st" "d + 3 < 2 ^ 64"
  shows "drawn (d + 2) (snd (api x t c st)) \<and>
    unat (handle_counter st) \<le> unat (handle_counter (snd (api x t c st))) \<and>
    (reg st h = Some a \<and> stops c \<noteq> Some h \<longrightarrow> reg (snd (api x t c st)) h = Some a) \<and>
    (unat h < unat (handle_counter st) \<and> reg st h = None \<longrightarrow> reg (snd (api x t c st)) h = None)"
proof -
  let ?st' = "snd (api x t c st)"
  from call_draws [OF wf] obtain k where k: "draws k (stops c) st ?st'" unfolding draws_some_def by blast
  have add: "unat (handle_counter st + of_nat j) = unat (handle_counter st) + j" if "j \<le> 2" for j
    using counter_plus [OF _ d(2) that] d(1) by (simp add: drawn_def)
  from k have c: "unat (handle_counter ?st') = unat (handle_counter st) + k" "k \<le> 2"
    using add by (simp_all add: draws_def)
  have old: "reg st g = Some b \<Longrightarrow> unat g < unat (handle_counter st) + k" for g b
    using d(1) unfolding drawn_def by (metis domI trans_less_add1)
  consider "reg ?st' = reg st" | g where "stops c = Some g" "reg ?st' = (reg st)(g := None)"
    | j b where "j < k" "reg ?st' = (reg st)(handle_counter st + of_nat j \<mapsto> b)"
    using k unfolding draws_def by blast
  then show ?thesis
  proof cases
    case 3
    let ?h = "handle_counter st + of_nat j"
    have h: "unat ?h = unat (handle_counter st) + j" using add 3(1) c(2) by simp
    have "?h \<notin> dom (reg st)" using d(1) h unfolding drawn_def by (metis not_add_less1)
    then have new: "reg st ?h = None" by blast
    have "unat g < unat (handle_counter st) + k" if "g \<in> dom (reg ?st')" for g
      using that old [of g] h 3 by (fastforce simp: 3(2) split: if_splits)
    with c d(1) have "drawn (d + 2) ?st'" by (simp add: drawn_def)
    with 3 h c new show ?thesis by auto
  next
    case (2 g)
    with c d(1) old show ?thesis by (auto simp: drawn_def split: if_splits)
  next
    case 1
    with c d(1) old show ?thesis by (auto simp: drawn_def)
  qed
qed

lemma run_handles:
  "arcs_wf held st \<Longrightarrow> drawn d st \<Longrightarrow> d + 2 * length cs + 3 < 2 ^ 64 \<Longrightarrow>
     drawn (d + 2 * length cs) (run_calls (api x) cs st) \<and>
     unat (handle_counter st) \<le> unat (handle_counter (run_calls (api x) cs st)) \<and>
     (reg st h = Some a \<and> (\<forall>t. (t, ServerStop h) \<notin> set cs) \<longrightarrow> reg (run_calls (api x) cs st) h = Some a) \<and>
     (unat h < unat (handle_counter st) \<and> reg st h = None \<longrightarrow> reg (run_calls (api x) cs st) h = None)"
proof (induction cs arbitrary: st d)
  case (Cons tc cs)
  obtain t c where tc: "tc = (t, c)" by fastforce
  let ?st = "snd (api x t c st)"
  have "d + 3 < 2 ^ 64" using Cons.prems(3) by simp
  note one = call_handles [OF Cons.prems(1,2) this, of x t c h a]
  have more: "(d + 2) + 2 * length cs + 3 < 2 ^ 64" using Cons.prems(3) by simp
  note ih = Cons.IH [OF wf_api [OF Cons.prems(1)] conjunct1 [OF one] more]
  have "stops c \<noteq> Some h" if "\<forall>t. (t, ServerStop h) \<notin> set (tc # cs)"
    using that tc by (cases c) auto
  with one ih show ?case by (auto simp: tc)
qed simp

text \<open>
  C21: A handle names one endpoint from the call that returned it to the call that stops it, and
  nothing afterwards: over any calls (fewer than about $2^{63}$ of them, so that the counter does not
  wrap) only a stop of that handle takes it away, no start or connect replaces an endpoint that is
  live, and a number that was drawn and names nothing, such as the handle of a stopped endpoint or
  the session id of a client, never names an endpoint again.
\<close>

theorem handles_never_reused:
  assumes "2 * (length cs + length cs') + 3 < (2::nat) ^ 64"
    and "st = run_calls (api x) cs initial_process" and "st' = run_calls (api x) cs' st"
  shows "(reg st h = Some a \<and> (\<forall>t. (t, ServerStop h) \<notin> set cs') \<longrightarrow> reg st' h = Some a) \<and>
    (h < handle_counter st \<and> reg st h = None \<longrightarrow> reg st' h = None) \<and>
    (reg st h = Some a \<longrightarrow> h < handle_counter st) \<and> reg st (handle_counter st) = None"
proof -
  have d0: "drawn 0 initial_process" by (simp add: drawn_def reg_def new_mutex_def)
  have "drawn (2 * length cs) st"
    using run_handles [OF arcs_wf_initial d0, of cs x] assms(1) by (simp add: assms(2))
  moreover have "arcs_wf [] st" by (simp add: assms(2) run_calls_wf)
  moreover have "2 * length cs + 2 * length cs' + 3 < 2 ^ 64" using assms(1) by simp
  ultimately have "drawn (2 * length cs) st" and
    "(reg st h = Some a \<and> (\<forall>t. (t, ServerStop h) \<notin> set cs') \<longrightarrow> reg st' h = Some a) \<and>
     (unat h < unat (handle_counter st) \<and> reg st h = None \<longrightarrow> reg st' h = None)"
    using run_handles [of "[]" st "2 * length cs" cs' x h a] by (simp_all add: assms(3))
  then show ?thesis by (auto simp: word_less_nat_alt drawn_def)
qed

theorem handles_never_reused_witness:
  "let st = run_calls (api calm) [(1, ServerStart (Some [NUL]) 8)] initial_process in
     reg st 1 = Some 0 \<and>
     reg (run_calls (api calm) [(1, ServerStart (Some [NUL]) 8), (2, ServerStop 2)] st) 1 = Some 0"
proof -
  let ?st = "run_calls (api calm) [(1, ServerStart (Some [NUL]) 8)] initial_process"
  have "reg (run_calls (api calm) [(1, ServerStart (Some [NUL]) 8), (2, ServerStop 2)] ?st) 1 = Some 0"
    using handles_never_reused [OF _ refl refl, of "[(1, ServerStart (Some [NUL]) 8)]"
        "[(1, ServerStart (Some [NUL]) 8), (2, ServerStop 2)]" calm 1 0] demo_call
    by simp
  with demo_call show ?thesis by (simp only: Let_def)
qed

end
