(* ===== verification/RkSerde.thy ===== *)
theory RkSerde
  imports RkClientConfig
begin

text \<open>
  The readers that \<open>derive(Deserialize)\<close> gives the two configurations (\<open>rust/src/config.rs\<close>,
  \<open>rust/src/client_config.rs\<close>), on the members of the JSON object: the names in camel case, the
  defaults of absent members, and \<open>deny_unknown_fields\<close>, which only the server's has.
\<close>

section \<open>Visiting the members\<close>

datatype field_type = StringField | U64Field

datatype de_error =
    UnknownField string
  | DuplicateField string
  | InvalidType string
  | MissingField string

fun has_type :: "field_type \<Rightarrow> json \<Rightarrow> bool" where
  "has_type StringField (JStr _) = True"
| "has_type U64Field (JNum _) = True"
| "has_type _ _ = False"

text \<open>
  The members are visited in the order of the text. A name that no field has is an error or is
  skipped with its value; a field seen before is an error before its value is looked at.
\<close>

fun visit_map ::
  "bool \<Rightarrow> (string \<times> field_type) list \<Rightarrow> (string \<times> json) list \<Rightarrow> (string \<times> json) list \<Rightarrow>
   de_error + (string \<times> json) list" where
  "visit_map deny spec [] seen = Inr seen"
| "visit_map deny spec ((k, v) # members) seen =
     (case map_of spec k of
        None \<Rightarrow> if deny then Inl (UnknownField k) else visit_map deny spec members seen
      | Some ty \<Rightarrow>
          if map_of seen k \<noteq> None then Inl (DuplicateField k)
          else if \<not> has_type ty v then Inl (InvalidType k)
          else visit_map deny spec members ((k, v) # seen))"

text \<open>A field after the visit: its value, its default, or an error.\<close>

definition string_field :: "rstr option \<Rightarrow> string \<Rightarrow> (string \<times> json) list \<Rightarrow> de_error + rstr" where
  "string_field deflt k seen =
     (case map_of seen k of
        Some (JStr s) \<Rightarrow> Inr s
      | _ \<Rightarrow> (case deflt of Some s \<Rightarrow> Inr s | None \<Rightarrow> Inl (MissingField k)))"

definition u64_field :: "u64 option \<Rightarrow> string \<Rightarrow> (string \<times> json) list \<Rightarrow> de_error + u64" where
  "u64_field deflt k seen =
     (case map_of seen k of
        Some (JNum w) \<Rightarrow> Inr w
      | _ \<Rightarrow> (case deflt of Some w \<Rightarrow> Inr w | None \<Rightarrow> Inl (MissingField k)))"

definition and_then :: "'e + 'a \<Rightarrow> ('a \<Rightarrow> 'e + 'b) \<Rightarrow> 'e + 'b" where
  "and_then r f = (case r of Inl e \<Rightarrow> Inl e | Inr a \<Rightarrow> f a)"

lemma and_then_Inr: "and_then r f = Inr b \<longleftrightarrow> (\<exists>a. r = Inr a \<and> f a = Inr b)"
  by (auto simp: and_then_def split: sum.splits)

lemma and_then_simps [simp]: "and_then (Inl e) f = Inl e" "and_then (Inr a) f = f a"
  by (simp_all add: and_then_def)

section \<open>The two readers\<close>

definition server_fields :: "(string \<times> field_type) list" where
  "server_fields =
     map (\<lambda>(ident, ty). (camel_field ident, ty))
       [(''bind_address'', StringField), (''certificate_chain_pem'', StringField),
        (''private_key_pem'', StringField), (''path'', StringField), (''idle_timeout_ms'', U64Field)]"

definition ServerConfig_deserialize :: "(string \<times> json) list \<Rightarrow> de_error + ServerConfig" where
  "ServerConfig_deserialize members =
     and_then (visit_map True server_fields members []) (\<lambda>seen.
     and_then (string_field None ''bindAddress'' seen) (\<lambda>bind_address.
     and_then (string_field None ''certificateChainPem'' seen) (\<lambda>certificate_chain_pem.
     and_then (string_field None ''privateKeyPem'' seen) (\<lambda>private_key_pem.
     and_then (string_field (Some default_path) ''path'' seen) (\<lambda>path.
     and_then (u64_field (Some default_idle_timeout_ms) ''idleTimeoutMs'' seen) (\<lambda>idle_timeout_ms.
       Inr \<lparr>sc_bind_address = bind_address, sc_certificate_chain_pem = certificate_chain_pem,
            sc_private_key_pem = private_key_pem, sc_path = path,
            sc_idle_timeout_ms = idle_timeout_ms\<rparr>))))))"

definition client_fields :: "(string \<times> field_type) list" where
  "client_fields =
     map (\<lambda>(ident, ty). (camel_field ident, ty))
       [(''url'', StringField), (''certificate_hash_sha256'', StringField),
        (''idle_timeout_ms'', U64Field)]"

definition ClientConfig_deserialize :: "(string \<times> json) list \<Rightarrow> de_error + ClientConfig" where
  "ClientConfig_deserialize members =
     and_then (visit_map False client_fields members []) (\<lambda>seen.
     and_then (string_field None ''url'' seen) (\<lambda>url.
     and_then (string_field None ''certificateHashSha256'' seen) (\<lambda>certificate_hash_sha256.
     and_then (u64_field (Some client_default_idle_timeout_ms) ''idleTimeoutMs'' seen) (\<lambda>idle_timeout_ms.
       Inr \<lparr>cc_url = url, cc_certificate_hash_sha256 = certificate_hash_sha256,
            cc_idle_timeout_ms = idle_timeout_ms\<rparr>))))"

lemma server_fields_eval:
  "server_fields = [(''bindAddress'', StringField), (''certificateChainPem'', StringField),
     (''privateKeyPem'', StringField), (''path'', StringField), (''idleTimeoutMs'', U64Field)]"
  by code_simp

lemma client_fields_eval:
  "client_fields = [(''url'', StringField), (''certificateHashSha256'', StringField),
     (''idleTimeoutMs'', U64Field)]"
  by code_simp

section \<open>What a visit accepts\<close>

definition known :: "(string \<times> field_type) list \<Rightarrow> (string \<times> json) list \<Rightarrow> (string \<times> json) list" where
  "known spec members = filter (\<lambda>(k, _). map_of spec k \<noteq> None) members"

definition well_typed :: "(string \<times> field_type) list \<Rightarrow> (string \<times> json) list \<Rightarrow> bool" where
  "well_typed spec members \<longleftrightarrow>
     (\<forall>(k, v) \<in> set members. case map_of spec k of None \<Rightarrow> True | Some ty \<Rightarrow> has_type ty v)"

lemma known_Cons:
  "known spec ((k, v) # members) = (if map_of spec k = None then known spec members else (k, v) # known spec members)"
  "well_typed spec ((k, v) # members) \<longleftrightarrow>
     (case map_of spec k of None \<Rightarrow> True | Some ty \<Rightarrow> has_type ty v) \<and> well_typed spec members"
  by (auto simp: known_def well_typed_def)

lemma known_shorter: "known spec members \<noteq> m # members"
  using length_filter_le [of _ members] unfolding known_def by (metis impossible_Cons)

lemma visit_iff:
  "visit_map deny spec members seen = Inr out \<longleftrightarrow>
     (deny \<longrightarrow> known spec members = members) \<and> well_typed spec members \<and>
     distinct (map fst (known spec members)) \<and>
     (\<forall>k \<in> fst ` set (known spec members). map_of seen k = None) \<and>
     out = rev (known spec members) @ seen"
proof (induction deny spec members seen arbitrary: out rule: visit_map.induct)
  case (1 deny spec seen)
  then show ?case by (auto simp: known_def well_typed_def)
next
  case (2 deny spec k v members seen)
  show ?case
  proof (cases "map_of spec k")
    case None
    with 2(1) show ?thesis by (simp add: known_Cons known_shorter)
  next
    case (Some ty)
    with 2(2) show ?thesis by (auto simp: known_Cons)
  qed
qed

lemma map_of_known:
  assumes "distinct (map fst (known spec members))" "map_of spec k \<noteq> None"
  shows "map_of (rev (known spec members)) k = map_of members k"
proof -
  have "map_of (known spec members) k = map_of members k"
    using assms(2) by (induction members) (auto simp: known_def)
  moreover have "map_of (rev (known spec members)) = map_of (known spec members)"
    using assms(1) by (subst map_of_inject_set) (simp_all add: rev_map [symmetric])
  ultimately show ?thesis by simp
qed

text \<open>One name, one member, of the right type.\<close>

definition proper :: "(string \<times> field_type) list \<Rightarrow> (string \<times> json) list \<Rightarrow> bool" where
  "proper spec members \<longleftrightarrow> well_typed spec members \<and> distinct (map fst (known spec members))"

lemma visit_start:
  "visit_map deny spec members [] = Inr out \<longleftrightarrow>
     (deny \<longrightarrow> known spec members = members) \<and> proper spec members \<and> out = rev (known spec members)"
  by (auto simp: visit_iff proper_def)

definition text_or :: "rstr option \<Rightarrow> string \<Rightarrow> (string \<times> json) list \<Rightarrow> rstr option" where
  "text_or deflt k members = (case map_of members k of Some (JStr s) \<Rightarrow> Some s | _ \<Rightarrow> deflt)"

definition number_or :: "u64 option \<Rightarrow> string \<Rightarrow> (string \<times> json) list \<Rightarrow> u64 option" where
  "number_or deflt k members = (case map_of members k of Some (JNum w) \<Rightarrow> Some w | _ \<Rightarrow> deflt)"

lemma field_iff:
  "proper spec members \<Longrightarrow> map_of spec k \<noteq> None \<Longrightarrow>
     string_field deflt k (rev (known spec members)) = Inr s \<longleftrightarrow> text_or deflt k members = Some s"
  "proper spec members \<Longrightarrow> map_of spec k \<noteq> None \<Longrightarrow>
     u64_field dw k (rev (known spec members)) = Inr w \<longleftrightarrow> number_or dw k members = Some w"
  by (auto simp: string_field_def u64_field_def text_or_def number_or_def proper_def map_of_known
      split: option.splits json.splits)

lemma server_keys:
  "map_of server_fields ''bindAddress'' \<noteq> None" "map_of server_fields ''certificateChainPem'' \<noteq> None"
  "map_of server_fields ''privateKeyPem'' \<noteq> None" "map_of server_fields ''path'' \<noteq> None"
  "map_of server_fields ''idleTimeoutMs'' \<noteq> None"
  by (simp_all add: server_fields_eval)

lemma client_keys:
  "map_of client_fields ''url'' \<noteq> None" "map_of client_fields ''certificateHashSha256'' \<noteq> None"
  "map_of client_fields ''idleTimeoutMs'' \<noteq> None"
  by (simp_all add: client_fields_eval)

lemma known_all: "known spec members = members \<longleftrightarrow> fst ` set members \<subseteq> dom (map_of spec)"
  unfolding known_def filter_id_conv by force

lemma server_names:
  "dom (map_of server_fields) =
     {''bindAddress'', ''certificateChainPem'', ''privateKeyPem'', ''path'', ''idleTimeoutMs''}"
  unfolding server_fields_eval dom_map_of_conv_image_fst by simp

lemma client_names: "dom (map_of client_fields) = {''url'', ''certificateHashSha256'', ''idleTimeoutMs''}"
  unfolding client_fields_eval dom_map_of_conv_image_fst by simp

lemma server_record:
  "(Inr \<lparr>sc_bind_address = a, sc_certificate_chain_pem = b, sc_private_key_pem = d, sc_path = e,
      sc_idle_timeout_ms = f\<rparr> :: de_error + ServerConfig) = Inr c \<longleftrightarrow>
   a = sc_bind_address c \<and> b = sc_certificate_chain_pem c \<and> d = sc_private_key_pem c \<and>
   e = sc_path c \<and> f = sc_idle_timeout_ms c"
  by (cases c) auto

lemma client_record:
  "(Inr \<lparr>cc_url = a, cc_certificate_hash_sha256 = b, cc_idle_timeout_ms = d\<rparr> :: de_error + ClientConfig)
     = Inr c \<longleftrightarrow>
   a = cc_url c \<and> b = cc_certificate_hash_sha256 c \<and> d = cc_idle_timeout_ms c"
  by (cases c) auto

lemma server_config_iff:
  "ServerConfig_deserialize members = Inr c \<longleftrightarrow>
     fst ` set members \<subseteq> {''bindAddress'', ''certificateChainPem'', ''privateKeyPem'', ''path'', ''idleTimeoutMs''} \<and>
     distinct (map fst members) \<and> well_typed server_fields members \<and>
     text_or None ''bindAddress'' members = Some (sc_bind_address c) \<and>
     text_or None ''certificateChainPem'' members = Some (sc_certificate_chain_pem c) \<and>
     text_or None ''privateKeyPem'' members = Some (sc_private_key_pem c) \<and>
     text_or (Some ''/rk'') ''path'' members = Some (sc_path c) \<and>
     number_or (Some 30000) ''idleTimeoutMs'' members = Some (sc_idle_timeout_ms c)"
proof -
  let ?s = server_fields
  have five: "(\<exists>a. P a \<and> (\<exists>b. Q b \<and> (\<exists>d. R d \<and> (\<exists>e. S e \<and> (\<exists>f. T f \<and>
      a = a' \<and> b = b' \<and> d = d' \<and> e = e' \<and> f = f'))))) \<longleftrightarrow> P a' \<and> Q b' \<and> R d' \<and> S e' \<and> T f'"
    for P Q R S T a' b' d' e' f' by blast
  show ?thesis
  proof (cases "known ?s members = members \<and> proper ?s members")
    case True
    then have p: "proper ?s members"
      and v: "visit_map True ?s members [] = Inr (rev (known ?s members))" by (auto simp: visit_start)
    from True have "distinct (map fst members)" "well_typed ?s members" by (metis proper_def)+
    moreover have "fst ` set members \<subseteq> dom (map_of ?s)" using True known_all by blast
    ultimately show ?thesis
      unfolding ServerConfig_deserialize_def v and_then_simps and_then_Inr server_record
        field_iff(1) [OF p server_keys(1)] field_iff(1) [OF p server_keys(2)]
        field_iff(1) [OF p server_keys(3)] field_iff(1) [OF p server_keys(4)]
        field_iff(2) [OF p server_keys(5)] five server_names default_path_def default_idle_timeout_ms_def
      by blast
  next
    case False
    then have "\<not> (known ?s members = members \<and> well_typed ?s members \<and> distinct (map fst members))"
      by (auto simp: proper_def)
    moreover have "ServerConfig_deserialize members \<noteq> Inr c"
      using False unfolding ServerConfig_deserialize_def and_then_Inr visit_start by blast
    ultimately show ?thesis unfolding known_all server_names by blast
  qed
qed

text \<open>
  The client's configuration is read by the same rules with one exception: a member with any
  other name is skipped, whatever it holds and however often it occurs, so a misspelt optional
  member (such as \<open>idleTimeout\<close>) is silently replaced by the default, which the server's reader
  refuses.
\<close>

lemma client_config_skips_unknown:
  "(ClientConfig_deserialize members = Inr c \<longleftrightarrow>
     proper client_fields members \<and>
     text_or None ''url'' members = Some (cc_url c) \<and>
     text_or None ''certificateHashSha256'' members = Some (cc_certificate_hash_sha256 c) \<and>
     number_or (Some 30000) ''idleTimeoutMs'' members = Some (cc_idle_timeout_ms c)) \<and>
   ClientConfig_deserialize ((''idleTimeout'', v) # members) = ClientConfig_deserialize members \<and>
   ServerConfig_deserialize ((''idleTimeout'', v) # members) = Inl (UnknownField ''idleTimeout'')"
proof (intro conjI)
  let ?s = client_fields
  have three: "(\<exists>a. P a \<and> (\<exists>b. Q b \<and> (\<exists>d. R d \<and> a = a' \<and> b = b' \<and> d = d'))) \<longleftrightarrow> P a' \<and> Q b' \<and> R d'"
    for P Q R a' b' d' by blast
  show "ClientConfig_deserialize members = Inr c \<longleftrightarrow> proper ?s members \<and>
     text_or None ''url'' members = Some (cc_url c) \<and>
     text_or None ''certificateHashSha256'' members = Some (cc_certificate_hash_sha256 c) \<and>
     number_or (Some 30000) ''idleTimeoutMs'' members = Some (cc_idle_timeout_ms c)"
  proof (cases "proper ?s members")
    case True
    then have v: "visit_map False ?s members [] = Inr (rev (known ?s members))" by (auto simp: visit_start)
    from True show ?thesis
      unfolding ClientConfig_deserialize_def v and_then_simps and_then_Inr client_record
        field_iff(1) [OF True client_keys(1)] field_iff(1) [OF True client_keys(2)]
        field_iff(2) [OF True client_keys(3)] three client_default_idle_timeout_ms_def
      by blast
  next
    case False
    then show ?thesis unfolding ClientConfig_deserialize_def and_then_Inr visit_start by blast
  qed
  have "map_of ?s ''idleTimeout'' = None" "map_of server_fields ''idleTimeout'' = None"
    by (simp_all add: client_fields_eval server_fields_eval)
  then show "ClientConfig_deserialize ((''idleTimeout'', v) # members) = ClientConfig_deserialize members"
    "ServerConfig_deserialize ((''idleTimeout'', v) # members) = Inl (UnknownField ''idleTimeout'')"
    by (simp_all add: ClientConfig_deserialize_def ServerConfig_deserialize_def)
qed

text \<open>
  C31: A JSON object is taken as a server configuration exactly when it has no member but the five
  named ones, none of them twice and each of its type, and the three without a default are there; an
  absent path is \<open>/rk\<close> and an absent idle timeout thirty seconds; the order of the members does not
  matter. The client's is read by the same rules with one exception: a member with any other name is
  skipped, whatever it holds, so a misspelt optional member is silently replaced by the default.
\<close>

theorem config_shapes:
  "(ServerConfig_deserialize members = Inr c \<longleftrightarrow>
      fst ` set members \<subseteq> {''bindAddress'', ''certificateChainPem'', ''privateKeyPem'', ''path'', ''idleTimeoutMs''} \<and>
      distinct (map fst members) \<and> well_typed server_fields members \<and>
      text_or None ''bindAddress'' members = Some (sc_bind_address c) \<and>
      text_or None ''certificateChainPem'' members = Some (sc_certificate_chain_pem c) \<and>
      text_or None ''privateKeyPem'' members = Some (sc_private_key_pem c) \<and>
      text_or (Some ''/rk'') ''path'' members = Some (sc_path c) \<and>
      number_or (Some 30000) ''idleTimeoutMs'' members = Some (sc_idle_timeout_ms c)) \<and>
   (ClientConfig_deserialize members = Inr d \<longleftrightarrow>
     proper client_fields members \<and>
     text_or None ''url'' members = Some (cc_url d) \<and>
     text_or None ''certificateHashSha256'' members = Some (cc_certificate_hash_sha256 d) \<and>
     number_or (Some 30000) ''idleTimeoutMs'' members = Some (cc_idle_timeout_ms d)) \<and>
   ClientConfig_deserialize ((''idleTimeout'', v) # members) = ClientConfig_deserialize members \<and>
   ServerConfig_deserialize ((''idleTimeout'', v) # members) = Inl (UnknownField ''idleTimeout'')"
  using server_config_iff client_config_skips_unknown by blast

end
