(* ===== verification/RkTests.thy ===== *)
theory RkTests
  imports RkSerde RkFfi
begin

text \<open>
  The unit tests of the parsing half of the crate (\<open>config.rs\<close>, \<open>client_config.rs\<close>, \<open>event.rs\<close>,
  \<open>status.rs\<close>, \<open>lib.rs\<close>) as conditions on the model, one definition per test, and the proof that
  the model meets them all. A test that unwraps fails where the value is absent. What a test asks
  of the text of a JSON object is asked of its members. The certificate is the argument \<open>pem\<close>, which
  \<open>self_signed_pem\<close> makes with a third-party package; the PEM readers are one too.
\<close>

section \<open>The test certificate\<close>

text \<open>
  \<open>rust/src/testing.rs\<close>: a self-signed certificate whose validity fits the rule that browsers apply
  to a certificate they trust by its hash. The generator (rcgen) is the record of functions; times
  are nanoseconds of the system clock, and \<open>expect\<close> panics.
\<close>

record cert_params =
  subject_alt_names :: "rstr list"
  distinguished_name :: "rstr list"
  not_before :: int
  not_after :: int

record rcgen =
  rc_generate :: "rstr + nat"
  rc_params_new :: "rstr list \<Rightarrow> rstr + cert_params"
  rc_self_signed :: "cert_params \<Rightarrow> nat \<Rightarrow> rstr + nat"
  rc_pem :: "nat \<Rightarrow> rstr"
  rc_serialize_pem :: "nat \<Rightarrow> rstr"

definition from_secs :: "int \<Rightarrow> int" where
  "from_secs secs = secs * 1000000000"

definition self_signed_params :: "int \<Rightarrow> cert_params \<Rightarrow> cert_params" where
  "self_signed_params now params =
     params\<lparr>distinguished_name := [],
       not_before := now - from_secs (24 * 60 * 60),
       not_after := now + from_secs (10 * 24 * 60 * 60)\<rparr>"

definition self_signed_pem :: "rcgen \<Rightarrow> int \<Rightarrow> (rstr \<times> rstr) outcome" where
  "self_signed_pem g now =
     (case rc_generate g of
        Inl _ \<Rightarrow> Panicked
      | Inr key \<Rightarrow>
          (case rc_params_new g [''localhost'', ''127.0.0.1''] of
             Inl _ \<Rightarrow> Panicked
           | Inr params \<Rightarrow>
               (case rc_self_signed g (self_signed_params now params) key of
                  Inl _ \<Rightarrow> Panicked
                | Inr certificate \<Rightarrow> Returned (rc_pem g certificate, rc_serialize_pem g key))))"

text \<open>
  The certificate asked for is valid now, with a day of slack for a clock that is behind, and for
  less than the fourteen days the rule allows.
\<close>

lemma self_signed_window:
  assumes "self_signed_pem g now = Returned pem"
  shows "\<exists>params key certificate. rc_self_signed g params key = Inr certificate \<and>
    pem = (rc_pem g certificate, rc_serialize_pem g key) \<and>
    not_before params + from_secs (24 * 60 * 60) \<le> now \<and> now < not_after params \<and>
    not_after params - not_before params < from_secs (14 * 24 * 60 * 60)"
proof -
  from assms obtain key params certificate where
    s: "rc_self_signed g (self_signed_params now params) key = Inr certificate"
      "pem = (rc_pem g certificate, rc_serialize_pem g key)"
    by (auto simp: self_signed_pem_def split: sum.splits)
  show ?thesis
    by (rule exI [of _ "self_signed_params now params"], rule exI [of _ key], rule exI [of _ certificate])
      (use s in \<open>simp add: self_signed_params_def from_secs_def\<close>)
qed

section \<open>What the tests use\<close>

fun addr_port :: "SocketAddr \<Rightarrow> u16" where
  "addr_port (V4 _ _ _ _ p) = p"
| "addr_port (V6 _ _ p) = p"

definition unwrap_err :: "'e + 'a \<Rightarrow> ('e \<Rightarrow> bool) \<Rightarrow> bool" where
  "unwrap_err r check = (case r of Inl e \<Rightarrow> check e | Inr _ \<Rightarrow> False)"

definition unwrap :: "'e + 'a \<Rightarrow> ('a \<Rightarrow> bool) \<Rightarrow> bool" where
  "unwrap r check = (case r of Inl _ \<Rightarrow> False | Inr a \<Rightarrow> check a)"

definition returned :: "'a outcome \<Rightarrow> ('a \<Rightarrow> bool) \<Rightarrow> bool" where
  "returned r check = (case r of Panicked \<Rightarrow> False | Returned a \<Rightarrow> check a)"

lemma unwrap_simps [simp]:
  "unwrap_err (Inl e) check = check e" "unwrap (Inr a) check = check a"
  "returned (Returned b) check = check b"
  by (simp_all add: unwrap_err_def unwrap_def returned_def)

text \<open>What the tests rely on of the certificate and of the PEM readers.\<close>

definition not_a_certificate :: rstr where
  "not_a_certificate = ''not a certificate''"

definition not_a_key :: rstr where
  "not_a_key = ''-----BEGIN NOTHING-----'' @ [char_of (10::nat)] @ ''-----END NOTHING-----'' @ [char_of (10::nat)]"

definition pem_fixture ::
  "(rstr \<Rightarrow> (rstr + der) list) \<Rightarrow> (rstr \<Rightarrow> rstr + PrivateKeyDer option) \<Rightarrow> rstr \<times> rstr \<Rightarrow> bool" where
  "pem_fixture certs key pem \<longleftrightarrow>
     (case certs (fst pem) of [Inr _] \<Rightarrow> True | _ \<Rightarrow> False) \<and>
     (case key (snd pem) of Inr (Some (Pkcs8 _)) \<Rightarrow> True | _ \<Rightarrow> False) \<and>
     certs not_a_certificate = [] \<and> key not_a_key = Inr None"

section \<open>Server configuration\<close>

definition valid_json :: "rstr \<times> rstr \<Rightarrow> rstr \<Rightarrow> (string \<times> json) list" where
  "valid_json pem bind =
     [(''bindAddress'', JStr bind), (''certificateChainPem'', JStr (fst pem)),
      (''privateKeyPem'', JStr (snd pem))]"

definition a_valid_config_parses_and_keeps_the_chain where
  "a_valid_config_parses_and_keeps_the_chain certs key pem \<longleftrightarrow>
     unwrap (ServerConfig_deserialize (valid_json pem ''127.0.0.1:0'')) (\<lambda>cfg.
     unwrap (config_parse certs key cfg) (\<lambda>parsed.
       addr_port (pc_bind parsed) = 0 \<and> length (pc_chain parsed) = 1 \<and> pc_path parsed = ''/rk''))"

definition a_host_without_a_port_is_rejected_by_name where
  "a_host_without_a_port_is_rejected_by_name certs key pem \<longleftrightarrow>
     unwrap (ServerConfig_deserialize (valid_json pem ''127.0.0.1'')) (\<lambda>cfg.
     unwrap_err (config_parse certs key cfg) (\<lambda>(status, message).
       status = InvalidArgument \<and> contains message ''port''))"

definition pem_with_no_certificate_block_is_bad_certificate where
  "pem_with_no_certificate_block_is_bad_certificate certs key pem \<longleftrightarrow>
     unwrap_err (config_parse certs key
       \<lparr>sc_bind_address = ''127.0.0.1:0'', sc_certificate_chain_pem = not_a_certificate,
        sc_private_key_pem = snd pem, sc_path = ''/rk'', sc_idle_timeout_ms = 30000\<rparr>)
       (\<lambda>e. fst e = BadCertificate)"

definition pem_with_no_key_block_is_bad_certificate where
  "pem_with_no_key_block_is_bad_certificate certs key pem \<longleftrightarrow>
     unwrap_err (config_parse certs key
       \<lparr>sc_bind_address = ''127.0.0.1:0'', sc_certificate_chain_pem = fst pem,
        sc_private_key_pem = not_a_key, sc_path = ''/rk'', sc_idle_timeout_ms = 30000\<rparr>)
       (\<lambda>e. fst e = BadCertificate)"

definition a_path_without_a_leading_slash_is_rejected where
  "a_path_without_a_leading_slash_is_rejected certs key pem \<longleftrightarrow>
     unwrap_err (config_parse certs key
       \<lparr>sc_bind_address = ''127.0.0.1:0'', sc_certificate_chain_pem = fst pem,
        sc_private_key_pem = snd pem, sc_path = ''rk'', sc_idle_timeout_ms = 30000\<rparr>)
       (\<lambda>e. fst e = InvalidArgument)"

definition an_unknown_field_is_refused_rather_than_ignored :: bool where
  "an_unknown_field_is_refused_rather_than_ignored \<longleftrightarrow>
     unwrap_err (ServerConfig_deserialize
       [(''bindAddress'', JStr ''127.0.0.1:0''), (''certificateChainPem'', JStr ''x''),
        (''privateKeyPem'', JStr ''y''), (''paths'', JStr ''/rk'')]) (\<lambda>_. True)"

lemma local_address: "parse_socket_addr ''127.0.0.1:0'' = Some (V4 127 0 0 1 0)"
proof -
  have "digit_char 0 = CHR ''0''" "digit_char 1 = CHR ''1''" "digit_char 2 = CHR ''2''"
    "digit_char 7 = CHR ''7''" by code_simp+
  then have "display_socket_addr (V4 127 0 0 1 0) = ''127.0.0.1:0''" by (simp add: nat_dec.simps)
  with socket_addr_v4_roundtrip [of 127 0 0 1 0] show ?thesis by simp
qed

lemma valid_json_read:
  "ServerConfig_deserialize (valid_json pem bind) =
     Inr \<lparr>sc_bind_address = bind, sc_certificate_chain_pem = fst pem, sc_private_key_pem = snd pem,
          sc_path = ''/rk'', sc_idle_timeout_ms = 30000\<rparr>"
  by (simp add: ServerConfig_deserialize_def valid_json_def server_fields_eval string_field_def
      u64_field_def default_path_def default_idle_timeout_ms_def)

lemma fixture_parses:
  assumes "pem_fixture certs key pem" "parse_socket_addr bind = Some addr"
  shows "\<exists>der k. certs (fst pem) = [Inr der] \<and> key (snd pem) = Inr (Some (Pkcs8 k)) \<and>
    config_parse certs key
      \<lparr>sc_bind_address = bind, sc_certificate_chain_pem = fst pem, sc_private_key_pem = snd pem,
       sc_path = ''/rk'', sc_idle_timeout_ms = 30000\<rparr> =
    Inr \<lparr>pc_bind = addr, pc_chain = [der], pc_key = Pkcs8 k, pc_path = ''/rk'',
         pc_idle_timeout = from_millis 30000\<rparr>"
  using assms
  by (auto simp: pem_fixture_def config_parse_def starts_with_def
      split: list.splits sum.splits option.splits PrivateKeyDer.splits)

lemma config_tests:
  assumes "pem_fixture certs key pem"
  shows "a_valid_config_parses_and_keeps_the_chain certs key pem"
    and "a_host_without_a_port_is_rejected_by_name certs key pem"
    and "pem_with_no_certificate_block_is_bad_certificate certs key pem"
    and "pem_with_no_key_block_is_bad_certificate certs key pem"
    and "a_path_without_a_leading_slash_is_rejected certs key pem"
    and "an_unknown_field_is_refused_rather_than_ignored"
proof -
  from fixture_parses [OF assms local_address]
  show "a_valid_config_parses_and_keeps_the_chain certs key pem"
    by (auto simp: a_valid_config_parses_and_keeps_the_chain_def valid_json_read)
  have "parse_socket_addr ''127.0.0.1'' = None" by (rule no_colon_no_addr) simp
  moreover have "contains (msg_bind_address a) ''port''" for a
    using contains_middle [of "''bindAddress '' @ in_quotes a @ '' is not host:'' "] 
    unfolding msg_bind_address_def by (metis append_assoc append_Cons append_Nil)
  ultimately show "a_host_without_a_port_is_rejected_by_name certs key pem"
    by (simp add: a_host_without_a_port_is_rejected_by_name_def valid_json_read config_parse_def)
  show "pem_with_no_certificate_block_is_bad_certificate certs key pem"
    "pem_with_no_key_block_is_bad_certificate certs key pem"
    "a_path_without_a_leading_slash_is_rejected certs key pem"
    using assms fixture_parses [OF assms local_address]
    by (auto simp: pem_with_no_certificate_block_is_bad_certificate_def pem_fixture_def
        pem_with_no_key_block_is_bad_certificate_def a_path_without_a_leading_slash_is_rejected_def
        config_parse_def local_address starts_with_def)
  show "an_unknown_field_is_refused_rather_than_ignored"
    by (simp add: an_unknown_field_is_refused_rather_than_ignored_def ServerConfig_deserialize_def
        server_fields_eval)
qed

section \<open>Client configuration\<close>

definition client_config :: "rstr \<Rightarrow> rstr \<Rightarrow> ClientConfig" where
  "client_config url hash =
     \<lparr>cc_url = url, cc_certificate_hash_sha256 = hash, cc_idle_timeout_ms = 30000\<rparr>"

definition GOOD :: rstr where
  "GOOD = ''0123456789abcdef0123456789abcdef0123456789abcdef0123456789abcdef''"

definition accepts_a_well_formed_configuration where
  "accepts_a_well_formed_configuration dbg \<longleftrightarrow>
     returned (client_config_parse dbg (client_config ''https://127.0.0.1:4433/wire'' GOOD)) (\<lambda>r.
     unwrap r (\<lambda>parsed. pcc_certificate_hash parsed ! 0 = 0x01 \<and> pcc_certificate_hash parsed ! 31 = 0xef))"

definition refuses_a_url_that_is_not_https where
  "refuses_a_url_that_is_not_https dbg \<longleftrightarrow>
     returned (client_config_parse dbg (client_config ''wss://127.0.0.1:4433/wire'' GOOD)) (\<lambda>r.
     unwrap_err r (\<lambda>(status, detail). status = InvalidArgument \<and> contains detail ''https://''))"

definition COLONS :: rstr where
  "COLONS = ''01:23:45:67:89:ab:cd:ef:01:23:45:67:89:ab:cd:ef:'' @
     ''01:23:45:67:89:ab:cd:ef:01:23:45:67:89:ab:cd:ef''"

definition names_the_colon_mistake_by_its_length where
  "names_the_colon_mistake_by_its_length dbg \<longleftrightarrow>
     returned (client_config_parse dbg (client_config ''https://x:1/y'' COLONS)) (\<lambda>r.
     unwrap_err r (\<lambda>(status, detail). status = InvalidArgument \<and> contains detail ''colons''))"

definition refuses_a_zero_timeout_rather_than_meaning_forever where
  "refuses_a_zero_timeout_rather_than_meaning_forever dbg \<longleftrightarrow>
     returned (client_config_parse dbg ((client_config ''https://x:1/y'' GOOD)\<lparr>cc_idle_timeout_ms := 0\<rparr>)) (\<lambda>r.
     unwrap_err r (\<lambda>(status, detail). status = InvalidArgument \<and> contains detail ''no timeout at all''))"

definition hex_is_case_insensitive_because_tools_disagree where
  "hex_is_case_insensitive_because_tools_disagree dbg \<longleftrightarrow>
     returned (client_config_parse dbg (client_config ''https://x:1/y'' GOOD)) (\<lambda>ra. unwrap ra (\<lambda>a.
     returned (client_config_parse dbg (client_config ''https://x:1/y'' (map ascii_upper GOOD))) (\<lambda>rb.
     unwrap rb (\<lambda>b. pcc_certificate_hash a = pcc_certificate_hash b))))"

definition GOOD_bytes :: "u8 list" where
  "GOOD_bytes = concat (replicate 4 [0x01, 0x23, 0x45, 0x67, 0x89, 0xab, 0xcd, 0xef])"

lemma GOOD_hash: "map ascii_lower GOOD = hash_hex GOOD_bytes" "map ascii_lower (map ascii_upper GOOD) = hash_hex GOOD_bytes"
  by code_simp+


lemma GOOD_bytes_facts: "length GOOD_bytes = 32" "GOOD_bytes ! 0 = 0x01" "GOOD_bytes ! 31 = 0xef"
  by code_simp+

lemma GOOD_parses:
  "parse_hash dbg GOOD = Returned (Inr GOOD_bytes)"
  "parse_hash dbg (map ascii_upper GOOD) = Returned (Inr GOOD_bytes)"
  by (rule parse_hash_printed [OF _ GOOD_hash(1)], simp add: GOOD_bytes_facts)
    (rule parse_hash_printed [OF _ GOOD_hash(2)], simp add: GOOD_bytes_facts)

lemma client_config_tests:
  "accepts_a_well_formed_configuration dbg" "refuses_a_url_that_is_not_https dbg"
  "names_the_colon_mistake_by_its_length dbg" "refuses_a_zero_timeout_rather_than_meaning_forever dbg"
  "hex_is_case_insensitive_because_tools_disagree dbg"
proof -
  have url: "starts_with ''https://127.0.0.1:4433/wire'' ''https://''" "starts_with ''https://x:1/y'' ''https://''"
    "\<not> starts_with ''wss://127.0.0.1:4433/wire'' ''https://''" by (simp_all add: starts_with_def)
  show "accepts_a_well_formed_configuration dbg"
    by (simp add: accepts_a_well_formed_configuration_def client_config_parse_def client_config_def url
        GOOD_parses GOOD_bytes_facts)
  have "contains (msg_url_scheme shown) ''https://''" for shown
    using contains_middle [of "''url must start with ''" "''https://''"]
    unfolding msg_url_scheme_def by (metis append_assoc append_Cons append_Nil)
  then show "refuses_a_url_that_is_not_https dbg"
    by (simp add: refuses_a_url_that_is_not_https_def client_config_parse_def client_config_def url)
  have "COLONS \<noteq> []" "solid (hd COLONS)" "solid (last COLONS)" "length COLONS \<noteq> 64" by code_simp+
  then have "parse_hash dbg COLONS = Returned (Inl (InvalidArgument, msg_hash_length (length COLONS)))"
    by (simp add: parse_hash_def trim_solid)
  moreover have "contains (msg_hash_length k) ''colons''" for k
    using contains_middle [of "''certificateHashSha256 must be 64 hex characters, got '' @ nat_dec k @
      '' '' @ em_dash @ '' a fingerprint copied with ''" "''colons''" "'' has 95''"]
    unfolding msg_hash_length_def by simp
  ultimately show "names_the_colon_mistake_by_its_length dbg"
    by (simp add: names_the_colon_mistake_by_its_length_def client_config_parse_def client_config_def url)
  show "refuses_a_zero_timeout_rather_than_meaning_forever dbg"
    by (simp add: refuses_a_zero_timeout_rather_than_meaning_forever_def client_config_parse_def
        client_config_def url GOOD_parses msg_zero_timeout_def starts_with_def)
  show "hex_is_case_insensitive_because_tools_disagree dbg"
    by (simp add: hex_is_case_insensitive_because_tools_disagree_def client_config_parse_def
        client_config_def url GOOD_parses)
qed

section \<open>Events\<close>

definition event_cases :: "Event list" where
  "event_cases =
     [SessionOpened 1 ''till.local'' ''/rk'', SessionClosed 1 ''peer gone'', Datagram 1 ''x'',
      StreamMessage 1 ''x'', EndpointError ''x'', StreamOpened 1 2, StreamData 1 2 ''x'', StreamClosed 1 2]"

definition the_serialised_tag_is_the_name_this_type_claims :: bool where
  "the_serialised_tag_is_the_name_this_type_claims \<longleftrightarrow>
     list_all (\<lambda>event. map_of (event_object event) ''kind'' = Some (JStr (kind event))) event_cases"

definition bidirectional_events_carry_the_stream_they_belong_to :: bool where
  "bidirectional_events_carry_the_stream_they_belong_to \<longleftrightarrow>
     kind (StreamOpened 7 3) = ''streamOpened'' \<and>
     (let json = event_object (StreamData 7 3 ''{}'') in
      (''streamId'', JNum 3) \<in> set json \<and> (''sessionId'', JNum 7) \<in> set json) \<and>
     kind (StreamClosed 7 3) = ''streamClosed''"

definition fields_travel_in_camel_case_so_dart_reads_them_unchanged :: bool where
  "fields_travel_in_camel_case_so_dart_reads_them_unchanged \<longleftrightarrow>
     (let json = event_object (SessionOpened 7 ''a'' ''/rk'') in
      (''sessionId'', JNum 7) \<in> set json \<and> list_all (\<lambda>(k, v). \<not> contains k ''session_id'') json)"

lemma event_tests:
  "the_serialised_tag_is_the_name_this_type_claims"
  "bidirectional_events_carry_the_stream_they_belong_to"
  "fields_travel_in_camel_case_so_dart_reads_them_unchanged"
proof -
  have "map_of (event_object e) ''kind'' = Some (JStr (kind e))" for e
    using event_object_kind [of e] by (metis fun_upd_same map_of.simps(2) fst_conv snd_conv)
  then show "the_serialised_tag_is_the_name_this_type_claims"
    by (simp add: the_serialised_tag_is_the_name_this_type_claims_def list_all_iff)
  show "bidirectional_events_carry_the_stream_they_belong_to"
    by (simp add: bidirectional_events_carry_the_stream_they_belong_to_def event_object_def camel_names
        del: camel_field.simps)
  show "fields_travel_in_camel_case_so_dart_reads_them_unchanged"
    by (simp add: fields_travel_in_camel_case_so_dart_reads_them_unchanged_def event_object_def camel_names
        starts_with_def del: camel_field.simps)
qed

section \<open>Statuses\<close>

definition every_name_is_nul_terminated :: bool where
  "every_name_is_nul_terminated \<longleftrightarrow>
     list_all (\<lambda>status. name_with_nul status \<noteq> [] \<and> last (name_with_nul status) = NUL) status_ALL"

definition names_are_distinct :: bool where
  "names_are_distinct \<longleftrightarrow> length (remdups (map name status_ALL)) = length status_ALL"

definition no_name_contains_an_interior_nul :: bool where
  "no_name_contains_an_interior_nul \<longleftrightarrow>
     list_all (\<lambda>status. returned (name status) (\<lambda>n. NUL \<notin> set n)) status_ALL"

lemma status_tests:
  "every_name_is_nul_terminated" "names_are_distinct" "no_name_contains_an_interior_nul"
proof -
  show "every_name_is_nul_terminated"
    by (simp add: every_name_is_nul_terminated_def list_all_iff name_with_nul_split)
  have "distinct (map name status_ALL)"
    using plain_names_distinct by (simp add: name_str_slice [abs_def] distinct_map inj_on_def)
  then show "names_are_distinct" by (simp add: names_are_distinct_def distinct_remdups_id)
  show "no_name_contains_an_interior_nul"
    by (simp add: no_name_contains_an_interior_nul_def list_all_iff name_str_slice plain_name_no_nul)
qed

section \<open>Versions, details and the guard\<close>

text \<open>
  Reading the detail takes the string over and frees it (\<open>CString::from_raw\<close>).
\<close>

definition take_last_error :: "thread \<Rightarrow> 'a ffi_state_scheme \<Rightarrow> string option \<times> 'a ffi_state_scheme" where
  "take_last_error t st =
     (case rk_quic_last_error t st of
        (p, st1) \<Rightarrow>
          if p = 0 then (None, st1)
          else (case map_of (heap st1) p of
                  None \<Rightarrow> (None, st1)
                | Some mem \<Rightarrow> (c_read mem, st1\<lparr>heap := AList.delete p (heap st1)\<rparr>)))"

definition CARGO_PKG_VERSION :: string where
  "CARGO_PKG_VERSION = ''0.3.0''"

definition version_matches_the_crate_and_is_readable_from_c :: bool where
  "version_matches_the_crate_and_is_readable_from_c \<longleftrightarrow> c_read rk_quic_version = Some CARGO_PKG_VERSION"

definition abi_version_is_the_declared_generation :: bool where
  "abi_version_is_the_declared_generation \<longleftrightarrow>
     rk_quic_abi_version = RK_QUIC_ABI_VERSION \<and> RK_QUIC_ABI_VERSION = 2"

definition last_error_is_null_when_nothing_failed where
  "last_error_is_null_when_nothing_failed t st \<longleftrightarrow> fst (take_last_error t (clear_last_error t st)) = None"

definition last_error_is_reported_once_then_cleared where
  "last_error_is_reported_once_then_cleared t st \<longleftrightarrow>
     (case take_last_error t (set_last_error t ''port 4433 is taken'' st) of
        (first, st1) \<Rightarrow> first = Some ''port 4433 is taken'' \<and> fst (take_last_error t st1) = None)"

definition freeing_null_is_a_no_op where
  "freeing_null_is_a_no_op st \<longleftrightarrow> rk_quic_string_free 0 st = Some st"

definition a_panic_inside_the_guard_becomes_a_status where
  "a_panic_inside_the_guard_becomes_a_status st \<longleftrightarrow>
     returned (name Panic) (\<lambda>n. c_read (fst (guard (Panicked, st))) = Some n)"

definition the_guard_passes_a_normal_status_through where
  "the_guard_passes_a_normal_status_through st \<longleftrightarrow>
     c_read (fst (guard (Returned PortInUse, st))) = Some ''portInUse''"

lemma c_read_status: "c_read (as_c_str s) = Some (plain_name s)"
  using c_read_as_c_str [of s "[]"] by simp

lemma take_last_error_set:
  assumes "ffi_wf st" "NUL \<notin> set m"
  shows "fst (take_last_error t (set_last_error t m st)) = Some m \<and>
    last_error (snd (take_last_error t (set_last_error t m st))) t = None"
proof -
  let ?st = "clear_last_error t (set_last_error t m st)"
  obtain p st1 where io: "into_owned_c_string m ?st = (p, st1)" by fastforce
  have "p \<noteq> 0" using io assms(1) by (auto simp: into_owned_c_string_def Let_def ffi_wf_def)
  moreover have "last_error st1 t = None" using into_owned_frame(1) [of m ?st] io by simp
  moreover obtain mem where "map_of (heap st1) p = Some mem" "c_read mem = Some m"
    using into_owned_readable [OF io] assms(2) by auto
  ultimately show ?thesis by (simp add: take_last_error_def rk_quic_last_error_def io)
qed

lemma take_last_error_none: "last_error st t = None \<Longrightarrow> fst (take_last_error t st) = None"
  by (simp add: take_last_error_def rk_quic_last_error_def)

lemma lib_tests:
  assumes "ffi_wf st"
  shows "version_matches_the_crate_and_is_readable_from_c" "abi_version_is_the_declared_generation"
    "last_error_is_null_when_nothing_failed t st" "last_error_is_reported_once_then_cleared t st"
    "freeing_null_is_a_no_op st" "a_panic_inside_the_guard_becomes_a_status st"
    "the_guard_passes_a_normal_status_through st"
proof -
  have v: "NUL \<notin> set ''0.3.0''" "NUL \<notin> set ''port 4433 is taken''" by (simp_all add: NUL_def char_of_def)
  from c_read_terminated [OF v(1), of "[]"]
  show "version_matches_the_crate_and_is_readable_from_c"
    by (simp add: version_matches_the_crate_and_is_readable_from_c_def rk_quic_version_def VERSION_def
        CARGO_PKG_VERSION_def)
  show "abi_version_is_the_declared_generation"
    by (simp add: abi_version_is_the_declared_generation_def rk_quic_abi_version_def RK_QUIC_ABI_VERSION_def)
  show "last_error_is_null_when_nothing_failed t st"
    by (simp add: last_error_is_null_when_nothing_failed_def take_last_error_none)
  from take_last_error_set [OF assms v(2), of t] show "last_error_is_reported_once_then_cleared t st"
    by (auto simp: last_error_is_reported_once_then_cleared_def take_last_error_none split: prod.splits)
  show "freeing_null_is_a_no_op st" by (simp add: freeing_null_is_a_no_op_def rk_quic_string_free_def)
  show "a_panic_inside_the_guard_becomes_a_status st"
    by (simp add: a_panic_inside_the_guard_becomes_a_status_def name_str_slice c_read_status)
  show "the_guard_passes_a_normal_status_through st"
    by (simp add: the_guard_passes_a_normal_status_through_def c_read_status plain_name_def)
qed

section \<open>All of them\<close>

text \<open>
  The six tests of the server configuration, the five of the client configuration, the three of
  the events, the three of the statuses and the seven of the library's root.
\<close>

definition parsing_tests_pass where
  "parsing_tests_pass certs key pem dbg t st \<longleftrightarrow>
     (a_valid_config_parses_and_keeps_the_chain certs key pem \<and>
      a_host_without_a_port_is_rejected_by_name certs key pem \<and>
      pem_with_no_certificate_block_is_bad_certificate certs key pem \<and>
      pem_with_no_key_block_is_bad_certificate certs key pem \<and>
      a_path_without_a_leading_slash_is_rejected certs key pem \<and>
      an_unknown_field_is_refused_rather_than_ignored) \<and>
     (accepts_a_well_formed_configuration dbg \<and> refuses_a_url_that_is_not_https dbg \<and>
      names_the_colon_mistake_by_its_length dbg \<and>
      refuses_a_zero_timeout_rather_than_meaning_forever dbg \<and>
      hex_is_case_insensitive_because_tools_disagree dbg) \<and>
     (the_serialised_tag_is_the_name_this_type_claims \<and>
      bidirectional_events_carry_the_stream_they_belong_to \<and>
      fields_travel_in_camel_case_so_dart_reads_them_unchanged) \<and>
     (every_name_is_nul_terminated \<and> names_are_distinct \<and> no_name_contains_an_interior_nul) \<and>
     (version_matches_the_crate_and_is_readable_from_c \<and> abi_version_is_the_declared_generation \<and>
      last_error_is_null_when_nothing_failed t st \<and> last_error_is_reported_once_then_cleared t st \<and>
      freeing_null_is_a_no_op st \<and> a_panic_inside_the_guard_becomes_a_status st \<and>
      the_guard_passes_a_normal_status_through st)"

lemma parsing_tests:
  assumes "pem_fixture certs key pem" and "ffi_wf st"
  shows "parsing_tests_pass certs key pem dbg t st"
  using config_tests [OF assms(1)] client_config_tests event_tests status_tests
    lib_tests [OF assms(2)] unfolding parsing_tests_pass_def by blast

definition demo_certs :: "rstr \<Rightarrow> (rstr + der) list" where
  "demo_certs text = (if text = ''C'' then [Inr []] else [])"

definition demo_key :: "rstr \<Rightarrow> rstr + PrivateKeyDer option" where
  "demo_key text = Inr (if text = ''K'' then Some (Pkcs8 []) else None)"

lemma demo_fixture: "pem_fixture demo_certs demo_key (''C'', ''K'')"
  by (simp add: pem_fixture_def demo_certs_def demo_key_def not_a_certificate_def not_a_key_def)

end
