(* ===== verification/RkBench.thy ===== *)
theory RkBench
  imports RkTests RkPoll RkHandles
begin

text \<open>
  The bench the endpoint's unit tests run on: a world in which a local server can be started, the
  state of the process before a test, and what starting, reading, polling and stopping give there.
\<close>

section \<open>The world of the tests\<close>

record bench =
  b_x :: external
  b_pem :: "rstr \<times> rstr"
  b_json :: "(string \<times> json) list \<Rightarrow> rstr"
  b_de_text :: "de_error \<Rightarrow> rstr"

definition local_text :: "u16 \<Rightarrow> rstr" where
  "local_text port = ''127.0.0.1:'' @ nat_dec (unat port)"

definition local_bind :: "u16 \<Rightarrow> bind_call" where
  "local_bind port = with_bind_address (V4 127 0 0 1 port)"

text \<open>The text of a JSON object is one that the reader takes for that object, and a C string.\<close>

definition json_ok :: "bench \<Rightarrow> (string \<times> json) list \<Rightarrow> bool" where
  "json_ok b members \<longleftrightarrow> utf8_valid (b_json b members) \<and> NUL \<notin> set (b_json b members) \<and>
     x_server_config_from_str (b_x b) (b_json b members) =
       (case ServerConfig_deserialize members of Inl e \<Rightarrow> Inl (b_de_text b e) | Inr c \<Rightarrow> Inr c)"

definition bare_members :: "(string \<times> json) list" where
  "bare_members = [(''bindAddress'', JStr ''127.0.0.1:0'')]"

text \<open>
  The certificate is usable, a runtime can be built, thirty seconds is a legal timeout, binding port
  0 gives a port of the system's choice, and binding that port again while it is bound is refused
  as in use.
\<close>

definition bench_ok :: "bench \<Rightarrow> bool" where
  "bench_ok b \<longleftrightarrow>
     pem_fixture (x_certs (b_x b)) (x_private_key (b_x b)) (b_pem b) \<and>
     (\<forall>der. \<exists>c. x_certificate_from_der (b_x b) der = Inr c) \<and>
     (\<forall>port. json_ok b (valid_json (b_pem b) (local_text port))) \<and> json_ok b bare_members \<and>
     x_idle_timeout_ok (b_x b) (from_millis 30000) \<and>
     (\<forall>tr. \<exists>rt. x_build_runtime (b_x b) tr = Inr rt) \<and>
     (\<forall>tr wc. ws_bind wc = local_bind 0 \<longrightarrow>
        (\<exists>ep port. x_server_endpoint (b_x b) tr wc = Inr ep \<and> port \<noteq> 0 \<and>
           x_local_port (b_x b) (tr @ [OpenServerEndpoint wc]) ep = Inr port)) \<and>
     (\<forall>tr wc ep port wc'. x_server_endpoint (b_x b) tr wc = Inr ep \<longrightarrow>
        x_local_port (b_x b) (tr @ [OpenServerEndpoint wc]) ep = Inr port \<longrightarrow>
        ws_bind wc' = local_bind port \<longrightarrow>
        (\<exists>e. x_server_endpoint (b_x b) (tr @ [OpenServerEndpoint wc, BuildRuntime]) wc' = Inl (AddrInUse, e) \<and>
           NUL \<notin> set e))"

text \<open>What the other tests may have left behind: any calls made before.\<close>

definition ready :: "process \<Rightarrow> bool" where
  "ready st \<longleftrightarrow> arcs_wf [] st \<and> ffi_wf st \<and> handle_counter st \<noteq> 0 \<and>
     reg st (handle_counter st) = None \<and> reg st (- 1) = None"

lemma ready_after:
  assumes "length cs < 2 ^ 60"
  shows "ready (run_calls (api x) cs initial_process)"
proof -
  let ?st = "run_calls (api x) cs initial_process"
  have d0: "drawn 0 initial_process" by (simp add: drawn_def reg_def new_mutex_def)
  have len: "0 + 2 * length cs + 3 < (2::nat) ^ 64" using assms by simp
  note run = run_handles [OF arcs_wf_initial d0 len, of x]
  then have d: "drawn (2 * length cs) ?st" and pos: "0 < unat (handle_counter ?st)" by force+
  have none: "reg ?st h = None" if "unat (handle_counter ?st) \<le> unat h" for h
    using d that unfolding drawn_def by (metis domI leD not_None_eq)
  have "unat (handle_counter ?st) \<le> unat (- 1 :: u64)"
    by (simp only: word_le_nat_alt [symmetric] word_order.extremum)
  with none pos show ?thesis
    by (auto simp: ready_def run_calls_wf api.run_keeps_wf)
qed

section \<open>A started server\<close>

definition config_on :: "bench \<Rightarrow> u16 \<Rightarrow> (Status \<times> rstr) + ParsedConfig" where
  "config_on b port =
     config_parse (x_certs (b_x b)) (x_private_key (b_x b))
       \<lparr>sc_bind_address = local_text port, sc_certificate_chain_pem = fst (b_pem b),
        sc_private_key_pem = snd (b_pem b), sc_path = ''/rk'', sc_idle_timeout_ms = 30000\<rparr>"

definition serving :: "process \<Rightarrow> u64 \<Rightarrow> nat \<Rightarrow> u16 \<Rightarrow> bool" where
  "serving st h a port \<longleftrightarrow> arcs_wf [] st \<and> ffi_wf st \<and> reg st h = Some a \<and> port \<noteq> 0 \<and>
     (\<exists>rt. endpoint (arc_at st a) = live_endpoint rt port)"

lemma NUL_not_in_number: "NUL \<notin> set (nat_dec n)"
proof
  assume "NUL \<in> set (nat_dec n)"
  then have "is_digit 10 NUL" using nat_dec_digits by blast
  then show False by (simp add: is_digit_def to_digit_def NUL_def Let_def)
qed

lemma local_display: "display_socket_addr (V4 127 0 0 1 port) = local_text port"
proof -
  have "nat_dec 127 = ''127''" "nat_dec 0 = ''0''" "nat_dec (Suc 0) = ''1''" by code_simp+
  then show ?thesis by (simp add: local_text_def)
qed

lemma local_text_read: "parse_socket_addr (local_text port) = Some (V4 127 0 0 1 port)"
  using socket_addr_v4_roundtrip [of 127 0 0 1 port] unfolding local_display .

lemma config_on_parses:
  assumes "bench_ok b"
  shows "\<exists>identity cfg. config_on b port = Inr cfg \<and> pc_bind cfg = V4 127 0 0 1 port \<and>
    pc_idle_timeout cfg = from_millis 30000 \<and> identity_from (b_x b) cfg = Inr identity"
proof -
  have f: "pem_fixture (x_certs (b_x b)) (x_private_key (b_x b)) (b_pem b)"
    and c: "\<exists>c. x_certificate_from_der (b_x b) der = Inr c" for der
    using assms by (simp_all add: bench_ok_def)
  from fixture_parses [OF f local_text_read] obtain der k where cfg: "config_on b port =
      Inr \<lparr>pc_bind = V4 127 0 0 1 port, pc_chain = [der], pc_key = Pkcs8 k, pc_path = ''/rk'',
           pc_idle_timeout = from_millis 30000\<rparr>"
    unfolding config_on_def by blast
  from c [of der] show ?thesis by (auto simp: cfg identity_from_def)
qed

definition wire_config :: "ParsedConfig \<Rightarrow> Identity \<Rightarrow> WtServerConfig" where
  "wire_config cfg identity =
     \<lparr>ws_bind = bind_choice (pc_bind cfg), ws_identity = identity,
      ws_max_idle_timeout = pc_idle_timeout cfg, ws_keep_alive = pc_idle_timeout cfg div 3\<rparr>"

text \<open>A start on port 0 that nothing stands in the way of.\<close>

lemma start_on_zero:
  assumes b: "bench_ok b" and wf: "arcs_wf [] st" "ffi_wf st" "reg st (handle_counter st) = None"
    and cfg: "config_on b 0 = Inr cfg"
  shows "\<exists>st' port wc ep. start (b_x b) cfg st = (Inr (handle_counter st), st') \<and>
    serving st' (handle_counter st) (next_arc st) port \<and> core st' = core st \<and>
    trace st' = trace st @ [BuildRuntime, OpenServerEndpoint wc] \<and>
    x_server_endpoint (b_x b) (trace st @ [BuildRuntime]) wc = Inr ep \<and>
    x_local_port (b_x b) (trace st @ [BuildRuntime, OpenServerEndpoint wc]) ep = Inr port"
proof -
  let ?x = "b_x b"
  from config_on_parses [OF b, of 0] cfg obtain identity where p: "pc_bind cfg = V4 127 0 0 1 0"
    "pc_idle_timeout cfg = from_millis 30000" "identity_from ?x cfg = Inr identity" by auto
  let ?wc = "wire_config cfg identity"
  have idle: "x_idle_timeout_ok ?x (pc_idle_timeout cfg)" using b p(2) by (simp add: bench_ok_def)
  obtain rt where rt: "x_build_runtime ?x (trace st) = Inr rt" using b unfolding bench_ok_def by blast
  have "ws_bind ?wc = local_bind 0" by (simp add: wire_config_def bind_choice_def p(1) local_bind_def)
  then obtain ep port where ep: "x_server_endpoint ?x (trace st @ [BuildRuntime]) ?wc = Inr ep" "port \<noteq> 0"
    "x_local_port ?x (trace st @ [BuildRuntime, OpenServerEndpoint ?wc]) ep = Inr port"
    using b unfolding bench_ok_def by (metis append.assoc append_Cons append_Nil)
  let ?st = "st\<lparr>trace := trace st @ [BuildRuntime, OpenServerEndpoint ?wc],
    handle_counter := handle_counter st + 1\<rparr>"
  let ?r = "\<lparr>strong = 1, endpoint = live_endpoint rt port, tasks = [AcceptLoop (pc_path cfg)], next_session = 1\<rparr>"
  obtain res st' where reg: "register (handle_counter st) ?r ?st = (res, st')" by fastforce
  have "arcs_wf [] ?st" "reg ?st (handle_counter st) = None" using wf by (simp_all add: reg_def)
  from register_ok [OF this reg] have ok: "res = Inr ()" "reg st' = (reg st)(handle_counter st \<mapsto> next_arc st)"
    "arc_at st' (next_arc st) = ?r" "trace st' = trace st @ [BuildRuntime, OpenServerEndpoint ?wc]"
    by (simp_all add: reg_def)
  have s: "start ?x cfg st = (Inr (handle_counter st), st')"
    using p(3) idle rt ep reg ok(1)
    by (simp add: start_def Let_def next_handle_def wire_config_def)
  have c: "core st' = core st" by (rule boundary_core [OF boundary_start [OF s]])
  with wf(2) have "ffi_wf st'" by (simp add: core_def ffi_wf_def)
  with start_arcs_wf [OF wf(1) s] ok ep(2) have "serving st' (handle_counter st) (next_arc st) port"
    by (auto simp: serving_def)
  with s c ok(4) ep show ?thesis by blast
qed

text \<open>A second start on the port of the first.\<close>

lemma start_on_taken:
  assumes b: "bench_ok b" and cfg: "config_on b port = Inr cfg"
    and tr: "trace st = tr0 @ [OpenServerEndpoint wc]" "x_server_endpoint (b_x b) tr0 wc = Inr ep"
      "x_local_port (b_x b) (tr0 @ [OpenServerEndpoint wc]) ep = Inr port"
  shows "\<exists>message st'. start (b_x b) cfg st = (Inl (PortInUse, message), st') \<and>
    contains message (nat_dec (unat port)) \<and> NUL \<notin> set message \<and> registry st' = registry st \<and> arcs st' = arcs st \<and>
    next_arc st' = next_arc st \<and> core st' = core st"
proof -
  let ?x = "b_x b"
  from config_on_parses [OF b, of port] cfg obtain identity where p: "pc_bind cfg = V4 127 0 0 1 port"
    "pc_idle_timeout cfg = from_millis 30000" "identity_from ?x cfg = Inr identity" by auto
  let ?wc = "wire_config cfg identity"
  have idle: "x_idle_timeout_ok ?x (pc_idle_timeout cfg)" using b p(2) by (simp add: bench_ok_def)
  obtain rt where rt: "x_build_runtime ?x (trace st) = Inr rt" using b unfolding bench_ok_def by blast
  have "ws_bind ?wc = local_bind port" by (simp add: wire_config_def bind_choice_def p(1) local_bind_def)
  then obtain e where e: "x_server_endpoint ?x (trace st @ [BuildRuntime]) ?wc = Inl (AddrInUse, e)"
    and nul: "NUL \<notin> set e"
    using b tr unfolding bench_ok_def by (metis append.assoc append_Cons append_Nil)
  have "contains (''bind '' @ display_socket_addr (pc_bind cfg) @ '': '' @ e) (nat_dec (unat port))"
    using contains_middle [of "''bind 127.0.0.1:''" "nat_dec (unat port)" "'': '' @ e"]
    unfolding p(1) local_display by (simp add: local_text_def)
  moreover have "start ?x cfg st = (Inl (PortInUse, ''bind '' @ display_socket_addr (pc_bind cfg) @ '': '' @ e),
      st\<lparr>trace := trace st @ [BuildRuntime, OpenServerEndpoint ?wc, DropRuntime rt]\<rparr>)"
    using p(3) idle rt e by (simp add: start_def Let_def wire_config_def bind_status_def)
  moreover have "NUL \<notin> set (''bind '' @ display_socket_addr (pc_bind cfg) @ '': '' @ e)"
    unfolding p(1) local_display using nul NUL_not_in_number [of "unat port"]
    by (simp add: local_text_def) (simp add: NUL_def char_of_def)
  ultimately show ?thesis by (auto simp: core_def)
qed

section \<open>Looking up, giving back and stopping\<close>

lemma serving_look:
  assumes "serving st h a port"
  shows "lookup h st = (Some a, arc_clone a st)"
    and "local_port (endpoint (arc_at st a)) = port" "port \<noteq> 0" "ep_wf (endpoint (arc_at st a))"
    and "guarded (sessions (endpoint (arc_at st a))) = []" "guarded (streams (endpoint (arc_at st a))) = []"
    and "buf (guarded (events (endpoint (arc_at st a)))) = []"
  using assms lookup_registered [of "[]" st h a]
  by (auto simp: serving_def live_endpoint_def new_mutex_def sync_channel_def)
    (use ep_wf_live in \<open>simp add: live_endpoint_def new_mutex_def sync_channel_def\<close>)

lemma trace_self: "st\<lparr>trace := trace st\<rparr> = st" for st :: "'a process_scheme"
  by simp

lemma clone_trace [simp]: "(arc_clone a st)\<lparr>trace := trace st\<rparr> = arc_clone a st"
  using trace_self [of "arc_clone a st"] by simp

text \<open>A reference taken and given back, whatever was done to the endpoint meanwhile.\<close>

lemma given_back:
  assumes "serving st h a port" "ep_wf ep"
  shows "arcs_wf [] (arc_drop a (set_endpoint a ep ((arc_clone a st)\<lparr>trace := tr\<rparr>))) \<and>
    reg (arc_drop a (set_endpoint a ep ((arc_clone a st)\<lparr>trace := tr\<rparr>))) h = Some a"
proof -
  have "arcs_wf [a] (arc_clone a st)" using assms(1) by (intro arc_clone_wf [of _ _ h]) (simp_all add: serving_def)
  then have "arcs_wf [a] (set_endpoint a ep ((arc_clone a st)\<lparr>trace := tr\<rparr>))"
    by (intro set_held_endpoint_wf assms(2)) simp
  from arc_drop_wf [OF this] assms(1) show ?thesis by (simp add: serving_def reg_def)
qed

lemma given_back_untouched:
  assumes "serving st h a port"
  shows "arcs_wf [] (arc_drop a ((arc_clone a st)\<lparr>trace := tr\<rparr>)) \<and>
    reg (arc_drop a ((arc_clone a st)\<lparr>trace := tr\<rparr>)) h = Some a"
proof -
  have "arcs_wf [a] (arc_clone a st)" using assms(1) by (intro arc_clone_wf [of _ _ h]) (simp_all add: serving_def)
  then have "arcs_wf [a] ((arc_clone a st)\<lparr>trace := tr\<rparr>)" by simp
  from arc_drop_wf [OF this] assms(1) show ?thesis by (simp add: serving_def reg_def)
qed

lemma removed:
  assumes "arcs_wf [] st" "reg st h = Some a"
  shows "\<exists>st'. remove h st = (StatusOk, st') \<and> arcs_wf [] st' \<and> map_of (arcs st') a = None \<and> reg st' h = None"
proof -
  let ?st = "st\<lparr>registry := lock_set (AList.delete h (guarded (registry st))) (registry st)\<rparr>"
  have r: "remove h st = (StatusOk, arc_drop a ?st)"
    using assms(2) by (simp add: remove_def lock_registry [OF assms(1)] Let_def reg_def)
  have "reg ?st h = None" by (simp add: reg_def delete_conv')
  moreover have wf: "arcs_wf [] (arc_drop a ?st)" using remove_wf [OF assms(1), of h] r by simp
  moreover have "map_of (arcs (arc_drop a ?st)) a = None"
  proof (cases "map_of (arcs (arc_drop a ?st)) a")
    case (Some q)
    from arcs_wfD(3) [OF wf Some] obtain k where "reg ?st k = Some a" by (auto simp: refs_def split: if_splits)
    then have "reg st k = Some a" "k \<noteq> h" by (auto simp: reg_def delete_conv' split: if_splits)
    with arcs_wfD(2) [OF assms(1) assms(2)] show ?thesis by blast
  qed simp
  ultimately show ?thesis using r by simp
qed

lemma not_there:
  assumes "arcs_wf [] st" "reg st h = None"
  shows "fst (lookup h st) = None" "fst (remove h st) = NotRunning"
  using assms lookup_gone [OF assms] remove_gone [OF assms] by simp_all

end
