(* ===== verification/RkTransportTests.thy ===== *)
theory RkTransportTests
  imports RkBench RkSafety
begin

text \<open>
  The unit tests of \<open>rust/src/transport.rs\<close> as conditions on the model, one definition per test. A
  \<open>Weak\<close> that no longer upgrades is an endpoint that is not in memory; the clock of a poll is the
  time the model says it waited. The runtime's tasks do nothing of their own here: no peer connects.
\<close>

section \<open>What the tests share\<close>

text \<open>\<open>start(config_on(0)).expect(..)\<close> and \<open>lookup(handle).unwrap()\<close>.\<close>

definition started :: "bench \<Rightarrow> process \<Rightarrow> (u64 \<Rightarrow> process \<Rightarrow> bool) \<Rightarrow> bool" where
  "started b st check =
     unwrap (config_on b 0) (\<lambda>config.
       case start (b_x b) config st of (r, st1) \<Rightarrow> unwrap r (\<lambda>handle. check handle st1))"

definition looked_up :: "u64 \<Rightarrow> process \<Rightarrow> (nat \<Rightarrow> process \<Rightarrow> bool) \<Rightarrow> bool" where
  "looked_up handle st check =
     (case lookup handle st of (None, _) \<Rightarrow> False | (Some a, st1) \<Rightarrow> check a st1)"

lemma started_serving:
  assumes "bench_ok b" "ready st"
    and "\<And>h a port st1. serving st1 h a port \<Longrightarrow> check h st1"
  shows "started b st check"
proof -
  from config_on_parses [OF assms(1), of 0] obtain cfg where cfg: "config_on b 0 = Inr cfg" by blast
  have "arcs_wf [] st" "ffi_wf st" "reg st (handle_counter st) = None"
    using assms(2) by (simp_all add: ready_def)
  from start_on_zero [OF assms(1) this cfg] obtain st1 port where
    s: "start (b_x b) cfg st = (Inr (handle_counter st), st1)"
    and v: "serving st1 (handle_counter st) (next_arc st) port" by blast
  from assms(3) [OF v] s cfg show ?thesis by (simp add: started_def)
qed

lemma looked_up_serving:
  "serving st h a port \<Longrightarrow> looked_up h st check = check a (arc_clone a st)"
  by (simp add: looked_up_def serving_look(1))

lemma removed_ok:
  "arcs_wf [] st \<and> reg st h = Some a \<Longrightarrow>
     \<exists>st'. remove h st = (StatusOk, st') \<and> arcs_wf [] st' \<and> map_of (arcs st') a = None \<and> reg st' h = None"
  using removed by blast

lemma removed_status: "arcs_wf [] st \<and> reg st h = Some a \<Longrightarrow> fst (remove h st) = StatusOk"
  using removed [of st h a] by auto

section \<open>The tests\<close>

definition an_endpoint_starts_reports_its_port_and_is_really_freed_on_stop :: "bench \<Rightarrow> process \<Rightarrow> bool" where
  "an_endpoint_starts_reports_its_port_and_is_really_freed_on_stop b st \<longleftrightarrow>
     started b st (\<lambda>handle st1.
       1 \<le> live_count st1 \<and>
       looked_up handle st1 (\<lambda>endpoint' st2.
         local_port (endpoint (arc_at st2 endpoint')) \<noteq> 0 \<and>
         (case remove handle (arc_drop endpoint' st2) of
            (status, st3) \<Rightarrow>
              status = StatusOk \<and> map_of (arcs st3) endpoint' = None \<and> fst (lookup handle st3) = None)))"

definition stopping_twice_says_not_running_rather_than_failing :: "bench \<Rightarrow> process \<Rightarrow> bool" where
  "stopping_twice_says_not_running_rather_than_failing b st \<longleftrightarrow>
     started b st (\<lambda>handle st1.
       case remove handle st1 of (status, st2) \<Rightarrow> status = StatusOk \<and> fst (remove handle st2) = NotRunning)"

definition a_handle_that_was_never_issued_does_not_resolve :: "process \<Rightarrow> bool" where
  "a_handle_that_was_never_issued_does_not_resolve st \<longleftrightarrow>
     fst (lookup (- 1) st) = None \<and> fst (remove (- 1) st) = NotRunning"

definition a_port_already_taken_is_port_in_use_and_not_a_generic_failure :: "bench \<Rightarrow> process \<Rightarrow> bool" where
  "a_port_already_taken_is_port_in_use_and_not_a_generic_failure b st \<longleftrightarrow>
     started b st (\<lambda>first st1.
     looked_up first st1 (\<lambda>endpoint' st2.
       let port = local_port (endpoint (arc_at st2 endpoint')); st3 = arc_drop endpoint' st2 in
       unwrap (config_on b port) (\<lambda>config.
         case start (b_x b) config st3 of
           (r, st4) \<Rightarrow>
             unwrap_err r (\<lambda>(status, message). status = PortInUse \<and> contains message (nat_dec (unat port))) \<and>
             fst (remove first st4) = StatusOk)))"

definition sending_to_a_session_that_never_existed_is_unknown_handle :: "bench \<Rightarrow> process \<Rightarrow> bool" where
  "sending_to_a_session_that_never_existed_is_unknown_handle b st \<longleftrightarrow>
     started b st (\<lambda>handle st1.
     looked_up handle st1 (\<lambda>a st2.
       let ep = endpoint (arc_at st2 a) in
       (case send (b_x b) ep 999 ''x'' True (trace st2) of
          (r1, tr1) \<Rightarrow> r1 = Inl UnknownHandle \<and>
            (case send (b_x b) ep 999 ''x'' False tr1 of
               (r2, tr2) \<Rightarrow> r2 = Inl UnknownHandle \<and>
                 fst (remove handle (arc_drop a (st2\<lparr>trace := tr2\<rparr>))) = StatusOk))))"

definition writing_to_a_stream_that_is_gone_is_a_status_and_not_a_panic :: "bench \<Rightarrow> process \<Rightarrow> bool" where
  "writing_to_a_stream_that_is_gone_is_a_status_and_not_a_panic b st \<longleftrightarrow>
     started b st (\<lambda>handle st1.
     looked_up handle st1 (\<lambda>a st2.
       let ep = endpoint (arc_at st2 a) in
       (case stream_send (b_x b) ep 999 1 ''{}'' (trace st2) of
          (r1, tr1) \<Rightarrow> r1 = Inl UnknownHandle \<and>
            (case stream_close (b_x b) ep 999 1 tr1 of
               (r2, ep2, tr2) \<Rightarrow> r2 = Inl UnknownHandle \<and>
                 fst (remove handle (arc_drop a (set_endpoint a ep2 (st2\<lparr>trace := tr2\<rparr>)))) = StatusOk))))"

definition polling_an_idle_endpoint_returns_nothing_rather_than_blocking_forever :: "bench \<Rightarrow> process \<Rightarrow> bool" where
  "polling_an_idle_endpoint_returns_nothing_rather_than_blocking_forever b st \<longleftrightarrow>
     started b st (\<lambda>handle st1.
     looked_up handle st1 (\<lambda>a st2.
       case next_event (from_millis 50) None (endpoint (arc_at st2 a)) of
         (event, elapsed, ep) \<Rightarrow>
           event = None \<and> elapsed < 2 * 1000000000 \<and>
           fst (remove handle (arc_drop a (set_endpoint a ep st2))) = StatusOk))"

section \<open>They hold\<close>

lemma registered_count: "arcs_wf held st \<Longrightarrow> reg st h = Some a \<Longrightarrow> 1 \<le> live_count st"
  by (cases "guarded (registry st)") (simp_all add: live_count_def lock_registry reg_def)

lemma freed_test:
  assumes "bench_ok b" "ready st"
  shows "an_endpoint_starts_reports_its_port_and_is_really_freed_on_stop b st"
  unfolding an_endpoint_starts_reports_its_port_and_is_really_freed_on_stop_def
proof (rule started_serving [OF assms])
  fix h a port st1
  assume s: "serving st1 h a port"
  from removed_ok [OF given_back_untouched [OF s, of "trace st1"]] obtain st3 where
    r: "remove h (arc_drop a (arc_clone a st1)) = (StatusOk, st3)" "arcs_wf [] st3"
      "map_of (arcs st3) a = None" "reg st3 h = None"
    by auto
  have "1 \<le> live_count st1" using s registered_count unfolding serving_def by blast
  with r not_there(1) [OF r(2,4)] serving_look(2,3) [OF s]
  show "1 \<le> live_count st1 \<and> looked_up h st1 (\<lambda>endpoint' st2.
      local_port (endpoint (arc_at st2 endpoint')) \<noteq> 0 \<and>
      (case remove h (arc_drop endpoint' st2) of (status, st3) \<Rightarrow>
         status = StatusOk \<and> map_of (arcs st3) endpoint' = None \<and> fst (lookup h st3) = None))"
    by (simp add: looked_up_serving [OF s])
qed

lemma stop_tests:
  assumes "bench_ok b" "ready st"
  shows "stopping_twice_says_not_running_rather_than_failing b st"
    and "a_handle_that_was_never_issued_does_not_resolve st"
proof -
  show "stopping_twice_says_not_running_rather_than_failing b st"
    unfolding stopping_twice_says_not_running_rather_than_failing_def
  proof (rule started_serving [OF assms])
    fix h a port st1
    assume "serving st1 h a port"
    then obtain st2 where "remove h st1 = (StatusOk, st2)" "arcs_wf [] st2" "reg st2 h = None"
      using removed [of st1 h a] unfolding serving_def by blast
    with not_there(2) show "case remove h st1 of (status, st2) \<Rightarrow>
        status = StatusOk \<and> fst (remove h st2) = NotRunning" by simp
  qed
  show "a_handle_that_was_never_issued_does_not_resolve st"
    using assms(2) not_there [of st "- 1"]
    by (simp add: a_handle_that_was_never_issued_does_not_resolve_def ready_def)
qed

lemma idle_tests:
  assumes "bench_ok b" "ready st"
  shows "sending_to_a_session_that_never_existed_is_unknown_handle b st"
    and "writing_to_a_stream_that_is_gone_is_a_status_and_not_a_panic b st"
    and "polling_an_idle_endpoint_returns_nothing_rather_than_blocking_forever b st"
proof -
  have sess: "send x (endpoint (arc_at st1 a)) sid p rel tr = (Inl UnknownHandle, tr)"
    and strm: "stream_send x (endpoint (arc_at st1 a)) sid q p tr = (Inl UnknownHandle, tr)"
      "stream_close x (endpoint (arc_at st1 a)) sid q tr =
         (Inl UnknownHandle, endpoint (arc_at st1 a), tr)"
    if "serving st1 h a port" for x a h st1 port sid p rel tr q
    using unknown_session [OF serving_look(4) [OF that]] unknown_stream [OF serving_look(4) [OF that]]
      serving_look(5,6) [OF that]
    by (simp_all add: sess_of_def strm_of_def)
  show "sending_to_a_session_that_never_existed_is_unknown_handle b st"
    unfolding sending_to_a_session_that_never_existed_is_unknown_handle_def
    by (rule started_serving [OF assms])
      (simp add: looked_up_serving sess removed_status [OF given_back_untouched] Let_def)
  show "writing_to_a_stream_that_is_gone_is_a_status_and_not_a_panic b st"
    unfolding writing_to_a_stream_that_is_gone_is_a_status_and_not_a_panic_def
    by (rule started_serving [OF assms])
      (simp add: looked_up_serving strm removed_status [OF given_back] serving_look(4) Let_def)
  show "polling_an_idle_endpoint_returns_nothing_rather_than_blocking_forever b st"
    unfolding polling_an_idle_endpoint_returns_nothing_rather_than_blocking_forever_def
  proof (rule started_serving [OF assms])
    fix h a port st1
    assume s: "serving st1 h a port"
    have d: "from_millis 50 = 50000000" by (simp add: from_millis_def)
    have n: "next_event (from_millis 50) None (endpoint (arc_at st1 a)) = (None, from_millis 50, endpoint (arc_at st1 a))"
      using next_event_pending [OF serving_look(4) [OF s]] serving_look(7) [OF s] by simp
    from removed_status [OF given_back [OF s serving_look(4) [OF s], of "trace st1"]]
    have "fst (remove h (arc_drop a (set_endpoint a (endpoint (arc_at st1 a)) (arc_clone a st1)))) = StatusOk"
      by simp
    with n d show "looked_up h st1 (\<lambda>a st2.
        case next_event (from_millis 50) None (endpoint (arc_at st2 a)) of (event, elapsed, ep) \<Rightarrow>
          event = None \<and> elapsed < 2 * 1000000000 \<and>
          fst (remove h (arc_drop a (set_endpoint a ep st2))) = StatusOk)"
      by (simp add: looked_up_serving [OF s])
  qed
qed

lemma taken_test:
  assumes b: "bench_ok b" and "ready st"
  shows "a_port_already_taken_is_port_in_use_and_not_a_generic_failure b st"
proof -
  from config_on_parses [OF b, of 0] obtain cfg where cfg: "config_on b 0 = Inr cfg" by blast
  have "arcs_wf [] st" "ffi_wf st" "reg st (handle_counter st) = None"
    using assms(2) by (simp_all add: ready_def)
  from start_on_zero [OF b this cfg] obtain st1 port wc ep where
    s: "start (b_x b) cfg st = (Inr (handle_counter st), st1)"
    and v: "serving st1 (handle_counter st) (next_arc st) port"
    and tr: "trace st1 = (trace st @ [BuildRuntime]) @ [OpenServerEndpoint wc]"
      "x_server_endpoint (b_x b) (trace st @ [BuildRuntime]) wc = Inr ep"
      "x_local_port (b_x b) ((trace st @ [BuildRuntime]) @ [OpenServerEndpoint wc]) ep = Inr port"
    by fastforce
  let ?a = "next_arc st" and ?h = "handle_counter st"
  let ?st3 = "arc_drop ?a (arc_clone ?a st1)"
  from v have "0 < strong (arc_at st1 ?a)" using registered_healthy [of "[]" st1 ?h ?a] by (simp add: serving_def)
  then have "trace ?st3 = trace st1" by (simp add: trace_drop_shared)
  with tr(1) have tr3: "trace ?st3 = (trace st @ [BuildRuntime]) @ [OpenServerEndpoint wc]" by simp
  from config_on_parses [OF b, of port] obtain cfg2 where cfg2: "config_on b port = Inr cfg2" by blast
  from start_on_taken [OF b cfg2 tr3 tr(2,3)] obtain message st4 where
    s2: "start (b_x b) cfg2 ?st3 = (Inl (PortInUse, message), st4)" "contains message (nat_dec (unat port))"
    and same: "registry st4 = registry ?st3" "arcs st4 = arcs ?st3" "next_arc st4 = next_arc ?st3" by blast
  from given_back_untouched [OF v, of "trace st1"] have g: "arcs_wf [] ?st3" "reg ?st3 ?h = Some ?a" by simp_all
  from arcs_wf_frame [OF same] g same(1) have "arcs_wf [] st4 \<and> reg st4 ?h = Some ?a" by (simp add: reg_def)
  note rm = removed_status [OF this]
  show ?thesis
    unfolding a_port_already_taken_is_port_in_use_and_not_a_generic_failure_def
    using serving_look(2) [OF v] by (simp add: started_def cfg s looked_up_serving [OF v] cfg2 s2 rm Let_def)
qed

end
