(* ===== verification/RkFfiTests.thy ===== *)
theory RkFfiTests
  imports RkTransportTests
begin

text \<open>
  The unit tests of \<open>rust/src/server_ffi.rs\<close> as conditions on the model: the calls a C caller makes,
  with its variables as cells. The first variable of each type is cell 1, the second cell 2.
\<close>

section \<open>What the tests share\<close>

definition status_of :: "string \<Rightarrow> string option" where
  "status_of result = c_read result"

definition let_u64 :: "ptr \<Rightarrow> process \<Rightarrow> process" where
  "let_u64 p st = st\<lparr>cells_u64 := AList.update p 0 (cells_u64 st)\<rparr>"

definition let_u16 :: "ptr \<Rightarrow> process \<Rightarrow> process" where
  "let_u16 p st = st\<lparr>cells_u16 := AList.update p 0 (cells_u16 st)\<rparr>"

definition let_ptr :: "ptr \<Rightarrow> process \<Rightarrow> process" where
  "let_ptr p st = st\<lparr>cells_ptr := AList.update p 0 (cells_ptr st)\<rparr>"

definition valid_config :: "bench \<Rightarrow> u16 \<Rightarrow> string option" where
  "valid_config b port = Some (b_json b (valid_json (b_pem b) (local_text port)) @ [NUL])"

definition c_text :: "rstr \<Rightarrow> string option" where
  "c_text s = Some (s @ [NUL])"

text \<open>A start on port 0 into the first variable: the answer, the variable, the process.\<close>

definition booted :: "bench \<Rightarrow> thread \<Rightarrow> process \<Rightarrow> (string \<Rightarrow> u64 \<Rightarrow> process \<Rightarrow> bool) \<Rightarrow> bool" where
  "booted b t st check =
     (case rk_quic_server_start (b_x b) t (valid_config b 0) 1 (let_u64 1 st) of
        (status, st1) \<Rightarrow>
          (case map_of (cells_u64 st1) 1 of None \<Rightarrow> False | Some handle \<Rightarrow> check status handle st1))"

section \<open>The tests\<close>

definition a_null_config_is_invalid_argument_and_says_so where
  "a_null_config_is_invalid_argument_and_says_so b t st \<longleftrightarrow>
     (case rk_quic_server_start (b_x b) t None 0 st of
        (status, st1) \<Rightarrow> status_of status = Some ''invalidArgument'' \<and> fst (take_last_error t st1) \<noteq> None)"

definition json_that_is_not_the_expected_shape_is_invalid_argument where
  "json_that_is_not_the_expected_shape_is_invalid_argument b t st \<longleftrightarrow>
     (case rk_quic_server_start (b_x b) t (c_text (b_json b bare_members)) 1 (let_u64 1 st) of
        (status, st1) \<Rightarrow>
          status_of status = Some ''invalidArgument'' \<and> map_of (cells_u64 st1) 1 = Some 0)"

definition a_start_stop_round_trip_reports_a_real_port where
  "a_start_stop_round_trip_reports_a_real_port b t st \<longleftrightarrow>
     booted b t st (\<lambda>status handle st1.
       status_of status = Some ''ok'' \<and> handle \<noteq> 0 \<and>
       (case rk_quic_server_local_port t handle 1 (let_u16 1 st1) of
          (status, st2) \<Rightarrow>
            status_of status = Some ''ok'' \<and>
            (\<exists>port. map_of (cells_u16 st2) 1 = Some port \<and> port \<noteq> 0) \<and>
            (case rk_quic_server_stop t handle st2 of
               (status, st3) \<Rightarrow>
                 status_of status = Some ''ok'' \<and>
                 status_of (fst (rk_quic_server_stop t handle st3)) = Some ''notRunning'')))"

definition a_taken_port_is_reported_as_port_in_use_across_the_boundary where
  "a_taken_port_is_reported_as_port_in_use_across_the_boundary b t st \<longleftrightarrow>
     booted b t st (\<lambda>status first st1.
       status_of status = Some ''ok'' \<and>
       (case rk_quic_server_local_port t first 1 (let_u16 1 st1) of
          (_, st2) \<Rightarrow>
            (case map_of (cells_u16 st2) 1 of
               None \<Rightarrow> False
             | Some port \<Rightarrow>
                 (case rk_quic_server_start (b_x b) t (valid_config b port) 2 (let_u64 2 st2) of
                    (status, st3) \<Rightarrow>
                      status_of status = Some ''portInUse'' \<and> map_of (cells_u64 st3) 2 = Some 0 \<and>
                      (case take_last_error t st3 of
                         (None, _) \<Rightarrow> False
                       | (Some detail, st4) \<Rightarrow>
                           contains detail (nat_dec (unat port)) \<and>
                           status_of (fst (rk_quic_server_stop t first st4)) = Some ''ok'')))))"

definition polling_an_unknown_handle_is_a_value_and_allocates_nothing where
  "polling_an_unknown_handle_is_a_value_and_allocates_nothing b t st \<longleftrightarrow>
     (case rk_quic_server_poll (b_x b) t (- 1) 1 1 None (let_ptr 1 st) of
        (status, st1) \<Rightarrow> status_of status = Some ''unknownHandle'' \<and> map_of (cells_ptr st1) 1 = Some 0)"

definition an_idle_endpoint_polls_would_block_and_leaves_the_out_pointer_null where
  "an_idle_endpoint_polls_would_block_and_leaves_the_out_pointer_null b t st \<longleftrightarrow>
     booted b t st (\<lambda>_ handle st1.
       case rk_quic_server_poll (b_x b) t handle 20 1 None (let_ptr 1 st1) of
         (status, st2) \<Rightarrow>
           status_of status = Some ''wouldBlock'' \<and> map_of (cells_ptr st2) 1 = Some 0 \<and>
           status_of (fst (rk_quic_server_stop t handle st2)) = Some ''ok'')"

definition sending_on_a_stopped_endpoint_is_unknown_handle_not_a_crash where
  "sending_on_a_stopped_endpoint_is_unknown_handle_not_a_crash b t st \<longleftrightarrow>
     booted b t st (\<lambda>_ handle st1.
       case rk_quic_server_stop t handle st1 of
         (status, st2) \<Rightarrow>
           status_of status = Some ''ok'' \<and>
           status_of (fst (rk_quic_session_send (b_x b) t handle 1 (c_text ''anything'') 1 st2)) =
             Some ''unknownHandle'')"

definition the_abi_generation_moved_because_the_surface_grew :: bool where
  "the_abi_generation_moved_because_the_surface_grew \<longleftrightarrow> RK_QUIC_ABI_VERSION = 2"

definition writing_to_a_stream_on_an_unknown_handle_is_a_value_and_not_a_crash where
  "writing_to_a_stream_on_an_unknown_handle_is_a_value_and_not_a_crash b t st \<longleftrightarrow>
     (case rk_quic_stream_send (b_x b) t (- 1) 1 1 (c_text ''{}'') st of
        (status, st1) \<Rightarrow>
          status_of status = Some ''unknownHandle'' \<and>
          status_of (fst (rk_quic_stream_close (b_x b) t (- 1) 1 1 st1)) = Some ''unknownHandle'')"

definition a_stream_that_the_session_never_opened_is_unknown_handle where
  "a_stream_that_the_session_never_opened_is_unknown_handle b t st \<longleftrightarrow>
     booted b t st (\<lambda>_ handle st1.
       case rk_quic_stream_send (b_x b) t handle 7 3 (c_text ''{}'') st1 of
         (status, st2) \<Rightarrow>
           status_of status = Some ''unknownHandle'' \<and>
           status_of (fst (rk_quic_server_stop t handle st2)) = Some ''ok'')"

definition every_entry_point_survives_a_null_out_pointer where
  "every_entry_point_survives_a_null_out_pointer b t st \<longleftrightarrow>
     booted b t st (\<lambda>_ handle st1.
       case rk_quic_server_local_port t handle 0 st1 of (s1, st2) \<Rightarrow>
       (case rk_quic_server_poll (b_x b) t handle 1 0 None st2 of (s2, st3) \<Rightarrow>
       (case rk_quic_session_send (b_x b) t handle 1 None 1 st3 of (s3, st4) \<Rightarrow>
       (case rk_quic_stream_send (b_x b) t handle 1 1 None st4 of (s4, st5) \<Rightarrow>
          status_of s1 = Some ''ok'' \<and> status_of s2 = Some ''wouldBlock'' \<and>
          status_of s3 = Some ''invalidArgument'' \<and> status_of s4 = Some ''invalidArgument'' \<and>
          status_of (fst (rk_quic_server_stop t handle st5)) = Some ''ok''))))"

section \<open>One call on a server that is up\<close>

lemma status_of_name [simp]: "status_of (as_c_str s) = Some (plain_name s)"
  by (simp add: status_of_def c_read_status)

lemma names:
  "plain_name StatusOk = ''ok''" "plain_name InvalidArgument = ''invalidArgument''"
  "plain_name UnknownHandle = ''unknownHandle''" "plain_name PortInUse = ''portInUse''"
  "plain_name WouldBlock = ''wouldBlock''" "plain_name NotRunning = ''notRunning''"
  by (simp_all add: plain_name_def)

lemma borrow_text: "utf8_valid s \<Longrightarrow> NUL \<notin> set s \<Longrightarrow> borrow_c_string (c_text s) = Some s"
  using c_read_terminated [of s "[]"] by (simp add: borrow_c_string_def c_text_def)

definition up :: "process \<Rightarrow> u64 \<Rightarrow> nat \<Rightarrow> bool" where
  "up st h a \<longleftrightarrow> arcs_wf [] st \<and> reg st h = Some a"

lemma serving_up: "serving st h a port \<Longrightarrow> up st h a"
  by (simp add: serving_def up_def)

lemma serving_frame:
  "registry st' = registry st \<Longrightarrow> arcs st' = arcs st \<Longrightarrow> next_arc st' = next_arc st \<Longrightarrow>
     heap st' = heap st \<Longrightarrow> next_ptr st' = next_ptr st \<Longrightarrow> serving st' h a port = serving st h a port"
  using arcs_wf_frame [of st' st "[]"] ffi_frame_wf [of st' st]
  by (simp add: serving_def reg_def arc_at_def)

lemma serving_lets [simp]:
  "serving (let_u64 p st) h a port = serving st h a port" "serving (let_u16 p st) h a port = serving st h a port"
  "serving (let_ptr p st) h a port = serving st h a port"
  "serving (clear_last_error t st) h a port = serving st h a port"
  "serving (st\<lparr>cells_u64 := cells\<rparr>) h a port = serving st h a port"
  by (rule serving_frame; simp add: let_u64_def let_u16_def let_ptr_def)+

lemma up_lets [simp]:
  "up (let_ptr p st) h a = up st h a" "up (clear_last_error t st) h a = up st h a"
  "up (set_last_error t m st) h a = up st h a"
  by (simp_all add: up_def let_ptr_def)

lemma up_take_error [simp]: "up (snd (take_last_error t st)) h a = up st h a"
proof -
  have "registry (snd (take_last_error t st)) = registry st" "arcs (snd (take_last_error t st)) = arcs st"
    "next_arc (snd (take_last_error t st)) = next_arc st"
    by (simp_all add: take_last_error_def rk_quic_last_error_def into_owned_c_string_def Let_def
        split: option.splits prod.splits)
  with arcs_wf_frame [OF this, of "[]"] show ?thesis by (simp add: up_def reg_def)
qed

lemma stop_up:
  assumes "up st h a"
  shows "\<exists>st'. rk_quic_server_stop t h st = (as_c_str StatusOk, st') \<and> arcs_wf [] st' \<and> reg st' h = None"
proof -
  have "arcs_wf [] (clear_last_error t st)" "reg (clear_last_error t st) h = Some a"
    using assms by (simp_all add: up_def)
  from removed [OF this] show ?thesis by (auto simp: rk_quic_server_stop_def)
qed

lemma stop_gone: "arcs_wf [] st \<Longrightarrow> reg st h = None \<Longrightarrow> fst (rk_quic_server_stop t h st) = as_c_str NotRunning"
  using remove_gone [of "[]" "clear_last_error t st" h] by (simp add: rk_quic_server_stop_def)

lemma lookup_none: "arcs_wf [] st \<Longrightarrow> reg st h = None \<Longrightarrow> lookup h (clear_last_error t st) = (None, clear_last_error t st)"
  by (rule lookup_gone [of "[]"]) simp_all

lemma local_port_serving:
  assumes s: "serving st h a port"
  shows "\<exists>st'. rk_quic_server_local_port t h out st = (as_c_str StatusOk, st') \<and> serving st' h a port \<and>
    cells_u16 st' = write_out out port (cells_u16 st) \<and> cells_u64 st' = cells_u64 st \<and> trace st' = trace st"
proof -
  let ?st0 = "clear_last_error t st"
  let ?st1 = "(arc_clone a ?st0)\<lparr>cells_u16 := write_out out port (cells_u16 st)\<rparr>"
  have s0: "serving ?st0 h a port" using s by simp
  have at: "arc_at ?st1 a = arc_at (arc_clone a ?st0) a" by (simp add: arc_at_def)
  have pos: "0 < strong (arc_at st a)" using registered_healthy [of "[]" st h a] s by (simp add: serving_def)
  have call: "rk_quic_server_local_port t h out st = (as_c_str StatusOk, arc_drop a ?st1)"
    using serving_look(1) [OF s0] serving_look(2) [OF s] by (simp add: rk_quic_server_local_port_def)
  have "arcs_wf [] (arc_drop a ?st1)" using wf_local_port [of "[]" st t h out] s call by (simp add: serving_def)
  moreover have "endpoint (arc_at (arc_drop a ?st1) a) = endpoint (arc_at st a)"
    using pos by (simp add: arc_at_drop_shared at)
  moreover have "ffi_wf (arc_drop a ?st1)" using s by (simp add: serving_def)
  ultimately have "serving (arc_drop a ?st1) h a port" using s by (simp add: serving_def reg_def)
  moreover have "trace (arc_drop a ?st1) = trace st" using pos by (simp add: trace_drop_shared at)
  ultimately show ?thesis using call by auto
qed

lemma poll_serving:
  assumes s: "serving st h a port"
  shows "\<exists>st'. rk_quic_server_poll x t h ms out None st = (as_c_str WouldBlock, st') \<and> up st' h a \<and>
    cells_ptr st' = write_out out 0 (cells_ptr st)"
proof -
  let ?st1 = "(clear_last_error t st)\<lparr>cells_ptr := write_out out 0 (cells_ptr st)\<rparr>"
  have s1: "serving ?st1 h a port" using s by (subst serving_frame [of _ st]) simp_all
  have n: "next_event d None (endpoint (arc_at st a)) = (None, d, endpoint (arc_at st a))" for d
    using next_event_pending [OF serving_look(4) [OF s]] serving_look(7) [OF s] by simp
  have call: "rk_quic_server_poll x t h ms out None st =
      (as_c_str WouldBlock, arc_drop a (set_endpoint a (endpoint (arc_at st a)) (arc_clone a ?st1)))"
    using serving_look(1) [OF s1] n by (simp add: rk_quic_server_poll_def Let_def)
  have "arcs_wf [] (snd (rk_quic_server_poll x t h ms out None st))"
    using wf_poll s by (simp add: serving_def)
  with call s show ?thesis by (simp add: up_def serving_def reg_def)
qed

lemma stream_send_serving:
  assumes s: "serving st h a port" and p: "borrow_c_string payload = Some text"
  shows "\<exists>st'. rk_quic_stream_send x t h sid stream payload st = (as_c_str UnknownHandle, st') \<and> up st' h a"
proof -
  let ?st0 = "clear_last_error t st"
  have s0: "serving ?st0 h a port" using s by simp
  have none: "stream_send x (endpoint (arc_at st a)) sid stream text tr = (Inl UnknownHandle, tr)" for tr
    using unknown_stream(1) [OF serving_look(4) [OF s]] serving_look(6) [OF s] by (simp add: strm_of_def)
  have "rk_quic_stream_send x t h sid stream payload st =
      (as_c_str UnknownHandle, arc_drop a ((arc_clone a ?st0)\<lparr>trace := trace st\<rparr>))"
    using serving_look(1) [OF s0] p none by (simp add: rk_quic_stream_send_def answer_def)
  moreover have "arcs_wf [] (snd (rk_quic_stream_send x t h sid stream payload st))"
    using wf_stream_send s by (simp add: serving_def)
  ultimately show ?thesis using s by (simp add: up_def serving_def reg_def)
qed

section \<open>Starting through the boundary\<close>

lemma ready_let: "ready st \<Longrightarrow> ready (let_u64 p st)"
  by (simp add: ready_def let_u64_def reg_def)

lemma start_call:
  assumes b: "bench_ok b"
  shows "\<exists>cfg. config_on b port = Inr cfg \<and> rk_quic_server_start (b_x b) t (valid_config b port) out st =
    (case start (b_x b) cfg (clear_last_error t st) of
       (Inr handle, st1) \<Rightarrow> (as_c_str StatusOk, st1\<lparr>cells_u64 := write_out out handle (cells_u64 st1)\<rparr>)
     | (Inl (status, message), st1) \<Rightarrow> (as_c_str status, set_last_error t message st1))"
proof -
  let ?ms = "valid_json (b_pem b) (local_text port)"
  from b have j: "utf8_valid (b_json b ?ms)" "NUL \<notin> set (b_json b ?ms)"
    "x_server_config_from_str (b_x b) (b_json b ?ms) =
       (case ServerConfig_deserialize ?ms of Inl e \<Rightarrow> Inl (b_de_text b e) | Inr c \<Rightarrow> Inr c)"
    by (simp_all add: bench_ok_def json_ok_def)
  have "borrow_c_string (valid_config b port) = Some (b_json b ?ms)"
    using borrow_text [OF j(1,2)] by (simp add: valid_config_def c_text_def)
  moreover from config_on_parses [OF b, of port] obtain cfg where "config_on b port = Inr cfg" by blast
  ultimately show ?thesis
    using j(3)
    by (auto simp: rk_quic_server_start_def valid_json_read config_on_def [symmetric] Let_def
        split: prod.splits sum.splits intro!: exI [of _ cfg])
qed

lemma boot:
  assumes b: "bench_ok b" and r: "ready st"
  shows "\<exists>st1 port wc ep. rk_quic_server_start (b_x b) t (valid_config b 0) 1 (let_u64 1 st) = (as_c_str StatusOk, st1) \<and>
    map_of (cells_u64 st1) 1 = Some (handle_counter st) \<and> handle_counter st \<noteq> 0 \<and>
    serving st1 (handle_counter st) (next_arc st) port \<and>
    trace st1 = (trace st @ [BuildRuntime]) @ [OpenServerEndpoint wc] \<and>
    x_server_endpoint (b_x b) (trace st @ [BuildRuntime]) wc = Inr ep \<and>
    x_local_port (b_x b) ((trace st @ [BuildRuntime]) @ [OpenServerEndpoint wc]) ep = Inr port"
proof -
  let ?st0 = "clear_last_error t (let_u64 1 st)"
  have same: "handle_counter ?st0 = handle_counter st" "next_arc ?st0 = next_arc st" "trace ?st0 = trace st"
    by (simp_all add: let_u64_def)
  have r0: "arcs_wf [] ?st0" "ffi_wf ?st0" "reg ?st0 (handle_counter ?st0) = None"
    using ready_let [OF r, of 1] by (simp_all add: ready_def)
  from start_call [OF b, of 0 t 1 "let_u64 1 st"] obtain cfg where cfg: "config_on b 0 = Inr cfg"
    and call: "rk_quic_server_start (b_x b) t (valid_config b 0) 1 (let_u64 1 st) =
    (case start (b_x b) cfg ?st0 of
       (Inr handle, st1) \<Rightarrow> (as_c_str StatusOk, st1\<lparr>cells_u64 := write_out 1 handle (cells_u64 st1)\<rparr>)
     | (Inl (status, message), st1) \<Rightarrow> (as_c_str status, set_last_error t message st1))" by blast
  from start_on_zero [OF b r0 cfg] obtain st' port wc ep where
    s: "start (b_x b) cfg ?st0 = (Inr (handle_counter st), st')"
    "serving st' (handle_counter st) (next_arc st) port"
    "trace st' = (trace st @ [BuildRuntime]) @ [OpenServerEndpoint wc]"
    "x_server_endpoint (b_x b) (trace st @ [BuildRuntime]) wc = Inr ep"
    "x_local_port (b_x b) ((trace st @ [BuildRuntime]) @ [OpenServerEndpoint wc]) ep = Inr port"
    unfolding same by force
  have "handle_counter st \<noteq> 0" using r by (simp add: ready_def)
  with s call show ?thesis
    by (intro exI [of _ "st'\<lparr>cells_u64 := write_out 1 (handle_counter st) (cells_u64 st')\<rparr>"]
        exI [of _ port] exI [of _ wc] exI [of _ ep])
      (simp add: map_of_write_out)
qed

lemma booted_serving:
  assumes "bench_ok b" "ready st"
    and "\<And>h a port st1. h \<noteq> 0 \<Longrightarrow> serving st1 h a port \<Longrightarrow> check (as_c_str StatusOk) h st1"
  shows "booted b t st check"
  using boot [OF assms(1,2), of t] assms(3) by (auto simp: booted_def)

section \<open>They hold\<close>

lemma refused_starts:
  assumes b: "bench_ok b" and r: "ready st"
  shows "a_null_config_is_invalid_argument_and_says_so b t st"
    and "json_that_is_not_the_expected_shape_is_invalid_argument b t st"
proof -
  have "NUL \<notin> set msg_config_null" by (simp add: msg_config_null_def NUL_def char_of_def)
  moreover have "ffi_wf (clear_last_error t st)" using r by (simp add: ready_def)
  ultimately have "fst (take_last_error t (set_last_error t msg_config_null (clear_last_error t st))) = Some msg_config_null"
    using take_last_error_set by blast
  then show "a_null_config_is_invalid_argument_and_says_so b t st"
    by (simp add: a_null_config_is_invalid_argument_and_says_so_def rk_quic_server_start_def Let_def
        borrow_c_string_def names)
  from b have j: "utf8_valid (b_json b bare_members)" "NUL \<notin> set (b_json b bare_members)"
    "x_server_config_from_str (b_x b) (b_json b bare_members) =
       (case ServerConfig_deserialize bare_members of Inl e \<Rightarrow> Inl (b_de_text b e) | Inr c \<Rightarrow> Inr c)"
    by (simp_all add: bench_ok_def json_ok_def)
  have "ServerConfig_deserialize bare_members = Inl (MissingField ''certificateChainPem'')"
    by (simp add: ServerConfig_deserialize_def bare_members_def server_fields_eval string_field_def)
  with j show "json_that_is_not_the_expected_shape_is_invalid_argument b t st"
    by (simp add: json_that_is_not_the_expected_shape_is_invalid_argument_def rk_quic_server_start_def
        Let_def borrow_text names let_u64_def update_conv')
qed

lemma round_trip_test:
  assumes "bench_ok b" "ready st"
  shows "a_start_stop_round_trip_reports_a_real_port b t st"
  unfolding a_start_stop_round_trip_reports_a_real_port_def
proof (rule booted_serving [OF assms])
  fix h a port st1
  assume h: "h \<noteq> 0" and s: "serving st1 h a port"
  then have "serving (let_u16 1 st1) h a port" by simp
  from local_port_serving [OF this, of t 1] obtain st2 where p:
    "rk_quic_server_local_port t h 1 (let_u16 1 st1) = (as_c_str StatusOk, st2)" "serving st2 h a port"
    "cells_u16 st2 = write_out 1 port (cells_u16 (let_u16 1 st1))" by blast
  from stop_up [OF serving_up [OF p(2)], of t] obtain st3 where
    q: "rk_quic_server_stop t h st2 = (as_c_str StatusOk, st3)" "arcs_wf [] st3" "reg st3 h = None" by blast
  from p q stop_gone [OF q(2,3)] h serving_look(3) [OF s]
  show "status_of (as_c_str StatusOk) = Some ''ok'' \<and> h \<noteq> 0 \<and>
    (case rk_quic_server_local_port t h 1 (let_u16 1 st1) of
       (status, st2) \<Rightarrow>
         status_of status = Some ''ok'' \<and> (\<exists>port. map_of (cells_u16 st2) 1 = Some port \<and> port \<noteq> 0) \<and>
         (case rk_quic_server_stop t h st2 of
            (status, st3) \<Rightarrow> status_of status = Some ''ok'' \<and>
              status_of (fst (rk_quic_server_stop t h st3)) = Some ''notRunning''))"
    by (simp add: names map_of_write_out)
qed

lemma taken_port_test:
  assumes b: "bench_ok b" and r: "ready st"
  shows "a_taken_port_is_reported_as_port_in_use_across_the_boundary b t st"
proof -
  let ?h = "handle_counter st" and ?a = "next_arc st"
  from boot [OF assms, of t] obtain st1 port wc ep where
    s: "rk_quic_server_start (b_x b) t (valid_config b 0) 1 (let_u64 1 st) = (as_c_str StatusOk, st1)"
    "map_of (cells_u64 st1) 1 = Some ?h" and v: "serving st1 ?h ?a port"
    and tr: "trace st1 = (trace st @ [BuildRuntime]) @ [OpenServerEndpoint wc]"
    "x_server_endpoint (b_x b) (trace st @ [BuildRuntime]) wc = Inr ep"
    "x_local_port (b_x b) ((trace st @ [BuildRuntime]) @ [OpenServerEndpoint wc]) ep = Inr port" by blast
  have "serving (let_u16 1 st1) ?h ?a port" using v by simp
  from local_port_serving [OF this, of t 1] obtain st2 where p:
    "rk_quic_server_local_port t ?h 1 (let_u16 1 st1) = (as_c_str StatusOk, st2)" "serving st2 ?h ?a port"
    "cells_u16 st2 = write_out 1 port (cells_u16 (let_u16 1 st1))" "trace st2 = trace (let_u16 1 st1)" by blast
  let ?st2 = "clear_last_error t (let_u64 2 st2)"
  have tr2: "trace ?st2 = (trace st @ [BuildRuntime]) @ [OpenServerEndpoint wc]"
    using p(4) tr(1) by (simp add: let_u64_def let_u16_def)
  from start_call [OF b, of port t 2 "let_u64 2 st2"] obtain cfg where cfg: "config_on b port = Inr cfg"
    and call: "rk_quic_server_start (b_x b) t (valid_config b port) 2 (let_u64 2 st2) =
    (case start (b_x b) cfg ?st2 of
       (Inr handle, st1) \<Rightarrow> (as_c_str StatusOk, st1\<lparr>cells_u64 := write_out 2 handle (cells_u64 st1)\<rparr>)
     | (Inl (status, message), st1) \<Rightarrow> (as_c_str status, set_last_error t message st1))" by blast
  from start_on_taken [OF b cfg tr2 tr(2,3)] obtain message st3 where
    f: "start (b_x b) cfg ?st2 = (Inl (PortInUse, message), st3)" "contains message (nat_dec (unat port))"
    "NUL \<notin> set message" "registry st3 = registry ?st2" "arcs st3 = arcs ?st2" "next_arc st3 = next_arc ?st2" "core st3 = core ?st2" by blast
  let ?st3 = "set_last_error t message st3"
  have "ffi_wf ?st2" using p(2) by (simp add: serving_def let_u64_def)
  with f(7) have "ffi_wf st3" by (simp add: core_def ffi_wf_def)
  with take_last_error_set f(3) have d: "fst (take_last_error t ?st3) = Some message" by blast
  have "cells_u64 st3 = cells_u64 ?st2"
    using boundary_start [OF f(1)] by (simp add: ffi_state.truncate_def)
  then have z: "map_of (cells_u64 ?st3) 2 = Some 0" by (simp add: let_u64_def update_conv')
  have "up (let_u64 2 st2) ?h ?a" using serving_up [OF p(2)] by (simp add: up_def let_u64_def reg_def)
  then have "up st3 ?h ?a"
    using arcs_wf_frame [OF f(4,5,6)] by (simp add: up_def reg_def f(4))
  then have "up (snd (take_last_error t ?st3)) ?h ?a" by simp
  from stop_up [OF this, of t] have e: "fst (rk_quic_server_stop t ?h (snd (take_last_error t ?st3))) = as_c_str StatusOk"
    by auto
  obtain st4 where d4: "take_last_error t ?st3 = (Some message, st4)" using d by (metis prod.collapse)
  have port: "map_of (cells_u16 st2) 1 = Some port" using p(3) by (simp add: map_of_write_out)
  show ?thesis
    unfolding a_taken_port_is_reported_as_port_in_use_across_the_boundary_def booted_def
    using s p(1) port call f(1,2) z d4 e by (simp add: names)
qed

lemma idle_calls:
  assumes "bench_ok b" "ready st"
  shows "an_idle_endpoint_polls_would_block_and_leaves_the_out_pointer_null b t st"
    and "a_stream_that_the_session_never_opened_is_unknown_handle b t st"
    and "every_entry_point_survives_a_null_out_pointer b t st"
proof -
  have n: "borrow_c_string (c_text ''{}'') = Some ''{}''"
    by (rule borrow_text) (simp_all add: byte_def NUL_def char_of_def)
  show "an_idle_endpoint_polls_would_block_and_leaves_the_out_pointer_null b t st"
    unfolding an_idle_endpoint_polls_would_block_and_leaves_the_out_pointer_null_def
  proof (rule booted_serving [OF assms])
    fix h a port st1
    assume "serving st1 h a port"
    then have s: "serving (let_ptr 1 st1) h a port" by simp
    from poll_serving [OF s, of "b_x b" t 20 1] obtain st2 where p:
      "rk_quic_server_poll (b_x b) t h 20 1 None (let_ptr 1 st1) = (as_c_str WouldBlock, st2)" "up st2 h a"
      "cells_ptr st2 = write_out 1 0 (cells_ptr (let_ptr 1 st1))" by blast
    from stop_up [OF p(2), of t] p(1,3)
    show "case rk_quic_server_poll (b_x b) t h 20 1 None (let_ptr 1 st1) of
         (status, st2) \<Rightarrow>
           status_of status = Some ''wouldBlock'' \<and> map_of (cells_ptr st2) 1 = Some 0 \<and>
           status_of (fst (rk_quic_server_stop t h st2)) = Some ''ok''"
      by (auto simp: names map_of_write_out)
  qed
  show "a_stream_that_the_session_never_opened_is_unknown_handle b t st"
    unfolding a_stream_that_the_session_never_opened_is_unknown_handle_def
  proof (rule booted_serving [OF assms])
    fix h a port st1
    assume s: "serving st1 h a port"
    from stream_send_serving [OF s n, of "b_x b" t 7 3] obtain st2 where p:
      "rk_quic_stream_send (b_x b) t h 7 3 (c_text ''{}'') st1 = (as_c_str UnknownHandle, st2)" "up st2 h a" by blast
    from stop_up [OF p(2), of t] p(1)
    show "case rk_quic_stream_send (b_x b) t h 7 3 (c_text ''{}'') st1 of
         (status, st2) \<Rightarrow>
           status_of status = Some ''unknownHandle'' \<and>
           status_of (fst (rk_quic_server_stop t h st2)) = Some ''ok''"
      by (auto simp: names)
  qed
  show "every_entry_point_survives_a_null_out_pointer b t st"
    unfolding every_entry_point_survives_a_null_out_pointer_def
  proof (rule booted_serving [OF assms])
    fix h a port st1
    assume s: "serving st1 h a port"
    from local_port_serving [OF s, of t 0] obtain st2 where p:
      "rk_quic_server_local_port t h 0 st1 = (as_c_str StatusOk, st2)" "serving st2 h a port" by blast
    from poll_serving [OF p(2), of "b_x b" t 1 0] obtain st3 where q:
      "rk_quic_server_poll (b_x b) t h 1 0 None st2 = (as_c_str WouldBlock, st3)" "up st3 h a" by blast
    let ?st4 = "set_last_error t msg_payload_null (clear_last_error t st3)"
    let ?st5 = "set_last_error t msg_payload_null (clear_last_error t ?st4)"
    have "rk_quic_session_send (b_x b) t h 1 None 1 st3 = (as_c_str InvalidArgument, ?st4)"
      "rk_quic_stream_send (b_x b) t h 1 1 None ?st4 = (as_c_str InvalidArgument, ?st5)"
      by (simp_all add: rk_quic_session_send_def rk_quic_stream_send_def borrow_c_string_def Let_def)
    moreover have "up ?st5 h a" using q(2) by simp
    ultimately show "case rk_quic_server_local_port t h 0 st1 of (s1, st2) \<Rightarrow>
       (case rk_quic_server_poll (b_x b) t h 1 0 None st2 of (s2, st3) \<Rightarrow>
       (case rk_quic_session_send (b_x b) t h 1 None 1 st3 of (s3, st4) \<Rightarrow>
       (case rk_quic_stream_send (b_x b) t h 1 1 None st4 of (s4, st5) \<Rightarrow>
          status_of s1 = Some ''ok'' \<and> status_of s2 = Some ''wouldBlock'' \<and>
          status_of s3 = Some ''invalidArgument'' \<and> status_of s4 = Some ''invalidArgument'' \<and>
          status_of (fst (rk_quic_server_stop t h st5)) = Some ''ok'')))"
      using p(1) q(1) stop_up [of ?st5 h a t] by (auto simp: names)
  qed
qed

lemma unknown_handle_tests:
  assumes "bench_ok b" "ready st"
  shows "polling_an_unknown_handle_is_a_value_and_allocates_nothing b t st"
    and "writing_to_a_stream_on_an_unknown_handle_is_a_value_and_not_a_crash b t st"
    and "sending_on_a_stopped_endpoint_is_unknown_handle_not_a_crash b t st"
    and "the_abi_generation_moved_because_the_surface_grew"
proof -
  have wf: "arcs_wf [] st" and none: "reg st (- 1) = None" using assms(2) by (simp_all add: ready_def)
  have payloads: "borrow_c_string (c_text ''{}'') = Some ''{}''"
    "borrow_c_string (c_text ''anything'') = Some ''anything''"
    by (rule borrow_text; simp add: byte_def NUL_def char_of_def)+
  let ?p = "(clear_last_error t (let_ptr 1 st))\<lparr>cells_ptr := write_out 1 0 (cells_ptr (let_ptr 1 st))\<rparr>"
  have "arcs_wf [] ?p" "reg ?p (- 1) = None" using wf none by (simp_all add: let_ptr_def)
  from lookup_gone [OF this] show "polling_an_unknown_handle_is_a_value_and_allocates_nothing b t st"
    by (simp add: polling_an_unknown_handle_is_a_value_and_allocates_nothing_def rk_quic_server_poll_def
        Let_def names map_of_write_out)
  have wf0: "arcs_wf [] (clear_last_error t st)" and none0: "reg (clear_last_error t st) (- 1) = None"
    using wf none by simp_all
  from lookup_none [OF wf none] lookup_none [OF wf0 none0]
  show "writing_to_a_stream_on_an_unknown_handle_is_a_value_and_not_a_crash b t st"
    by (simp add: writing_to_a_stream_on_an_unknown_handle_is_a_value_and_not_a_crash_def
        rk_quic_stream_send_def rk_quic_stream_close_def payloads names Let_def)
  show "sending_on_a_stopped_endpoint_is_unknown_handle_not_a_crash b t st"
    unfolding sending_on_a_stopped_endpoint_is_unknown_handle_not_a_crash_def
  proof (rule booted_serving [OF assms])
    fix h a port st1
    assume "serving st1 h a port"
    from stop_up [OF serving_up [OF this], of t] obtain st2 where p:
      "rk_quic_server_stop t h st1 = (as_c_str StatusOk, st2)" "arcs_wf [] st2" "reg st2 h = None" by blast
    with lookup_none [OF p(2,3), of t]
    show "case rk_quic_server_stop t h st1 of
         (status, st2) \<Rightarrow>
           status_of status = Some ''ok'' \<and>
           status_of (fst (rk_quic_session_send (b_x b) t h 1 (c_text ''anything'') 1 st2)) = Some ''unknownHandle''"
      by (simp add: rk_quic_session_send_def payloads names Let_def)
  qed
  show "the_abi_generation_moved_because_the_surface_grew"
    by (simp add: the_abi_generation_moved_because_the_surface_grew_def RK_QUIC_ABI_VERSION_def)
qed

section \<open>All of them\<close>

definition endpoint_tests_pass where
  "endpoint_tests_pass b t st \<longleftrightarrow>
     (an_endpoint_starts_reports_its_port_and_is_really_freed_on_stop b st \<and>
      stopping_twice_says_not_running_rather_than_failing b st \<and>
      a_handle_that_was_never_issued_does_not_resolve st \<and>
      a_port_already_taken_is_port_in_use_and_not_a_generic_failure b st \<and>
      sending_to_a_session_that_never_existed_is_unknown_handle b st \<and>
      writing_to_a_stream_that_is_gone_is_a_status_and_not_a_panic b st \<and>
      polling_an_idle_endpoint_returns_nothing_rather_than_blocking_forever b st) \<and>
     (a_null_config_is_invalid_argument_and_says_so b t st \<and>
      json_that_is_not_the_expected_shape_is_invalid_argument b t st \<and>
      a_start_stop_round_trip_reports_a_real_port b t st \<and>
      a_taken_port_is_reported_as_port_in_use_across_the_boundary b t st \<and>
      polling_an_unknown_handle_is_a_value_and_allocates_nothing b t st \<and>
      an_idle_endpoint_polls_would_block_and_leaves_the_out_pointer_null b t st \<and>
      sending_on_a_stopped_endpoint_is_unknown_handle_not_a_crash b t st \<and>
      the_abi_generation_moved_because_the_surface_grew \<and>
      writing_to_a_stream_on_an_unknown_handle_is_a_value_and_not_a_crash b t st \<and>
      a_stream_that_the_session_never_opened_is_unknown_handle b t st \<and>
      every_entry_point_survives_a_null_out_pointer b t st)"


text \<open>A world to run them in: one port, and a JSON text that is the bind address.\<close>

definition demo_bench :: bench where
  "demo_bench =
     \<lparr>b_x = calm\<lparr>
        x_server_config_from_str := (\<lambda>text. if text = ''N'' then Inl ''missing field'' else
          Inr \<lparr>sc_bind_address = text, sc_certificate_chain_pem = ''C'', sc_private_key_pem = ''K'',
               sc_path = ''/rk'', sc_idle_timeout_ms = 30000\<rparr>),
        x_certs := demo_certs, x_private_key := demo_key,
        x_server_endpoint := (\<lambda>tr wc. if ws_bind wc = local_bind 0 then Inr (length tr)
          else Inl (AddrInUse, ''address in use''))\<rparr>,
      b_pem = (''C'', ''K''),
      b_json = (\<lambda>members. case members of [(_, JStr s), _, _] \<Rightarrow> s | _ \<Rightarrow> ''N''),
      b_de_text = (\<lambda>_. ''missing field'')\<rparr>"

lemma local_text_plain: "utf8_valid (local_text port)" "NUL \<notin> set (local_text port)" "local_text port \<noteq> ''N''"
proof -
  have "\<forall>c \<in> set (nat_dec n). solid c" for n
    using nat_dec_digits [of n] to_digit_solid by (fastforce simp: is_digit_def)
  then have "ascii (local_text port)"
    by (simp add: local_text_def) (simp add: ascii_def solid_def byte_def)
  then show "utf8_valid (local_text port)" by (rule ascii_utf8_valid)
  show "NUL \<notin> set (local_text port)"
    using NUL_not_in_number [of "unat port"] by (simp add: local_text_def) (simp add: NUL_def char_of_def)
  show "local_text port \<noteq> ''N''" by (simp add: local_text_def)
qed

lemma demo_bench_ok: "bench_ok demo_bench"
proof -
  have "json_ok demo_bench (valid_json (b_pem demo_bench) (local_text port))" for port
    unfolding json_ok_def valid_json_read
    using local_text_plain [of port] by (simp add: demo_bench_def valid_json_def)
  moreover have "json_ok demo_bench bare_members"
    by (simp add: json_ok_def demo_bench_def bare_members_def ServerConfig_deserialize_def
        server_fields_eval string_field_def) (simp add: byte_def NUL_def char_of_def)
  moreover have "NUL \<notin> set ''address in use''" by (simp add: NUL_def char_of_def)
  ultimately show ?thesis
    using demo_fixture
    by (simp add: bench_ok_def demo_bench_def calm_def local_bind_def)
qed


end
