(* ===== verification/RkDelivery.thy ===== *)
theory RkDelivery
  imports RkGuarantees
begin

text \<open>
  What the network hands the tasks of an endpoint against what its reader is told: every text that
  arrives is reported, once, unchanged, under the session and stream it arrived on, and in the order
  of arrival.
\<close>

section \<open>What arrives\<close>

text \<open>
  The event a task should make of what it is given: a datagram of the session it serves, a
  unidirectional stream read to its end, a bidirectional stream read to its end.
\<close>

fun taken :: "task \<Rightarrow> input \<Rightarrow> Event list" where
  "taken (Serve _ sid _) (InDatagram bytes) = [Datagram sid bytes]"
| "taken (ReadUni _ sid _) (InReadAll bytes) = [StreamMessage sid bytes]"
| "taken (ReadBi sid stream _) (InReadAll bytes) = [StreamData sid stream bytes]"
| "taken _ _ = []"

fun arrivals :: "external \<Rightarrow> bool \<Rightarrow> move list \<Rightarrow> node \<Rightarrow> Event list" where
  "arrivals x opens [] n = []"
| "arrivals x opens (m # ms) n =
     (case m of Run i inp \<Rightarrow> taken (tasks n ! i) inp | _ \<Rightarrow> []) @
     (case make_move x opens m n of None \<Rightarrow> [] | Some n' \<Rightarrow> arrivals x opens ms n')"

fun text_of :: "Event \<Rightarrow> rstr option" where
  "text_of (Datagram _ text) = Some text"
| "text_of (StreamMessage _ text) = Some text"
| "text_of (StreamData _ _ text) = Some text"
| "text_of _ = None"

definition carries :: "Event \<Rightarrow> bool" where
  "carries e \<longleftrightarrow> text_of e \<noteq> None"

text \<open>An arrival that is text; other bytes are dropped by the program.\<close>

definition textual :: "Event \<Rightarrow> bool" where
  "textual e \<longleftrightarrow> (case text_of e of None \<Rightarrow> False | Some text \<Rightarrow> utf8_valid text)"

lemma task_step_carries:
  "task_step f t inp r = Some (t', sp, r', evs) \<Longrightarrow> filter carries evs = filter textual (taken t inp)"
  by (cases t; cases inp) (auto simp: carries_def textual_def split: if_splits)

lemma make_move_carries:
  assumes "make_move x opens m n = Some n'"
  shows "filter carries (history n') = filter carries (history n) @
    filter textual (case m of Run i inp \<Rightarrow> taken (tasks n ! i) inp | _ \<Rightarrow> [])"
proof (cases m)
  case (Run i inp)
  with assms obtain t' sp n1 evs where
    step: "task_step (x_stream_id x) (tasks n ! i) inp n = Some (t', sp, n1, evs)"
    and n': "n' = settle i t' sp evs n1"
    by (auto split: if_splits option.splits)
  from task_step_carries [OF step] task_step_frame(2) [OF step] show ?thesis
    by (simp add: n' Run)
next
  case (OpenStream sid)
  with assms show ?thesis by (auto split: if_splits option.splits)
next
  case (OpenedStream sid s rcv)
  with assms show ?thesis by (auto split: if_splits option.splits)
qed (use assms in auto)

lemma make_moves_carries:
  "make_moves x opens ms n = Some n' \<Longrightarrow>
     filter carries (history n') = filter carries (history n) @ filter textual (arrivals x opens ms n)"
proof (induction ms arbitrary: n)
  case (Cons m ms)
  then obtain n1 where m: "make_move x opens m n = Some n1" and ms: "make_moves x opens ms n1 = Some n'"
    by (auto split: option.splits)
  from Cons.IH [OF ms] make_move_carries [OF m] m show ?case by simp
qed simp

text \<open>What was handed over and what waits, of the events that carry texts.\<close>

definition fresh_node :: "node \<Rightarrow> bool" where
  "fresh_node n \<longleftrightarrow> (\<exists>rt port path. n = server_node rt port path) \<or>
     (\<exists>rt port sid c url. n = client_node rt port sid c url)"

lemma fresh_facts:
  assumes "fresh_node n"
  shows "ep_wf (endpoint n)" "waiting n = history n" "filter carries (history n) = []" "length (history n) \<le> 1"
  using assms
  by (auto simp: fresh_node_def server_node_def client_node_def ep_wf_emit ep_wf_sessions carries_def)
    (simp_all add: waiting_def live_endpoint_def new_mutex_def sync_channel_def emit_on_def emit_def
      try_send_def lock_set_def EVENT_QUEUE_DEPTH_def)


definition demo_texts :: "move list" where
  "demo_texts = demo_accept @ [Run 1 (InDatagram ''now''), Run 1 InUniStream, Run 1 (InReadAll ''done''),
     Run 1 InUniStream, Run 1 (InReadAll [char_of (255::nat)])]"


end
