(* ===== verification/RkWire.thy ===== *)
theory RkWire
  imports RkDelivery RkOps "HOL-Library.Multiset"
begin

text \<open>
  The two ends together: one endpoint sends texts reliably on a session, the other runs its tasks.
  The network between them is not in the repository; what QUIC documents of its unidirectional
  streams is a hypothesis that relates the requests of one side to what the tasks of the other are
  given: a stream that is read to its end gives what was written to a stream before it was
  finished, and no stream is read twice.
\<close>

section \<open>The sending side\<close>

text \<open>Reliable sends in a row, each with the endpoint as it is then; what they answer.\<close>

fun send_all ::
  "external \<Rightarrow> u64 \<Rightarrow> (Endpoint \<times> rstr) list \<Rightarrow> action list \<Rightarrow> (Status + unit) list \<times> action list" where
  "send_all x sid [] tr = ([], tr)"
| "send_all x sid ((ep, text) # rest) tr =
     (case send x ep sid text True tr of
        (r, tr1) \<Rightarrow> (case send_all x sid rest tr1 of (rs, tr2) \<Rightarrow> (r # rs, tr2)))"

definition ok_texts :: "(Endpoint \<times> rstr) list \<Rightarrow> (Status + unit) list \<Rightarrow> rstr list" where
  "ok_texts script rs = map (snd \<circ> fst) (filter (\<lambda>(_, r). r = Inr ()) (zip script rs))"

text \<open>The texts of the unidirectional streams that were opened, written and finished on a connection.\<close>

fun uni_at :: "conn \<Rightarrow> action list \<Rightarrow> rstr list" where
  "uni_at c tr =
     (case tr of
        OpenUni c' # AwaitUni _ # WriteAll _ text # FinishStream _ # _ \<Rightarrow> if c' = c then [text] else []
      | _ \<Rightarrow> [])"

fun finished_texts :: "conn \<Rightarrow> action list \<Rightarrow> rstr list" where
  "finished_texts c [] = []"
| "finished_texts c (a # tr) = uni_at c (a # tr) @ finished_texts c tr"

lemma uni_at_other: "\<nexists>c'. a = OpenUni c' \<Longrightarrow> uni_at c (a # tr) = []"
  by (cases a) simp_all

lemma uni_at_stops: "uni_at c (a # tr @ OpenUni d # tr') = uni_at c (a # tr)"
proof (cases "\<exists>c'. a = OpenUni c'")
  case True
  then obtain c' where a: "a = OpenUni c'" ..
  consider "tr = []" | b where "tr = [b]" | b e where "tr = [b, e]" | b e f ts where "tr = b # e # f # ts"
    by (metis list.exhaust)
  then show ?thesis by cases (auto simp: a split: action.splits)
qed (simp add: uni_at_other del: uni_at.simps)

lemma finished_append:
  "finished_texts c (tr @ OpenUni d # tr') = finished_texts c tr @ finished_texts c (OpenUni d # tr')"
  by (induction tr) (simp_all add: uni_at_stops del: uni_at.simps)

lemma send_finishes:
  assumes "ep_wf ep" and "map_of (guarded (sessions ep)) sid \<in> {None, Some c}"
    and "send x ep sid text True tr = (r, tr')"
  shows "finished_texts c tr' = finished_texts c tr @ [text] \<or>
    r \<noteq> Inr () \<and> finished_texts c tr' = finished_texts c tr"
proof (cases "map_of (guarded (sessions ep)) sid")
  case None
  with send_to_unknown [OF assms(1)] assms(3) show ?thesis by fastforce
next
  case (Some c')
  with assms(2) have c: "map_of (guarded (sessions ep)) sid = Some c" by simp
  have parts: "finished_texts c (tr @ [OpenUni c]) = finished_texts c tr"
    "finished_texts c (tr @ [OpenUni c, AwaitUni o']) = finished_texts c tr"
    "finished_texts c (tr @ [OpenUni c, AwaitUni o', WriteAll s text]) = finished_texts c tr"
    "finished_texts c (tr @ [OpenUni c, AwaitUni o', WriteAll s text, FinishStream s]) =
       finished_texts c tr @ [text]" for o' s
    unfolding finished_append by simp_all
  from assms(1,3) c parts show ?thesis
    by (auto simp: send_def Let_def ep_wf_def split: option.splits sum.splits)
qed

lemma send_all_finishes:
  "list_all (\<lambda>(ep, _). ep_wf ep \<and> map_of (guarded (sessions ep)) sid \<in> {None, Some c}) script \<Longrightarrow>
     send_all x sid script tr = (rs, tr') \<Longrightarrow>
     \<exists>ds. finished_texts c tr' = finished_texts c tr @ ds \<and>
       mset ds \<subseteq># mset (map snd script) \<and> mset (ok_texts script rs) \<subseteq># mset ds"
proof (induction script arbitrary: tr rs)
  case Nil
  then show ?case by (simp add: ok_texts_def)
next
  case (Cons p script)
  obtain ep t where p: "p = (ep, t)" by fastforce
  obtain r tr1 where s: "send x ep sid t True tr = (r, tr1)" by fastforce
  obtain rs' where a: "send_all x sid script tr1 = (rs', tr')" and rs: "rs = r # rs'"
    using Cons.prems(2) s by (auto simp: p split: prod.splits)
  from Cons.prems have wf: "ep_wf ep"
    "map_of (guarded (sessions ep)) sid \<in> {None, Some c}" by (auto simp: p)
  from Cons.IH [OF _ a] Cons.prems(1) obtain ds where d: "finished_texts c tr' = finished_texts c tr1 @ ds"
    "mset ds \<subseteq># mset (map snd script)" "mset (ok_texts script rs') \<subseteq># mset ds" by auto
  have ok: "ok_texts (p # script) rs = (if r = Inr () then [t] else []) @ ok_texts script rs'"
    by (simp add: ok_texts_def rs p)
  from send_finishes [OF wf s] show ?case
  proof
    assume "finished_texts c tr1 = finished_texts c tr @ [t]"
    with d ok show ?case
      by (intro exI [of _ "t # ds"]) (auto simp: p rs intro: subset_mset.order_trans)
  next
    assume "r \<noteq> Inr () \<and> finished_texts c tr1 = finished_texts c tr"
    with d ok show ?case
      by (intro exI [of _ ds]) (auto simp: p rs intro: subset_mset.order_trans)
  qed
qed

section \<open>The receiving side\<close>

definition messages :: "u64 \<Rightarrow> Event list \<Rightarrow> rstr list" where
  "messages sid evs =
     concat (map (\<lambda>e. case e of StreamMessage s text \<Rightarrow> if s = sid then [text] else [] | _ \<Rightarrow> []) evs)"

lemma messages_Cons:
  "messages sid (e # evs) =
     (case e of StreamMessage s text \<Rightarrow> if s = sid then [text] else [] | _ \<Rightarrow> []) @ messages sid evs"
  by (simp add: messages_def)

lemma messages_carries: "messages sid (filter carries evs) = messages sid evs"
proof (induction evs)
  case (Cons e evs)
  then show ?case by (cases e) (simp_all add: messages_Cons carries_def)
qed (simp add: messages_def)

lemma messages_textual: "messages sid (filter textual evs) = filter utf8_valid (messages sid evs)"
proof (induction evs)
  case (Cons e evs)
  then show ?case by (cases e) (simp_all add: messages_Cons textual_def)
qed (simp add: messages_def)

section \<open>End to end\<close>

text \<open>
  C6: A text sent reliably arrives: whatever the two endpoints are, if the streams that the second
  reads to their end on a session are streams the first finished on its connection, then the
  messages reported for that session are among the texts sent, none invented, altered or doubled;
  if every finished stream was read, every text whose sending was answered with \<open>ok\<close> is reported,
  as often as it was sent; and the reader gets all that are reported while no more than 1024 events
  were emitted.
\<close>

theorem sent_texts_arrive:
  assumes "list_all (\<lambda>(ep, text). ep_wf ep \<and> map_of (guarded (sessions ep)) sid \<in> {None, Some c} \<and>
      utf8_valid text) script"
    and "finished_texts c tr0 = []" and "send_all x sid script tr0 = (rs, tr)"
    and "fresh_node n0" and "make_moves y opens ms n0 = Some n"
    and "mset (messages sid' (arrivals y opens ms n0)) \<subseteq># mset (finished_texts c tr)"
  shows "mset (messages sid' (history n)) \<subseteq># mset (map snd script) \<and>
    (mset (messages sid' (arrivals y opens ms n0)) = mset (finished_texts c tr) \<longrightarrow>
       mset (ok_texts script rs) \<subseteq># mset (messages sid' (history n))) \<and>
    (length (history n) \<le> 1024 \<longrightarrow>
       messages sid' (reads y opens ms n0 @ waiting n) = messages sid' (history n))"
proof -
  let ?in = "messages sid' (arrivals y opens ms n0)"
  have "list_all (\<lambda>(ep, _). ep_wf ep \<and> map_of (guarded (sessions ep)) sid \<in> {None, Some c}) script"
    using assms(1) by (auto simp: list_all_iff)
  from send_all_finishes [OF this assms(3)] assms(2)
  have out: "mset (finished_texts c tr) \<subseteq># mset (map snd script)"
    "mset (ok_texts script rs) \<subseteq># mset (finished_texts c tr)" by auto
  have "set ?in \<subseteq> set (map snd script)"
    using subset_mset.order_trans [OF assms(6) out(1)] by (metis mset_subset_eqD set_mset_mset subsetI)
  moreover have "\<forall>p \<in> set script. utf8_valid (snd p)" using assms(1) by (auto simp: list_all_iff)
  ultimately have "\<forall>text \<in> set ?in. utf8_valid text" by fastforce
  then have valid: "filter utf8_valid ?in = ?in" by (simp add: filter_id_conv)
  note facts = fresh_facts [OF assms(4)]
  have "filter carries (history n) = filter textual (arrivals y opens ms n0)"
    using make_moves_carries [OF assms(5)] facts(3) by simp
  then have told: "messages sid' (history n) = ?in"
    using messages_carries messages_textual valid by metis
  have "length (history n) \<le> 1024 \<longrightarrow> reads y opens ms n0 @ waiting n = history n"
    using make_moves_queue [OF facts(1) assms(5)] facts(2) by auto
  with told out assms(6) show ?thesis by (auto intro: subset_mset.order_trans)
qed

definition demo_sender :: Endpoint where
  "demo_sender = live_endpoint 0 4433\<lparr>sessions := new_mutex [(5, 7)]\<rparr>"

lemma demo_sender_facts: "ep_wf demo_sender" "map_of (guarded (sessions demo_sender)) 5 = Some 7"
  "send_all calm 5 [(demo_sender, ''done'')] [] =
     ([Inr ()], [OpenUni 7, AwaitUni 0, WriteAll 1 ''done'', FinishStream 1])"
  by (simp_all add: demo_sender_def ep_wf_def live_endpoint_def sync_channel_def channel_live_def
      new_mutex_def send_def calm_def Let_def)

definition demo_message :: "move list" where
  "demo_message = demo_accept @ [Run 1 InUniStream, Run 1 (InReadAll ''done'')]"

theorem sent_texts_arrive_witness:
  "\<exists>n. make_moves calm False demo_message demo_start = Some n \<and>
     messages 1 (reads calm False demo_message demo_start @ waiting n) = [''done'']"
proof -
  have "\<exists>n. make_moves calm False demo_message demo_start = Some n \<and> length (history n) \<le> 1024"
    by (simp add: demo_message_def node_eval)
  then obtain n where n: "make_moves calm False demo_message demo_start = Some n" "length (history n) \<le> 1024"
    by blast
  have fr: "fresh_node demo_start" by (auto simp: fresh_node_def demo_start_def)
  have a: "messages 1 (arrivals calm False demo_message demo_start) = [''done'']"
    by (simp add: demo_message_def node_eval messages_def)
  have "utf8_valid ''done''" by code_simp
  then have l: "list_all (\<lambda>(ep, text). ep_wf ep \<and> map_of (guarded (sessions ep)) 5 \<in> {None, Some 7} \<and>
      utf8_valid text) [(demo_sender, ''done'')]"
    using demo_sender_facts(1,2) by simp
  have f: "finished_texts 7 [] = []" by simp
  have c: "mset (messages 1 (arrivals calm False demo_message demo_start)) =
      mset (finished_texts 7 [OpenUni 7, AwaitUni 0, WriteAll 1 ''done'', FinishStream 1])"
    unfolding a by simp
  note arrive = sent_texts_arrive [OF l f demo_sender_facts(3) fr n(1) subset_mset.eq_refl [OF c]]
  from arrive c have "{#''done''#} \<subseteq># mset (messages 1 (history n))" by (simp add: ok_texts_def)
  moreover from arrive have "mset (messages 1 (history n)) \<subseteq># {#''done''#}" by simp
  ultimately have "mset (messages 1 (history n)) = {#''done''#}" by (rule subset_mset.antisym [rotated])
  then have "messages 1 (history n) = [''done'']" by simp
  with arrive n show ?thesis by simp
qed

end
