(* ===== verification/RkFrames.thy ===== *)
theory RkFrames
  imports RkOps
begin

text \<open>
  Several threads write to the streams of one endpoint at once. \<open>stream_send\<close> and \<open>stream_close\<close>
  (\<open>rust/src/transport.rs\<close>) cut where another thread may run: the table is locked only to look the
  stream up, then the call waits for the lock of the stream, and \<open>write_all\<close> hands the network as
  many bytes at a time as it takes. \<open>RkTransport\<close> has the same calls in one step each.
\<close>

section \<open>Calls in progress\<close>

datatype writer =
    SendCall u64 u64 rstr
  | SendWaits sendstream rstr
  | SendWrites sendstream rstr nat
  | CloseCall u64 u64
  | CloseWaits sendstream
  | CloseFinishes sendstream
  | Answered "Status + unit"

text \<open>
  The endpoint, the calls, and which call holds the lock of a stream; and what can be observed: the
  bytes the network took on a stream, the calls that got the lock of a stream to write, in order,
  and how many bytes each call wrote.
\<close>

record writing =
  shared :: Endpoint
  writers :: "writer list"
  holder :: "sendstream \<Rightarrow> nat option"
  on_wire :: "sendstream \<Rightarrow> string"
  turns :: "sendstream \<Rightarrow> nat list"
  wrote :: "nat \<Rightarrow> nat"

datatype net_answer = Goes | Takes nat | Fails

definition set_writer :: "nat \<Rightarrow> writer \<Rightarrow> writing \<Rightarrow> writing" where
  "set_writer i w st = st\<lparr>writers := (writers st)[i := w]\<rparr>"

definition acquire :: "nat \<Rightarrow> sendstream \<Rightarrow> writing \<Rightarrow> writing" where
  "acquire i s st = st\<lparr>holder := (holder st)(s := Some i)\<rparr>"

definition release :: "sendstream \<Rightarrow> writing \<Rightarrow> writing" where
  "release s st = st\<lparr>holder := (holder st)(s := None)\<rparr>"

text \<open>
  The move of call \<open>i\<close>: the lookup, the lock of the stream, a piece of the payload, the end. \<open>None\<close>
  where it cannot move: it has answered, the lock is taken, or the network cannot answer so.
\<close>

definition writer_step :: "nat \<Rightarrow> net_answer \<Rightarrow> writing \<Rightarrow> writing option" where
  "writer_step i net st =
     (case writers st ! i of
        SendCall session_id stream_id payload \<Rightarrow>
          (case lock_get (streams (shared st)) of
             None \<Rightarrow> Some (set_writer i (Answered (Inl Panic)) st)
           | Some m \<Rightarrow>
               (case map_of m (session_id, stream_id) of
                  None \<Rightarrow> Some (set_writer i (Answered (Inl UnknownHandle)) st)
                | Some s \<Rightarrow>
                    (case runtime (shared st) of
                       None \<Rightarrow> Some (set_writer i (Answered (Inl NotRunning)) st)
                     | Some _ \<Rightarrow> Some (set_writer i (SendWaits s payload) st))))
      | SendWaits s payload \<Rightarrow>
          if holder st s \<noteq> None then None
          else Some (acquire i s (set_writer i (SendWrites s payload 0)
            (st\<lparr>turns := (turns st)(s := turns st s @ [i])\<rparr>)))
      | SendWrites s payload k \<Rightarrow>
          (case net of
             Goes \<Rightarrow>
               if k = length payload then Some (release s (set_writer i (Answered (Inr ())) st)) else None
           | Takes d \<Rightarrow>
               if 0 < d \<and> k + d \<le> length payload then
                 Some (set_writer i (SendWrites s payload (k + d))
                   (st\<lparr>on_wire := (on_wire st)(s := on_wire st s @ take d (drop k payload)),
                       wrote := (wrote st)(i := k + d)\<rparr>))
               else None
           | Fails \<Rightarrow> Some (release s (set_writer i (Answered (Inl PeerGone)) st)))
      | CloseCall session_id stream_id \<Rightarrow>
          (case lock_get (streams (shared st)) of
             None \<Rightarrow> Some (set_writer i (Answered (Inl Panic)) st)
           | Some m \<Rightarrow>
               let st1 = st\<lparr>shared := (shared st)\<lparr>streams :=
                 lock_set (AList.delete (session_id, stream_id) m) (streams (shared st))\<rparr>\<rparr> in
               (case map_of m (session_id, stream_id) of
                  None \<Rightarrow> Some (set_writer i (Answered (Inl UnknownHandle)) st1)
                | Some s \<Rightarrow>
                    (case runtime (shared st) of
                       None \<Rightarrow> Some (set_writer i (Answered (Inl NotRunning)) st1)
                     | Some _ \<Rightarrow> Some (set_writer i (CloseWaits s) st1))))
      | CloseWaits s \<Rightarrow>
          if holder st s \<noteq> None then None
          else Some (acquire i s (set_writer i (CloseFinishes s) st))
      | CloseFinishes s \<Rightarrow>
          (case net of
             Goes \<Rightarrow> Some (release s (set_writer i (Answered (Inr ())) st))
           | Fails \<Rightarrow> Some (release s (set_writer i (Answered (Inl PeerGone)) st))
           | Takes _ \<Rightarrow> None)
      | Answered _ \<Rightarrow> None)"

fun is_call :: "writer \<Rightarrow> bool" where
  "is_call (SendCall _ _ _) = True"
| "is_call (CloseCall _ _) = True"
| "is_call _ = False"

text \<open>The calls as they were made; each may begin at any time.\<close>

definition calls_made :: "Endpoint \<Rightarrow> writer list \<Rightarrow> writing" where
  "calls_made ep calls =
     \<lparr>shared = ep, writers = calls, holder = (\<lambda>_. None), on_wire = (\<lambda>_. []), turns = (\<lambda>_. []),
      wrote = (\<lambda>_. 0)\<rparr>"

text \<open>
  A run: a call moves, or the tasks of the endpoint change it (a stream is entered in the table, the
  streams of a session are pruned, an event is queued), which is any change at all here.
\<close>

datatype write_move = Move nat net_answer | Elsewhere Endpoint

fun move_writers :: "write_move \<Rightarrow> writing \<Rightarrow> writing option" where
  "move_writers (Move i net) st = (if i < length (writers st) then writer_step i net st else None)"
| "move_writers (Elsewhere ep) st = Some (st\<lparr>shared := ep\<rparr>)"

fun run_writers :: "write_move list \<Rightarrow> writing \<Rightarrow> writing option" where
  "run_writers [] st = Some st"
| "run_writers (m # ms) st = (case move_writers m st of None \<Rightarrow> None | Some st' \<Rightarrow> run_writers ms st')"

section \<open>The invariant\<close>

fun payload_of :: "writer \<Rightarrow> rstr option" where
  "payload_of (SendCall _ _ payload) = Some payload"
| "payload_of _ = None"

text \<open>What holds of one call, given what it was asked (\<open>c\<close>).\<close>

fun call_ok :: "writing \<Rightarrow> nat \<Rightarrow> writer \<Rightarrow> writer \<Rightarrow> bool" where
  "call_ok st i c (SendCall sid q payload) \<longleftrightarrow>
     payload_of c = Some payload \<and> wrote st i = 0 \<and> (\<forall>s. i \<notin> set (turns st s))"
| "call_ok st i c (SendWaits s payload) \<longleftrightarrow>
     payload_of c = Some payload \<and> wrote st i = 0 \<and> (\<forall>s. i \<notin> set (turns st s))"
| "call_ok st i c (SendWrites s payload k) \<longleftrightarrow>
     payload_of c = Some payload \<and> wrote st i = k \<and> k \<le> length payload \<and> holder st s = Some i \<and>
     (\<exists>before. turns st s = before @ [i]) \<and> (\<forall>s'. i \<in> set (turns st s') \<longrightarrow> s' = s)"
| "call_ok st i c (CloseCall sid q) \<longleftrightarrow> payload_of c = None"
| "call_ok st i c (CloseWaits s) \<longleftrightarrow> payload_of c = None"
| "call_ok st i c (CloseFinishes s) \<longleftrightarrow> payload_of c = None \<and> holder st s = Some i"
| "call_ok st i c (Answered r) \<longleftrightarrow>
     (\<forall>payload. payload_of c = Some payload \<longrightarrow> wrote st i \<le> length payload \<and>
        (r = Inr () \<longrightarrow> wrote st i = length payload \<and> (\<exists>s. i \<in> set (turns st s))))"

fun holds :: "sendstream \<Rightarrow> writer \<Rightarrow> bool" where
  "holds s (SendWrites s' _ _) \<longleftrightarrow> s' = s"
| "holds s (CloseFinishes s') \<longleftrightarrow> s' = s"
| "holds s _ \<longleftrightarrow> False"

text \<open>What call \<open>i\<close> put on the wire.\<close>

definition piece :: "writer list \<Rightarrow> writing \<Rightarrow> nat \<Rightarrow> string" where
  "piece calls st i = take (wrote st i) (case payload_of (calls ! i) of None \<Rightarrow> [] | Some p \<Rightarrow> p)"

definition frames_inv :: "writer list \<Rightarrow> writing \<Rightarrow> bool" where
  "frames_inv calls st \<longleftrightarrow>
     length (writers st) = length calls \<and>
     (\<forall>i < length calls. call_ok st i (calls ! i) (writers st ! i)) \<and>
     (\<forall>s i. holder st s = Some i \<longrightarrow> i < length calls \<and> holds s (writers st ! i)) \<and>
     (\<forall>s. on_wire st s = concat (map (piece calls st) (turns st s)) \<and> distinct (turns st s) \<and>
        (\<forall>i \<in> set (turns st s). i < length calls \<and> payload_of (calls ! i) \<noteq> None \<and>
           ((\<exists>r. writers st ! i = Answered r) \<or> (\<exists>p k. writers st ! i = SendWrites s p k))))"

lemmas writing_simps = set_writer_def acquire_def release_def

lemma frames_length: "frames_inv calls st \<Longrightarrow> length (writers st) = length calls"
  by (simp add: frames_inv_def)

lemma frames_call: "frames_inv calls st \<Longrightarrow> i < length calls \<Longrightarrow> call_ok st i (calls ! i) (writers st ! i)"
  by (simp add: frames_inv_def)

lemma frames_holder:
  "frames_inv calls st \<Longrightarrow> holder st s = Some i \<Longrightarrow> i < length calls \<and> holds s (writers st ! i)"
  by (simp add: frames_inv_def)

lemma frames_turns:
  assumes "frames_inv calls st"
  shows "on_wire st s = concat (map (piece calls st) (turns st s))" "distinct (turns st s)"
    and "i \<in> set (turns st s) \<Longrightarrow> i < length calls \<and> payload_of (calls ! i) \<noteq> None \<and>
      ((\<exists>r. writers st ! i = Answered r) \<or> (\<exists>p k. writers st ! i = SendWrites s p k))"
  using assms by (auto simp: frames_inv_def)

lemma frames_start: "list_all is_call calls \<Longrightarrow> frames_inv calls (calls_made ep calls)"
proof -
  assume c: "list_all is_call calls"
  have "call_ok (calls_made ep calls) i (calls ! i) (calls ! i)" if "i < length calls" for i
    using c that by (cases "calls ! i") (auto simp: calls_made_def list_all_length)
  then show ?thesis by (simp add: frames_inv_def) (simp add: calls_made_def)
qed

text \<open>
  Call \<open>i\<close> moves to \<open>w\<close>: what the other calls see stays, so only what the step does to \<open>i\<close> and to
  the streams has to be looked at.
\<close>

lemma call_ok_other:
  assumes "call_ok st j c w" "wrote st' j = wrote st j"
    and "\<And>s. holder st s = Some j \<Longrightarrow> holder st' s = Some j \<and> turns st' s = turns st s"
    and "\<And>s. j \<in> set (turns st' s) \<longleftrightarrow> j \<in> set (turns st s)"
  shows "call_ok st' j c w"
  using assms by (cases w) auto

lemma frames_moves:
  assumes inv: "frames_inv calls st" and i: "i < length calls"
    and st': "writers st' = (writers st)[i := w]" "\<And>j. j \<noteq> i \<Longrightarrow> wrote st' j = wrote st j"
    and locks: "\<And>s j. j \<noteq> i \<Longrightarrow> holder st' s = Some j \<longleftrightarrow> holder st s = Some j"
      "\<And>s. holder st' s = Some i \<Longrightarrow> holds s w"
    and ts: "\<And>s. turns st' s = turns st s \<or> holder st s = None \<and> turns st' s = turns st s @ [i] \<and> i \<notin> set (turns st s)"
    and ok: "call_ok st' i (calls ! i) w"
    and mine: "\<And>s. i \<in> set (turns st' s) \<Longrightarrow>
      payload_of (calls ! i) \<noteq> None \<and> ((\<exists>r. w = Answered r) \<or> (\<exists>p k. w = SendWrites s p k))"
    and wire: "\<And>s. on_wire st' s = concat (map (piece calls st') (turns st' s))"
  shows "frames_inv calls st'"
proof -
  note len = frames_length [OF inv]
  have other: "call_ok st' j (calls ! j) (writers st' ! j)" if "j < length calls" for j
  proof (cases "j = i")
    case False
    have "call_ok st' j (calls ! j) (writers st ! j)"
    proof (rule call_ok_other [OF frames_call [OF inv that] st'(2) [OF False]])
      fix s
      show "holder st' s = Some j \<and> turns st' s = turns st s" if "holder st s = Some j"
        using that locks(1) [OF False] ts [of s] by auto
      show "j \<in> set (turns st' s) \<longleftrightarrow> j \<in> set (turns st s)" using ts [of s] False by auto
    qed
    with False st'(1) show ?thesis by simp
  qed (use ok st'(1) i len in simp)
  have held: "j < length calls \<and> holds s (writers st' ! j)" if "holder st' s = Some j" for s j
    using that locks frames_holder [OF inv, of s j] st'(1) i len by (cases "j = i") auto
  have turn: "j < length calls \<and> payload_of (calls ! j) \<noteq> None \<and>
      ((\<exists>r. writers st' ! j = Answered r) \<or> (\<exists>p k. writers st' ! j = SendWrites s p k))"
    if "j \<in> set (turns st' s)" for s j
  proof (cases "j = i")
    case True
    with mine that i st'(1) len show ?thesis by auto
  next
    case False
    with that ts [of s] have "j \<in> set (turns st s)" by auto
    from frames_turns(3) [OF inv this] False st'(1) show ?thesis by auto
  qed
  have "distinct (turns st' s)" for s using ts [of s] frames_turns(2) [OF inv, of s] by auto
  with other held turn wire len st'(1) show ?thesis unfolding frames_inv_def by simp
qed

lemma not_holding:
  "frames_inv calls st \<Longrightarrow> (\<And>s. \<not> holds s (writers st ! i)) \<Longrightarrow> holder st s \<noteq> Some i"
  using frames_holder by blast

lemma piece_same: "wrote st' = wrote st \<Longrightarrow> piece calls st' = piece calls st"
  by (simp add: piece_def fun_eq_iff)

text \<open>A step that only changes the call itself and the endpoint.\<close>

lemma frames_self:
  assumes inv: "frames_inv calls st" and i: "i < length calls"
    and "\<And>s. \<not> holds s (writers st ! i)" and "\<And>s. i \<notin> set (turns st s)" and "call_ok st i (calls ! i) w"
  shows "frames_inv calls (set_writer i w (st\<lparr>shared := ep\<rparr>))"
proof (rule frames_moves [OF inv i])
  let ?st = "set_writer i w (st\<lparr>shared := ep\<rparr>)"
  have same: "holder ?st = holder st" "turns ?st = turns st" "wrote ?st = wrote st" "on_wire ?st = on_wire st"
    by (simp_all add: set_writer_def)
  show "writers ?st = (writers st)[i := w]" by (simp add: set_writer_def)
  show "call_ok ?st i (calls ! i) w" using assms(5) by (cases w) (simp_all add: set_writer_def)
  show "on_wire ?st s = concat (map (piece calls ?st) (turns ?st s))" for s
    using frames_turns(1) [OF inv] by (simp add: same piece_same [OF same(3)])
  show "holder ?st s = Some i \<Longrightarrow> holds s w" for s
    using not_holding [OF inv assms(3)] by (simp add: same)
qed (use assms(4) in \<open>simp_all add: set_writer_def\<close>)

text \<open>A step that ends a call which holds the lock of \<open>s\<close>.\<close>

lemma frames_release:
  assumes inv: "frames_inv calls st" and i: "i < length calls" and h: "holds s (writers st ! i)"
    and ok: "call_ok st i (calls ! i) (Answered r)"
  shows "frames_inv calls (release s (set_writer i (Answered r) st))"
proof (rule frames_moves [OF inv i])
  let ?st = "release s (set_writer i (Answered r) st)"
  have same: "turns ?st = turns st" "wrote ?st = wrote st" "on_wire ?st = on_wire st"
    by (simp_all add: writing_simps)
  have mine: "holder st s = Some i"
    using frames_call [OF inv i] h by (cases "writers st ! i") auto
  show "writers ?st = (writers st)[i := Answered r]" by (simp add: writing_simps)
  show "call_ok ?st i (calls ! i) (Answered r)" using ok by (simp add: writing_simps)
  show "on_wire ?st t = concat (map (piece calls ?st) (turns ?st t))" for t
    using frames_turns(1) [OF inv] by (simp add: same piece_same [OF same(2)])
  show "holder ?st t = Some j \<longleftrightarrow> holder st t = Some j" if "j \<noteq> i" for t j
    using that mine by (auto simp: writing_simps)
  show "holds t (Answered r)" if "holder ?st t = Some i" for t
    using that frames_holder [OF inv, of t i] h by (cases "writers st ! i") (auto simp: writing_simps split: if_splits)
  show "payload_of (calls ! i) \<noteq> None \<and> ((\<exists>r'. Answered r = Answered r') \<or> (\<exists>p k. Answered r = SendWrites t p k))"
    if "i \<in> set (turns ?st t)" for t
    using that frames_turns(3) [OF inv] by (simp add: same)
qed (simp_all add: writing_simps)

lemma frames_acquire:
  assumes inv: "frames_inv calls st" and i: "i < length calls" and free: "holder st s = None"
    and w: "writers st ! i = SendWaits s payload"
  shows "frames_inv calls (acquire i s (set_writer i (SendWrites s payload 0)
    (st\<lparr>turns := (turns st)(s := turns st s @ [i])\<rparr>)))"
proof (rule frames_moves [OF inv i])
  let ?st = "acquire i s (set_writer i (SendWrites s payload 0) (st\<lparr>turns := (turns st)(s := turns st s @ [i])\<rparr>))"
  have same: "wrote ?st = wrote st" "on_wire ?st = on_wire st" by (simp_all add: writing_simps)
  have ok: "payload_of (calls ! i) = Some payload" "wrote st i = 0" "\<forall>s. i \<notin> set (turns st s)"
    using frames_call [OF inv i] by (simp_all add: w)
  have none: "holder st t \<noteq> Some i" for t
    using not_holding [OF inv, of i] by (simp add: w)
  show "writers ?st = (writers st)[i := SendWrites s payload 0]" by (simp add: writing_simps)
  show "call_ok ?st i (calls ! i) (SendWrites s payload 0)" using ok by (simp add: writing_simps)
  have zero: "piece calls st i = []" by (simp add: piece_def ok(2))
  show "on_wire ?st t = concat (map (piece calls ?st) (turns ?st t))" for t
    using frames_turns(1) [OF inv] zero unfolding piece_same [OF same(1)] same(2)
    by (simp add: writing_simps)
  show "holds t (SendWrites s payload 0)" if "holder ?st t = Some i" for t
    using that none [of t] by (simp add: writing_simps split: if_splits)
  show "holder ?st t = Some j \<longleftrightarrow> holder st t = Some j" if "j \<noteq> i" for t j
    using that free by (simp add: writing_simps)
  show "turns ?st t = turns st t \<or> holder st t = None \<and> turns ?st t = turns st t @ [i] \<and> i \<notin> set (turns st t)" for t
    using ok(3) free by (simp add: writing_simps)
  show "payload_of (calls ! i) \<noteq> None \<and>
      ((\<exists>r. SendWrites s payload 0 = Answered r) \<or> (\<exists>p k. SendWrites s payload 0 = SendWrites t p k))"
    if "i \<in> set (turns ?st t)" for t
    using that ok by (auto simp: writing_simps split: if_splits)
qed (simp_all add: writing_simps)

lemma frames_acquire_close:
  assumes inv: "frames_inv calls st" and i: "i < length calls" and free: "holder st s = None"
    and w: "writers st ! i = CloseWaits s"
  shows "frames_inv calls (acquire i s (set_writer i (CloseFinishes s) st))"
proof (rule frames_moves [OF inv i])
  let ?st = "acquire i s (set_writer i (CloseFinishes s) st)"
  have same: "turns ?st = turns st" "wrote ?st = wrote st" "on_wire ?st = on_wire st"
    by (simp_all add: writing_simps)
  have ok: "payload_of (calls ! i) = None" using frames_call [OF inv i] by (simp add: w)
  have none: "holder st t \<noteq> Some i" for t
    using not_holding [OF inv, of i] by (simp add: w)
  show "writers ?st = (writers st)[i := CloseFinishes s]" by (simp add: writing_simps)
  show "call_ok ?st i (calls ! i) (CloseFinishes s)" using ok by (simp add: writing_simps)
  show "on_wire ?st t = concat (map (piece calls ?st) (turns ?st t))" for t
    using frames_turns(1) [OF inv] by (simp add: same piece_same [OF same(2)])
  show "holds t (CloseFinishes s)" if "holder ?st t = Some i" for t
    using that none [of t] by (simp add: writing_simps split: if_splits)
  show "holder ?st t = Some j \<longleftrightarrow> holder st t = Some j" if "j \<noteq> i" for t j
    using that free by (simp add: writing_simps)
  show "payload_of (calls ! i) \<noteq> None \<and>
      ((\<exists>r. CloseFinishes s = Answered r) \<or> (\<exists>p k. CloseFinishes s = SendWrites t p k))"
    if "i \<in> set (turns ?st t)" for t
    using that frames_turns(3) [OF inv] ok unfolding same by blast
qed (simp_all add: writing_simps)

lemma frames_take:
  assumes inv: "frames_inv calls st" and i: "i < length calls"
    and w: "writers st ! i = SendWrites s payload k" and d: "k + d \<le> length payload"
  shows "frames_inv calls (set_writer i (SendWrites s payload (k + d))
    (st\<lparr>on_wire := (on_wire st)(s := on_wire st s @ take d (drop k payload)), wrote := (wrote st)(i := k + d)\<rparr>))"
    (is "frames_inv calls ?st")
proof (rule frames_moves [OF inv i])
  from frames_call [OF inv i] obtain before where
    ok: "payload_of (calls ! i) = Some payload" "wrote st i = k" "holder st s = Some i"
      "turns st s = before @ [i]" "\<And>t. i \<in> set (turns st t) \<Longrightarrow> t = s"
    by (auto simp: w)
  have same: "turns ?st = turns st" "holder ?st = holder st" by (simp_all add: set_writer_def)
  have others: "piece calls ?st j = piece calls st j" if "j \<noteq> i" for j
    using that by (simp add: piece_def set_writer_def)
  have swap: "map (piece calls ?st) js = map (piece calls st) js" if "i \<notin> set js" for js
    by (rule map_cong [OF refl], rule others) (use that in blast)
  have old: "piece calls st i = take k payload" and new: "piece calls ?st i = take (k + d) payload"
    using ok(1,2) by (simp_all add: piece_def set_writer_def)
  show "writers ?st = (writers st)[i := SendWrites s payload (k + d)]" by (simp add: set_writer_def)
  show "call_ok ?st i (calls ! i) (SendWrites s payload (k + d))"
    using ok d by (simp add: set_writer_def)
  show "holds t (SendWrites s payload (k + d))" if "holder ?st t = Some i" for t
    using that frames_holder [OF inv, of t i] by (simp add: same w)
  show "on_wire ?st t = concat (map (piece calls ?st) (turns ?st t))" for t
  proof (cases "t = s")
    case True
    have "i \<notin> set before" using frames_turns(2) [OF inv, of s] by (simp add: ok(4))
    note front = swap [OF this]
    have "concat (map (piece calls ?st) (turns st s)) =
        concat (map (piece calls ?st) before) @ piece calls ?st i" by (simp add: ok(4))
    also have "\<dots> = (concat (map (piece calls st) before) @ take k payload) @ take d (drop k payload)"
      by (simp only: front new take_add append_assoc)
    also have "\<dots> = on_wire st s @ take d (drop k payload)"
      using frames_turns(1) [OF inv, of s] old by (simp add: ok(4))
    finally show ?thesis unfolding same True by (simp add: set_writer_def)
  next
    case False
    then have "i \<notin> set (turns st t)" using ok(5) by blast
    note rest = swap [OF this]
    show ?thesis unfolding same rest using frames_turns(1) [OF inv, of t] False by (simp add: set_writer_def)
  qed
  show "payload_of (calls ! i) \<noteq> None \<and>
      ((\<exists>r. SendWrites s payload (k + d) = Answered r) \<or> (\<exists>p k'. SendWrites s payload (k + d) = SendWrites t p k'))"
    if "i \<in> set (turns ?st t)" for t
  proof -
    have "t = s" using that ok(5) unfolding same by blast
    with ok(1) show ?thesis by simp
  qed
qed (simp_all add: set_writer_def)

lemma frames_step:
  assumes inv: "frames_inv calls st" and i: "i < length calls" and step: "writer_step i net st = Some st'"
  shows "frames_inv calls st'"
proof -
  note ok = frames_call [OF inv i]
  have keep: "st\<lparr>shared := shared st\<rparr> = st" by simp
  have unturned: "i \<notin> set (turns st s)" if "payload_of (calls ! i) = None" for s
    using that frames_turns(3) [OF inv, of i s] by blast
  show ?thesis
  proof (cases "writers st ! i")
    case (SendCall sid q payload)
    with ok have c: "payload_of (calls ! i) = Some payload" "wrote st i = 0" "\<And>s. i \<notin> set (turns st s)" by simp_all
    have "frames_inv calls (set_writer i w st)" if "call_ok st i (calls ! i) w" for w
      using frames_self [OF inv i _ c(3) that, of "shared st"] SendCall keep by simp
    with c step SendCall show ?thesis
      by (auto simp: writer_step_def split: option.splits)
  next
    case (SendWaits s payload)
    with step frames_acquire [OF inv i _ SendWaits] show ?thesis
      by (auto simp: writer_step_def split: if_splits)
  next
    case (SendWrites s payload k)
    with ok have c: "payload_of (calls ! i) = Some payload" "wrote st i = k" "k \<le> length payload"
      "i \<in> set (turns st s)" by auto
    have h: "holds s (writers st ! i)" by (simp add: SendWrites)
    have "frames_inv calls (release s (set_writer i (Answered r) st))" if "r = Inr () \<longrightarrow> k = length payload" for r
      using frames_release [OF inv i h, of r] c that by auto
    with step SendWrites frames_take [OF inv i SendWrites] show ?thesis
      by (auto simp: writer_step_def split: if_splits net_answer.splits)
  next
    case (CloseCall sid q)
    with ok have c: "payload_of (calls ! i) = None" by simp
    have "frames_inv calls (set_writer i w (st\<lparr>shared := ep\<rparr>))" if "call_ok st i (calls ! i) w" for w ep
      using frames_self [OF inv i _ unturned [OF c] that] CloseCall by simp
    moreover from this [of _ "shared st"] have "frames_inv calls (set_writer i w st)"
      if "call_ok st i (calls ! i) w" for w using that by simp
    ultimately show ?thesis
      using c step CloseCall by (auto simp: writer_step_def Let_def split: option.splits)
  next
    case (CloseWaits s)
    with step frames_acquire_close [OF inv i _ CloseWaits] show ?thesis
      by (auto simp: writer_step_def split: if_splits)
  next
    case (CloseFinishes s)
    with ok have "payload_of (calls ! i) = None" by simp
    with frames_release [OF inv i, of s] CloseFinishes step show ?thesis
      by (auto simp: writer_step_def split: net_answer.splits)
  next
    case (Answered r)
    with step show ?thesis by (simp add: writer_step_def)
  qed
qed

lemma call_ok_shared [simp]: "call_ok (st\<lparr>shared := ep\<rparr>) i c w = call_ok st i c w"
  by (cases w) simp_all

lemma frames_move:
  assumes "frames_inv calls st" "move_writers m st = Some st'"
  shows "frames_inv calls st'"
proof (cases m)
  case (Move i net)
  with assms frames_step frames_length show ?thesis by (auto split: if_splits)
next
  case (Elsewhere ep)
  then have st': "st' = st\<lparr>shared := ep\<rparr>" using assms(2) by simp
  have "piece calls st' = piece calls st" by (rule piece_same) (simp add: st')
  with assms(1) show ?thesis unfolding frames_inv_def by (simp add: st')
qed

lemma frames_run: "run_writers ms st = Some st' \<Longrightarrow> frames_inv calls st \<Longrightarrow> frames_inv calls st'"
  by (induction ms arbitrary: st) (auto split: option.splits dest: frames_move)

section \<open>Frames do not interleave\<close>


definition two_writers :: "writer list" where
  "two_writers = [SendCall 1 2 ''abc'', SendCall 1 2 ''xy'']"

definition demo_stream :: Endpoint where
  "demo_stream = live_endpoint 0 4433\<lparr>streams := new_mutex [((1, 2), 7)]\<rparr>"

definition demo_writing :: "write_move list" where
  "demo_writing = [Move 0 Goes, Move 1 Goes, Move 1 Goes, Move 1 (Takes 1), Move 1 (Takes 1), Move 1 Goes,
     Move 0 Goes, Move 0 (Takes 2)]"


text \<open>A call with nobody beside it does what \<open>stream_send\<close> and \<open>stream_close\<close> do in one step.\<close>

lemma stream_send_alone:
  assumes "stream_send x ep sid q payload tr = (r, tr')"
  shows "\<exists>ms st. run_writers ms (calls_made ep [SendCall sid q payload]) = Some st \<and>
    writers st = [Answered r] \<and>
    (\<forall>s. WriteAll s payload \<in> set (drop (length tr) tr') \<longrightarrow> r = Inr () \<longrightarrow> on_wire st s = payload)"
proof (cases "\<exists>m s rt. lock_get (streams ep) = Some m \<and> map_of m (sid, q) = Some s \<and> runtime ep = Some rt")
  case True
  then obtain m s rt where t: "lock_get (streams ep) = Some m" "map_of m (sid, q) = Some s" "runtime ep = Some rt"
    by blast
  with assms have a: "r = (case x_write_all x tr s payload of Inl _ \<Rightarrow> Inl PeerGone | Inr _ \<Rightarrow> Inr ())"
    "tr' = tr @ [WriteAll s payload]"
    by (auto simp: stream_send_def split: sum.splits)
  have "r = Inl PeerGone \<or> r = Inr ()" using a(1) by (simp split: sum.splits)
  then consider "r = Inl PeerGone" | "r = Inr ()" "payload = []" | "r = Inr ()" "payload \<noteq> []"
    by blast
  then show ?thesis
  proof cases
    case 1
    with t a(2) show ?thesis
      by (intro exI [of _ "[Move 0 Goes, Move 0 Goes, Move 0 Fails]"])
        (simp add: calls_made_def writer_step_def writing_simps)
  next
    case 2
    with t a(2) show ?thesis
      by (intro exI [of _ "[Move 0 Goes, Move 0 Goes, Move 0 Goes]"])
        (simp add: calls_made_def writer_step_def writing_simps)
  next
    case 3
    with t a(2) show ?thesis
      by (intro exI [of _ "[Move 0 Goes, Move 0 Goes, Move 0 (Takes (length payload)), Move 0 Goes]"])
        (simp add: calls_made_def writer_step_def writing_simps)
  qed
next
  case False
  with assms show ?thesis
    by (intro exI [of _ "[Move 0 Goes]"])
      (auto simp: stream_send_def calls_made_def writer_step_def writing_simps split: option.splits)
qed

section \<open>Every call answers\<close>

fun moves_left :: "writer \<Rightarrow> nat" where
  "moves_left (SendCall _ _ payload) = length payload + 3"
| "moves_left (SendWaits _ payload) = length payload + 2"
| "moves_left (SendWrites _ payload k) = length payload - k + 1"
| "moves_left (CloseCall _ _) = 3"
| "moves_left (CloseWaits _) = 2"
| "moves_left (CloseFinishes _) = 1"
| "moves_left (Answered _) = 0"

lemma step_costs:
  assumes "writer_step i net st = Some st'" and "i < length (writers st)"
  shows "sum_list (map moves_left (writers st')) < sum_list (map moves_left (writers st))"
proof -
  let ?m = "map moves_left (writers st)"
  have less: "sum_list (map moves_left ((writers st)[i := w])) < sum_list ?m"
    if "moves_left w < moves_left (writers st ! i)" for w
  proof -
    have "sum_list (?m[i := moves_left w]) = sum_list ?m + moves_left w - ?m ! i"
      using assms(2) by (simp add: sum_list_update)
    moreover have "?m ! i \<le> sum_list ?m" using elem_le_sum_list [of i ?m] assms(2) by simp
    ultimately show ?thesis using that assms(2) by (simp add: map_update)
  qed
  from assms(1) obtain w where "writers st' = (writers st)[i := w]" "moves_left w < moves_left (writers st ! i)"
    by (cases "writers st ! i")
      (auto simp: writer_step_def writing_simps Let_def split: option.splits if_splits net_answer.splits)
  with less show ?thesis by simp
qed

lemma unanswered_moves:
  assumes inv: "frames_inv calls st" and i: "i < length calls" and "\<nexists>r. writers st ! i = Answered r"
  shows "\<exists>j net. j < length calls \<and> writer_step j net st \<noteq> None"
proof -
  have holder_moves: "\<exists>net. writer_step j net st \<noteq> None" if "holds s (writers st ! j)" for j s
    using that by (cases "writers st ! j")
      (auto simp: writer_step_def intro: exI [of _ Fails] exI [of _ Goes])
  show ?thesis
  proof (cases "\<exists>s j. holder st s = Some j")
    case True
    with frames_holder [OF inv] holder_moves show ?thesis by blast
  next
    case False
    then have free: "holder st s = None" for s by auto
    have "writer_step i Fails st \<noteq> None"
      using assms(3) free by (cases "writers st ! i")
        (auto simp: writer_step_def Let_def split: option.splits)
    with i show ?thesis by blast
  qed
qed

lemma run_costs:
  "run_writers ms st = Some st' \<Longrightarrow>
     length (filter (\<lambda>m. \<exists>i net. m = Move i net) ms) + sum_list (map moves_left (writers st')) \<le>
       sum_list (map moves_left (writers st))"
proof (induction ms arbitrary: st)
  case (Cons m ms)
  then obtain st1 where m: "move_writers m st = Some st1" and "run_writers ms st1 = Some st'"
    by (auto split: option.splits)
  from Cons.IH [OF this(2)] m show ?case
    by (cases m) (auto split: if_splits dest: step_costs)
qed simp

text \<open>
  C22: Every write and every close comes back: while a call has not answered, some call can move,
  whoever holds the locks (no set of calls waits for each other), and the calls together make at
  most as many moves as their payloads have bytes, and three for each call.
\<close>

theorem every_writer_answers:
  assumes "list_all is_call calls" and "run_writers ms (calls_made ep calls) = Some st"
  shows "(\<exists>w \<in> set (writers st). \<nexists>r. w = Answered r) = (\<exists>i net. move_writers (Move i net) st \<noteq> None) \<and>
    length (filter (\<lambda>m. \<exists>i net. m = Move i net) ms) \<le>
      3 * length calls + sum_list (map (\<lambda>c. case payload_of c of None \<Rightarrow> 0 | Some p \<Rightarrow> length p) calls)"
proof
  have inv: "frames_inv calls st" by (rule frames_run [OF assms(2) frames_start [OF assms(1)]])
  note len = frames_length [OF inv]
  show "(\<exists>w \<in> set (writers st). \<nexists>r. w = Answered r) = (\<exists>i net. move_writers (Move i net) st \<noteq> None)"
  proof
    assume "\<exists>w \<in> set (writers st). \<nexists>r. w = Answered r"
    then obtain i where "i < length calls" "\<nexists>r. writers st ! i = Answered r"
      unfolding len [symmetric] by (metis in_set_conv_nth)
    from unanswered_moves [OF inv this] obtain j net where "j < length calls" "writer_step j net st \<noteq> None"
      by blast
    then have "move_writers (Move j net) st \<noteq> None" by (simp add: len)
    then show "\<exists>i net. move_writers (Move i net) st \<noteq> None" by blast
  next
    assume "\<exists>i net. move_writers (Move i net) st \<noteq> None"
    then obtain i net where i: "i < length (writers st)" "writer_step i net st \<noteq> None"
      by (auto split: if_splits)
    then have "\<nexists>r. writers st ! i = Answered r" by (auto simp: writer_step_def)
    with nth_mem [OF i(1)] show "\<exists>w \<in> set (writers st). \<nexists>r. w = Answered r" by blast
  qed
  have "sum_list (map moves_left cs) =
      3 * length cs + sum_list (map (\<lambda>c. case payload_of c of None \<Rightarrow> 0 | Some p \<Rightarrow> length p) cs)"
    if "list_all is_call cs" for cs
    using that
  proof (induction cs)
    case (Cons c cs)
    then show ?case by (cases c) simp_all
  qed simp
  with run_costs [OF assms(2)] assms(1)
  show "length (filter (\<lambda>m. \<exists>i net. m = Move i net) ms) \<le>
      3 * length calls + sum_list (map (\<lambda>c. case payload_of c of None \<Rightarrow> 0 | Some p \<Rightarrow> length p) calls)"
    by (simp add: calls_made_def)
qed

theorem every_writer_answers_witness:
  "\<exists>st. run_writers demo_writing (calls_made demo_stream two_writers) = Some st \<and>
     (\<exists>i net. move_writers (Move i net) st \<noteq> None)"
proof -
  have "\<exists>st. run_writers demo_writing (calls_made demo_stream two_writers) = Some st \<and>
      (\<exists>p k. SendWrites 7 p k \<in> set (writers st))"
    by (simp add: demo_writing_def demo_stream_def two_writers_def calls_made_def writer_step_def
        writing_simps live_endpoint_def)
  then obtain st p k where st: "run_writers demo_writing (calls_made demo_stream two_writers) = Some st"
    "SendWrites 7 p k \<in> set (writers st)" by blast
  have "list_all is_call two_writers" by (simp add: two_writers_def)
  from every_writer_answers [OF this st(1)] st(2) have "\<exists>i net. move_writers (Move i net) st \<noteq> None"
    by (metis writer.distinct)
  with st(1) show ?thesis by blast
qed

end
