(* ===== verification/RkServed.thy ===== *)
theory RkServed
  imports RkSerde RkPoll
begin

text \<open>
  From the members of a JSON configuration to what runs: the readers of \<open>RkSerde\<close>, the checks of
  \<open>config.rs\<close> and \<open>client_config.rs\<close>, and \<open>start\<close> and \<open>connect\<close>, through the C ABI.
\<close>

section \<open>The text of an object\<close>

text \<open>
  What the program relies on of \<open>serde_json::from_str\<close>: a text that is a JSON object is read by the
  reader derived for the structure from its members, and an error is some text.
\<close>

definition object_text :: "(rstr \<Rightarrow> rstr + 'c) \<Rightarrow> ((string \<times> json) list \<Rightarrow> de_error + 'c) \<Rightarrow> rstr \<Rightarrow> (string \<times> json) list \<Rightarrow> bool" where
  "object_text from_str reader json members \<longleftrightarrow>
     (case reader members of Inl _ \<Rightarrow> (\<exists>e. from_str json = Inl e) | Inr c \<Rightarrow> from_str json = Inr c)"

lemma object_read: "object_text from_str reader json members \<Longrightarrow> from_str json = Inr c \<Longrightarrow> reader members = Inr c"
  by (auto simp: object_text_def split: sum.splits)

section \<open>A server\<close>

lemma server_runs_config:
  assumes "arcs_wf held st" and "reg st (handle_counter st) = None"
    and "borrow_c_string config_json = Some json"
    and "object_text (x_server_config_from_str x) ServerConfig_deserialize json members"
    and "rk_quic_server_start x t config_json out st = (as_c_str StatusOk, st')"
  shows "fst ` set members \<subseteq> {''bindAddress'', ''certificateChainPem'', ''privateKeyPem'', ''path'', ''idleTimeoutMs''} \<and>
    distinct (map fst members) \<and> well_typed server_fields members \<and>
    (\<exists>address bind path timeout rt port wc.
       text_or None ''bindAddress'' members = Some address \<and> parse_socket_addr address = Some bind \<and>
       text_or (Some ''/rk'') ''path'' members = Some path \<and> starts_with path ''/'' \<and>
       number_or (Some 30000) ''idleTimeoutMs'' members = Some timeout \<and> 1000 \<le> unat timeout \<and>
       reg st' = (reg st)(handle_counter st \<mapsto> next_arc st) \<and>
       arc_at st' (next_arc st) = arc.truncate (server_node rt port path) \<and>
       trace st' = trace st @ [BuildRuntime, OpenServerEndpoint wc] \<and>
       ws_bind wc = (case bind of V6 _ _ _ \<Rightarrow> with_bind_address_v6 bind DualStackAllow
         | V4 _ _ _ _ _ \<Rightarrow> with_bind_address bind) \<and>
       ws_max_idle_timeout wc = unat timeout * 1000000 \<and>
       ws_keep_alive wc = unat timeout * 1000000 div 3 \<and>
       cells_u64 st' = write_out out (handle_counter st) (cells_u64 st))"
proof -
  let ?st0 = "clear_last_error t st"
  from assms(3,5) obtain c p h st1 where c: "x_server_config_from_str x json = Inr c"
    and p: "config_parse (x_certs x) (x_private_key x) c = Inr p" and s: "start x p ?st0 = (Inr h, st1)"
    and st': "st' = st1\<lparr>cells_u64 := write_out out h (cells_u64 st1)\<rparr>"
    by (auto simp: rk_quic_server_start_def Let_def failures_are_not_ok start_not_ok
        split: sum.splits prod.splits)
  from server_config_iff [THEN iffD1, OF object_read [OF assms(4) c]] p [unfolded config_parse_accepts]
  have conf: "fst ` set members \<subseteq> {''bindAddress'', ''certificateChainPem'', ''privateKeyPem'', ''path'', ''idleTimeoutMs''}"
    "distinct (map fst members)" "well_typed server_fields members"
    "text_or None ''bindAddress'' members = Some (sc_bind_address c)"
    "parse_socket_addr (sc_bind_address c) = Some (pc_bind p)"
    "text_or (Some ''/rk'') ''path'' members = Some (pc_path p)" "starts_with (pc_path p) ''/''"
    "number_or (Some 30000) ''idleTimeoutMs'' members = Some (sc_idle_timeout_ms c)"
    "1000 \<le> unat (sc_idle_timeout_ms c)" "pc_idle_timeout p = unat (sc_idle_timeout_ms c) * 1000000"
    by auto
  have "arcs_wf held ?st0" "reg ?st0 (handle_counter ?st0) = None"
    using assms(1,2) by simp_all
  from start_serves_config [OF this s] obtain rt port wc where run: "h = handle_counter ?st0"
    "reg st1 = (reg ?st0)(h \<mapsto> next_arc ?st0)"
    "arc_at st1 (next_arc ?st0) = arc.truncate (server_node rt port (pc_path p))"
    "trace st1 = trace ?st0 @ [BuildRuntime, OpenServerEndpoint wc]"
    "ws_bind wc = (case pc_bind p of V6 _ _ _ \<Rightarrow> with_bind_address_v6 (pc_bind p) DualStackAllow
       | V4 _ _ _ _ _ \<Rightarrow> with_bind_address (pc_bind p))"
    "ws_max_idle_timeout wc = pc_idle_timeout p" "ws_keep_alive wc = pc_idle_timeout p div 3" by blast
  have "cells_u64 st1 = cells_u64 st"
    using boundary_start [OF s] by (simp add: ffi_state.truncate_def clear_last_error_def)
  moreover have "reg st' = reg st1" "arc_at st' = arc_at st1" "trace st' = trace st1"
    by (simp_all add: st' reg_def arc_at_def fun_eq_iff)
  ultimately show ?thesis using conf run
    by (intro conjI, blast, blast, blast)
      (rule exI [of _ "sc_bind_address c"], rule exI [of _ "pc_bind p"], rule exI [of _ "pc_path p"],
        rule exI [of _ "sc_idle_timeout_ms c"], rule exI [of _ rt], rule exI [of _ port], rule exI [of _ wc],
        simp add: st')
qed

text \<open>
  C15: A server that was started serves what its JSON said: when \<open>rk_quic_server_start\<close> answers \<open>ok\<close>
  for an object, the object has no member but the five, none twice and each of its type; its address parsed, its path
  (\<open>/rk\<close> if absent) starts with a slash and its idle timeout (thirty seconds if absent) is at least
  a second; the new endpoint accepts sessions on exactly that path, the network was asked to
  bind exactly that address with both families for IPv6, that timeout and a keep-alive of a third
  of it; and the caller's variable holds the handle the endpoint is registered under.
\<close>

theorem configured_server_serves:
  assumes "arcs_wf held st" and "reg st (handle_counter st) = None"
    and "borrow_c_string config_json = Some json"
    and "object_text (x_server_config_from_str x) ServerConfig_deserialize json members"
    and "rk_quic_server_start x t config_json out st = (as_c_str StatusOk, st')"
  shows "fst ` set members \<subseteq> {''bindAddress'', ''certificateChainPem'', ''privateKeyPem'', ''path'', ''idleTimeoutMs''} \<and>
    distinct (map fst members) \<and> well_typed server_fields members \<and>
    (\<exists>address bind path timeout rt port wc.
       text_or None ''bindAddress'' members = Some address \<and> parse_socket_addr address = Some bind \<and>
       text_or (Some ''/rk'') ''path'' members = Some path \<and> starts_with path ''/'' \<and>
       number_or (Some 30000) ''idleTimeoutMs'' members = Some timeout \<and> 1000 \<le> unat timeout \<and>
       reg st' = (reg st)(handle_counter st \<mapsto> next_arc st) \<and>
       arc_at st' (next_arc st) = arc.truncate (server_node rt port path) \<and>
       trace st' = trace st @ [BuildRuntime, OpenServerEndpoint wc] \<and>
       ws_bind wc = (case bind of V6 _ _ _ \<Rightarrow> with_bind_address_v6 bind DualStackAllow
         | V4 _ _ _ _ _ \<Rightarrow> with_bind_address bind) \<and>
       ws_max_idle_timeout wc = unat timeout * 1000000 \<and>
       ws_keep_alive wc = unat timeout * 1000000 div 3 \<and>
       cells_u64 st' = write_out out (handle_counter st) (cells_u64 st))"
  by (rule server_runs_config [OF assms])

text \<open>The object has the address and the two texts, no path and no timeout.\<close>

definition demo_members :: "(string \<times> json) list" where
  "demo_members =
     [(''bindAddress'', JStr (sc_bind_address good_server_config)), (''certificateChainPem'', JStr ''C''),
      (''privateKeyPem'', JStr ''K'')]"

lemma demo_members_read: "object_text (x_server_config_from_str calm) ServerConfig_deserialize [] demo_members"
  by (simp add: object_text_def demo_members_def ServerConfig_deserialize_def server_fields_eval string_field_def
      u64_field_def default_path_def default_idle_timeout_ms_def calm_def good_server_config_def
      del: display_socket_addr.simps)

theorem configured_server_serves_witness:
  "\<exists>st' rt port. rk_quic_server_start calm 3 (Some [NUL]) 8 initial_process = (as_c_str StatusOk, st') \<and>
     arc_at st' 0 = arc.truncate (server_node rt port ''/rk'')"
proof -
  have b: "borrow_c_string (Some [NUL]) = Some []" by code_simp
  have j: "x_server_config_from_str calm [] = Inr good_server_config" by (simp add: calm_def)
  have "\<exists>st'. rk_quic_server_start calm 3 (Some [NUL]) 8 initial_process = (as_c_str StatusOk, st')"
    by (simp add: rk_quic_server_start_def b j good_config_parses Let_def)
      (simp add: start_def identity_from_def calm_def Let_def next_handle_def register_def arc_new_def)
  then obtain st' where s: "rk_quic_server_start calm 3 (Some [NUL]) 8 initial_process = (as_c_str StatusOk, st')"
    by blast
  have f: "reg initial_process (handle_counter initial_process) = None" by (simp add: reg_def new_mutex_def)
  have path: "text_or (Some ''/rk'') ''path'' demo_members = Some ''/rk''"
    by (simp add: text_or_def demo_members_def)
  from configured_server_serves [OF arcs_wf_initial f b demo_members_read s] s show ?thesis
    unfolding path by auto
qed

section \<open>A client\<close>

lemma client_runs_config:
  assumes "arcs_wf held st" and "reg st (handle_counter st + 1) = None"
    and "borrow_c_string config_json = Some json"
    and "object_text (x_client_config_from_str x) ClientConfig_deserialize json members"
    and "rk_quic_client_connect x t config_json out_handle out_session st = (as_c_str StatusOk, st')"
  shows "proper client_fields members \<and>
    (\<exists>url hash_text hash timeout rt port c wc ep.
       text_or None ''url'' members = Some url \<and> starts_with url ''https://'' \<and>
       text_or None ''certificateHashSha256'' members = Some hash_text \<and>
       parse_hash (x_debug_str x) hash_text = Returned (Inr hash) \<and> length hash = 32 \<and>
       number_or (Some 30000) ''idleTimeoutMs'' members = Some timeout \<and> timeout \<noteq> 0 \<and>
       reg st' = (reg st)(handle_counter st + 1 \<mapsto> next_arc st) \<and>
       arc_at st' (next_arc st) = arc.truncate (client_node rt port (handle_counter st) c url) \<and>
       trace st' = trace st @ [BuildRuntime, OpenClientEndpoint wc, Connect ep url] \<and>
       wc_certificate_hashes wc = [hash] \<and> wc_max_idle_timeout wc = unat timeout * 1000000 \<and>
       buf (guarded (events (endpoint (arc_at st' (next_arc st))))) = [SessionOpened (handle_counter st) [] url] \<and>
       cells_u64 st' = write_out out_session (handle_counter st)
         (write_out out_handle (handle_counter st + 1) (cells_u64 st)))"
proof -
  let ?st0 = "clear_last_error t st"
  from assms(3,5) obtain c p h sid st1 where c: "x_client_config_from_str x json = Inr c"
    and p: "client_config_parse (x_debug_str x) c = Returned (Inr p)"
    and s: "connect x p ?st0 = (Inr (h, sid), st1)"
    and st': "st' = st1\<lparr>cells_u64 := write_out out_session sid (write_out out_handle h (cells_u64 st1))\<rparr>"
    by (auto simp: rk_quic_client_connect_def Let_def client_config_not_ok connect_not_ok
        split: sum.splits prod.splits outcome.splits)
  from client_config_skips_unknown [THEN conjunct1, THEN iffD1, OF object_read [OF assms(4) c]]
  have conf: "proper client_fields members" "text_or None ''url'' members = Some (cc_url c)"
    "text_or None ''certificateHashSha256'' members = Some (cc_certificate_hash_sha256 c)"
    "number_or (Some 30000) ''idleTimeoutMs'' members = Some (cc_idle_timeout_ms c)"
    by blast+
  from p obtain hash where ok: "starts_with (cc_url c) ''https://''" "cc_idle_timeout_ms c \<noteq> 0"
    "parse_hash (x_debug_str x) (cc_certificate_hash_sha256 c) = Returned (Inr hash)" "length hash = 32"
    and pe: "p = \<lparr>pcc_url = cc_url c, pcc_certificate_hash = hash,
      pcc_idle_timeout = from_millis (cc_idle_timeout_ms c)\<rparr>"
    by (auto simp: client_config_parse_def parse_hash_def Let_def dest: parse_hash_bytes_length
        split: if_splits outcome.splits sum.splits)
  have "arcs_wf held ?st0" "reg ?st0 (handle_counter ?st0 + 1) = None"
    using assms(1,2) by simp_all
  from connect_opens_session [OF this s] obtain rt port c' wc ep where run: "sid = handle_counter ?st0"
    "h = handle_counter ?st0 + 1" "reg st1 = (reg ?st0)(h \<mapsto> next_arc ?st0)"
    "arc_at st1 (next_arc ?st0) = arc.truncate (client_node rt port sid c' (pcc_url p))"
    "trace st1 = trace ?st0 @ [BuildRuntime, OpenClientEndpoint wc, Connect ep (pcc_url p)]"
    "wc_certificate_hashes wc = [pcc_certificate_hash p]" "wc_max_idle_timeout wc = pcc_idle_timeout p"
    "buf (guarded (events (endpoint (arc_at st1 (next_arc ?st0))))) = [SessionOpened sid [] (pcc_url p)]"
    by blast
  have "cells_u64 st1 = cells_u64 st"
    using boundary_connect [OF s] by (simp add: ffi_state.truncate_def clear_last_error_def)
  moreover have "reg st' = reg st1" "arc_at st' = arc_at st1" "trace st' = trace st1"
    by (simp_all add: st' reg_def arc_at_def fun_eq_iff)
  ultimately show ?thesis using conf ok run
    by (intro conjI, blast)
      (rule exI [of _ "cc_url c"], rule exI [of _ "cc_certificate_hash_sha256 c"], rule exI [of _ hash],
        rule exI [of _ "cc_idle_timeout_ms c"], rule exI [of _ rt], rule exI [of _ port], rule exI [of _ c'],
        rule exI [of _ wc], rule exI [of _ ep], simp add: st' pe from_millis_def)
qed

text \<open>
  C23: A client that was connected trusts what its JSON said: when \<open>rk_quic_client_connect\<close> answers
  \<open>ok\<close> for an object, its URL starts with \<open>https://\<close>, its fingerprint read as 32 bytes, its timeout
  (thirty seconds if absent) is not zero, and each member it knows occurs once; the network was asked
  to connect to exactly that URL, to trust exactly that fingerprint and to use that timeout; one
  session is open, announced as the first event; and the caller's variables hold the handle and the
  session id, two successive numbers of the counter.
\<close>

theorem configured_client_connects:
  assumes "arcs_wf held st" and "reg st (handle_counter st + 1) = None"
    and "borrow_c_string config_json = Some json"
    and "object_text (x_client_config_from_str x) ClientConfig_deserialize json members"
    and "rk_quic_client_connect x t config_json out_handle out_session st = (as_c_str StatusOk, st')"
  shows "proper client_fields members \<and>
    (\<exists>url hash_text hash timeout rt port c wc ep.
       text_or None ''url'' members = Some url \<and> starts_with url ''https://'' \<and>
       text_or None ''certificateHashSha256'' members = Some hash_text \<and>
       parse_hash (x_debug_str x) hash_text = Returned (Inr hash) \<and> length hash = 32 \<and>
       number_or (Some 30000) ''idleTimeoutMs'' members = Some timeout \<and> timeout \<noteq> 0 \<and>
       reg st' = (reg st)(handle_counter st + 1 \<mapsto> next_arc st) \<and>
       arc_at st' (next_arc st) = arc.truncate (client_node rt port (handle_counter st) c url) \<and>
       trace st' = trace st @ [BuildRuntime, OpenClientEndpoint wc, Connect ep url] \<and>
       wc_certificate_hashes wc = [hash] \<and> wc_max_idle_timeout wc = unat timeout * 1000000 \<and>
       buf (guarded (events (endpoint (arc_at st' (next_arc st))))) = [SessionOpened (handle_counter st) [] url] \<and>
       cells_u64 st' = write_out out_session (handle_counter st)
         (write_out out_handle (handle_counter st + 1) (cells_u64 st)))"
  by (rule client_runs_config [OF assms])

definition demo_client_members :: "(string \<times> json) list" where
  "demo_client_members =
     [(''certificateHashSha256'', JStr (cc_certificate_hash_sha256 good_client_config)),
      (''url'', JStr (cc_url good_client_config))]"

lemma demo_client_members_read:
  "object_text (x_client_config_from_str calm) ClientConfig_deserialize [] demo_client_members"
  by (simp add: object_text_def demo_client_members_def ClientConfig_deserialize_def client_fields_eval
      string_field_def u64_field_def client_default_idle_timeout_ms_def calm_def good_client_config_def)

lemma good_client_parses:
  "client_config_parse dbg good_client_config =
     Returned (Inr \<lparr>pcc_url = ''https://localhost:4433/rk'', pcc_certificate_hash = replicate 32 7,
       pcc_idle_timeout = from_millis 30000\<rparr>)"
proof -
  have "parse_hash dbg (hash_hex (replicate 32 7)) = Returned (Inr (replicate 32 7))"
    by (rule parse_hash_printed) (simp, code_simp)
  then show ?thesis by (simp add: client_config_parse_def good_client_config_def starts_with_def)
qed

theorem configured_client_connects_witness:
  "\<exists>st' rt port c. rk_quic_client_connect calm 3 (Some [NUL]) 8 9 initial_process = (as_c_str StatusOk, st') \<and>
     arc_at st' 0 = arc.truncate (client_node rt port 1 c ''https://localhost:4433/rk'')"
proof -
  have b: "borrow_c_string (Some [NUL]) = Some []" by code_simp
  have j: "x_client_config_from_str calm [] = Inr good_client_config" by (simp add: calm_def)
  have "\<exists>st'. rk_quic_client_connect calm 3 (Some [NUL]) 8 9 initial_process = (as_c_str StatusOk, st')"
    by (simp add: rk_quic_client_connect_def b j good_client_parses Let_def)
      (simp add: connect_def calm_def Let_def next_handle_def register_def arc_new_def)
  then obtain st' where s: "rk_quic_client_connect calm 3 (Some [NUL]) 8 9 initial_process = (as_c_str StatusOk, st')"
    by blast
  have f: "reg initial_process (handle_counter initial_process + 1) = None"
    by (simp add: reg_def new_mutex_def)
  have url: "text_or None ''url'' demo_client_members = Some ''https://localhost:4433/rk''"
    by (simp add: text_or_def demo_client_members_def good_client_config_def)
  from configured_client_connects [OF arcs_wf_initial f b demo_client_members_read s] s show ?thesis
    unfolding url by auto
qed

end
