(* ===== verification/RkBindings.thy ===== *)
theory RkBindings
  imports RkPoll RkHandles "HOL-Library.Monad_Syntax"
begin

text \<open>
  The Dart side of the C ABI: the one-line readers of \<open>lib/src/bindings_io.dart\<close> and the command
  loop of \<open>lib/src/endpoint_io.dart\<close>, one turn of which serves one command on the helper isolate.

  A Dart string is its UTF-8 bytes, which is what \<open>toNativeUtf8\<close> writes; the memory Dart allocates
  for the library to write into is a cell at an address that \<open>calloc\<close> returns. \<open>None\<close> is undefined
  behaviour: memory read or freed that is not there. An isolate may run each turn on another thread,
  and other threads call the library meanwhile: both are data of the turn.
\<close>

section \<open>Memory\<close>

definition toDartString :: "ptr \<Rightarrow> 'a ffi_state_scheme \<Rightarrow> rstr option" where
  "toDartString p st = Option.bind (map_of (heap st) p) c_read"

definition toNativeUtf8 :: "rstr \<Rightarrow> string option" where
  "toNativeUtf8 s = Some (s @ [NUL])"

definition calloc_u64 :: "ptr \<Rightarrow> process \<Rightarrow> process" where
  "calloc_u64 p st = st\<lparr>cells_u64 := AList.update p 0 (cells_u64 st)\<rparr>"

definition calloc_u16 :: "ptr \<Rightarrow> process \<Rightarrow> process" where
  "calloc_u16 p st = st\<lparr>cells_u16 := AList.update p 0 (cells_u16 st)\<rparr>"

definition free_u64 :: "ptr \<Rightarrow> process \<Rightarrow> process" where
  "free_u64 p st = st\<lparr>cells_u64 := AList.delete p (cells_u64 st)\<rparr>"

definition free_u16 :: "ptr \<Rightarrow> process \<Rightarrow> process" where
  "free_u16 p st = st\<lparr>cells_u16 := AList.delete p (cells_u16 st)\<rparr>"

definition takeLastError ::
  "thread \<Rightarrow> 'a ffi_state_scheme \<Rightarrow> (rstr option \<times> 'a ffi_state_scheme) option" where
  "takeLastError t st =
     (case rk_quic_last_error t st of (pointer, st1) \<Rightarrow>
        if pointer = 0 then Some (None, st1)
        else do {
          message \<leftarrow> toDartString pointer st1;
          st2 \<leftarrow> rk_quic_string_free pointer st1;
          Some (Some message, st2)
        })"

section \<open>Commands and replies\<close>

datatype command =
    StartCommand "(string \<times> json) list"
  | ConnectCommand "(string \<times> json) list"
  | OpenStreamCommand u64
  | SendCommand u64 rstr bool
  | StreamSendCommand u64 u64 rstr
  | StreamCloseCommand u64 u64
  | StopCommand
  | OtherCommand

datatype reply =
    StartedReply u64 u16
  | ConnectedReply u64 u64
  | StreamOpenedReply u64
  | StatusReply RkQuicStatus "rstr option"

text \<open>
  One turn: the thread it runs on, the addresses its allocations return, and the calls other
  threads make between its native call and the next thing it asks of the library.
\<close>

record turn =
  on_thread :: thread
  cell1 :: ptr
  cell2 :: ptr
  meanwhile :: "(thread \<times> api_call) list"

definition others :: "external \<Rightarrow> turn \<Rightarrow> process \<Rightarrow> process" where
  "others x k st = run_calls (api x) (meanwhile k) st"

definition status_read :: "string \<Rightarrow> RkQuicStatus" where
  "status_read result = statusFromWireName (c_read result)"

section \<open>The turns of the command loop\<close>

text \<open>\<open>StatusReply(status, status == ok ? null : takeLastError())\<close>.\<close>

definition status_reply :: "external \<Rightarrow> turn \<Rightarrow> RkQuicStatus \<Rightarrow> process \<Rightarrow> (reply \<times> process) option" where
  "status_reply x k status st =
     (if status = D_ok then Some (StatusReply status None, st)
      else do {
        (detail, st1) \<leftarrow> takeLastError (on_thread k) (others x k st);
        Some (StatusReply status detail, st1)
      })"

definition start_turn ::
  "external \<Rightarrow> ((string \<times> json) list \<Rightarrow> rstr) \<Rightarrow> turn \<Rightarrow> (string \<times> json) list \<Rightarrow>
   u64 \<times> process \<Rightarrow> (reply \<times> u64 \<times> process) option" where
  "start_turn x jsonEncode k configJson w =
     (case w of (handle, st) \<Rightarrow>
      (case api x (on_thread k) (ServerStart (toNativeUtf8 (jsonEncode configJson)) (cell1 k))
              (calloc_u64 (cell1 k) st) of (result, st1) \<Rightarrow>
        if status_read result \<noteq> D_ok then do {
          (r, st2) \<leftarrow> status_reply x k (status_read result) st1;
          Some (r, handle, free_u64 (cell1 k) st2)
        } else do {
          started \<leftarrow> map_of (cells_u64 st1) (cell1 k);
          let st2 = snd (api x (on_thread k) (ServerLocalPort started (cell2 k))
                           (calloc_u16 (cell2 k) (others x k st1)));
          port \<leftarrow> map_of (cells_u16 st2) (cell2 k);
          Some (StartedReply started port, started, free_u64 (cell1 k) (free_u16 (cell2 k) st2))
        }))"

definition connect_turn ::
  "external \<Rightarrow> ((string \<times> json) list \<Rightarrow> rstr) \<Rightarrow> turn \<Rightarrow> (string \<times> json) list \<Rightarrow>
   u64 \<times> process \<Rightarrow> (reply \<times> u64 \<times> process) option" where
  "connect_turn x jsonEncode k configJson w =
     (case w of (handle, st) \<Rightarrow>
      (case api x (on_thread k)
              (ClientConnect (toNativeUtf8 (jsonEncode configJson)) (cell1 k) (cell2 k))
              (calloc_u64 (cell2 k) (calloc_u64 (cell1 k) st)) of (result, st1) \<Rightarrow>
        if status_read result \<noteq> D_ok then do {
          (r, st2) \<leftarrow> status_reply x k (status_read result) st1;
          Some (r, handle, free_u64 (cell2 k) (free_u64 (cell1 k) st2))
        } else do {
          connected \<leftarrow> map_of (cells_u64 st1) (cell1 k);
          session \<leftarrow> map_of (cells_u64 st1) (cell2 k);
          Some (ConnectedReply connected session, connected,
            free_u64 (cell2 k) (free_u64 (cell1 k) st1))
        }))"

definition open_stream_turn ::
  "external \<Rightarrow> turn \<Rightarrow> u64 \<Rightarrow> u64 \<times> process \<Rightarrow> (reply \<times> u64 \<times> process) option" where
  "open_stream_turn x k sessionId w =
     (case w of (handle, st) \<Rightarrow>
      (case api x (on_thread k) (ClientOpenStream handle sessionId (cell1 k))
              (calloc_u64 (cell1 k) st) of (result, st1) \<Rightarrow>
        if status_read result = D_ok then do {
          stream \<leftarrow> map_of (cells_u64 st1) (cell1 k);
          Some (StreamOpenedReply stream, handle, free_u64 (cell1 k) st1)
        } else do {
          (r, st2) \<leftarrow> status_reply x k (status_read result) st1;
          Some (r, handle, free_u64 (cell1 k) st2)
        }))"

text \<open>The three commands that are one call and its status.\<close>

definition simple_turn ::
  "external \<Rightarrow> turn \<Rightarrow> api_call \<Rightarrow> u64 \<times> process \<Rightarrow> (reply \<times> u64 \<times> process) option" where
  "simple_turn x k c w =
     (case w of (handle, st) \<Rightarrow>
      (case api x (on_thread k) c st of (result, st1) \<Rightarrow> do {
        (r, st2) \<leftarrow> status_reply x k (status_read result) st1;
        Some (r, handle, st2)
      }))"

fun commandLoop ::
  "external \<Rightarrow> ((string \<times> json) list \<Rightarrow> rstr) \<Rightarrow> turn \<Rightarrow> command \<Rightarrow>
   u64 \<times> process \<Rightarrow> (reply \<times> u64 \<times> process) option" where
  "commandLoop x enc k (StartCommand configJson) w = start_turn x enc k configJson w"
| "commandLoop x enc k (ConnectCommand configJson) w = connect_turn x enc k configJson w"
| "commandLoop x enc k (OpenStreamCommand sessionId) w = open_stream_turn x k sessionId w"
| "commandLoop x enc k (SendCommand sessionId message reliable) w =
     simple_turn x k (SessionSend (fst w) sessionId (toNativeUtf8 message) (if reliable then 1 else 0)) w"
| "commandLoop x enc k (StreamSendCommand sessionId streamId message) w =
     simple_turn x k (StreamSend (fst w) sessionId streamId (toNativeUtf8 message)) w"
| "commandLoop x enc k (StreamCloseCommand sessionId streamId) w =
     simple_turn x k (StreamClose (fst w) sessionId streamId) w"
| "commandLoop x enc k StopCommand w =
     (case w of (handle, st) \<Rightarrow>
      (case api x (on_thread k) (ServerStop handle) st of (result, st1) \<Rightarrow>
         Some (StatusReply (status_read result) None, handle, st1)))"
| "commandLoop x enc k OtherCommand w =
     Some (StatusReply D_unrecognised (Some ''unknown command''), w)"

text \<open>Without a library every command is answered, and nothing is called.\<close>

definition commandLoop_unloaded :: "command \<Rightarrow> 'w \<Rightarrow> (reply \<times> 'w) option" where
  "commandLoop_unloaded c w = Some (StatusReply D_unsupported (Some ''no library''), w)"

section \<open>Reading and clearing the detail\<close>

text \<open>What a caller reads of a message: all of it, or the fixed text when it holds a NUL.\<close>

definition readable :: "rstr \<Rightarrow> rstr" where
  "readable m = (if NUL \<in> set m then NUL_REPLACEMENT else m)"

lemma takeLastError_spec:
  assumes "ffi_wf st"
  shows "\<exists>st'. takeLastError t st = Some (map_option readable (last_error st t), st') \<and>
    map_of (heap st') = map_of (heap st) \<and> last_error st' = (last_error st)(t := None) \<and> ffi_wf st' \<and>
    cells_u64 st' = cells_u64 st \<and> cells_u16 st' = cells_u16 st \<and> cells_ptr st' = cells_ptr st \<and>
    ffi_state.more st' = ffi_state.more st"
proof (cases "last_error st t")
  case None
  then have "last_error st = (last_error st)(t := None)" by (simp add: fun_eq_iff)
  with None assms show ?thesis
    by (simp add: takeLastError_def rk_quic_last_error_def clear_last_error_def ffi_wf_def)
next
  case (Some m)
  let ?st0 = "clear_last_error t st"
  obtain p st1 where io: "into_owned_c_string m ?st0 = (p, st1)" by fastforce
  from io have p: "p = next_ptr st" and hp: "heap st1 = AList.update p (readable m @ [NUL]) (heap st)"
    by (auto simp: into_owned_c_string_def Let_def readable_def)
  from assms p have nz: "p \<noteq> 0" and fresh: "map_of (heap st) p = None"
    by (auto simp: ffi_wf_def ffi_wf_fresh)
  have rd: "c_read (readable m @ [NUL]) = Some (readable m)"
    using c_read_terminated [of "readable m" "[]"] NUL_not_in_replacement by (simp add: readable_def)
  let ?st2 = "st1\<lparr>heap := AList.delete p (heap st1)\<rparr>"
  have free: "rk_quic_string_free p st1 = Some ?st2" using nz by (simp add: rk_quic_string_free_def hp)
  have "takeLastError t st = Some (Some (readable m), ?st2)"
    using Some io nz free by (simp add: takeLastError_def rk_quic_last_error_def toDartString_def hp rd)
  moreover have "map_of (heap ?st2) = map_of (heap st)"
    using fresh by (simp add: hp tab.drop_put_cancels)
  moreover have "ffi_wf ?st2"
    using ffi_wf_free [OF _ free] ffi_wf_into_owned [of ?st0 m] assms io by simp
  ultimately show ?thesis
    using Some io into_owned_frame [of m ?st0]
    by (simp add: clear_last_error_def)
qed

section \<open>What a native call leaves\<close>

fun is_poll :: "api_call \<Rightarrow> bool" where
  "is_poll (ServerPoll _ _ _ _) = True"
| "is_poll _ = False"

lemma calloc_frame [simp]:
  "ffi_wf (calloc_u64 p st) = ffi_wf st" "ffi_wf (calloc_u16 p st) = ffi_wf st"
  "ffi_wf (free_u64 p st) = ffi_wf st" "ffi_wf (free_u16 p st) = ffi_wf st"
  "heap (calloc_u64 p st) = heap st" "heap (calloc_u16 p st) = heap st"
  "heap (free_u64 p st) = heap st" "heap (free_u16 p st) = heap st"
  "last_error (calloc_u64 p st) = last_error st" "last_error (calloc_u16 p st) = last_error st"
  "last_error (free_u64 p st) = last_error st" "last_error (free_u16 p st) = last_error st"
  "registry (calloc_u64 p st) = registry st" "registry (calloc_u16 p st) = registry st"
  "registry (free_u64 p st) = registry st" "registry (free_u16 p st) = registry st"
  "arcs (calloc_u64 p st) = arcs st" "arcs (calloc_u16 p st) = arcs st"
  "arcs (free_u64 p st) = arcs st" "arcs (free_u16 p st) = arcs st"
  by (simp_all add: calloc_u64_def calloc_u16_def free_u64_def free_u16_def)

lemma same_boundary:
  assumes "ffi_state.truncate st' = ffi_state.truncate st"
  shows "heap st' = heap st" "cells_u64 st' = cells_u64 st" "cells_u16 st' = cells_u16 st"
    "last_error st' = last_error st"
  using assms by (simp_all add: ffi_state.truncate_def)

lemmas boundary_steps =
  boundary_lookup [THEN same_boundary(1)] boundary_remove [THEN same_boundary(1)]
  boundary_start [THEN same_boundary(1)] boundary_connect [THEN same_boundary(1)]
  boundary_open_stream [THEN same_boundary(1)]
  boundary_lookup [THEN same_boundary(2)] boundary_remove [THEN same_boundary(2)]
  boundary_start [THEN same_boundary(2)] boundary_connect [THEN same_boundary(2)]
  boundary_open_stream [THEN same_boundary(2)]
  boundary_lookup [THEN same_boundary(3)] boundary_remove [THEN same_boundary(3)]

lemma call_keeps_heap: "\<not> is_poll c \<Longrightarrow> heap (snd (api x t c st)) = heap st"
  by (cases c)
    (auto simp: rk_quic_server_start_def rk_quic_server_stop_def rk_quic_server_local_port_def
      rk_quic_session_send_def rk_quic_stream_send_def rk_quic_stream_close_def
      rk_quic_client_connect_def rk_quic_client_open_stream_def Let_def
      dest: boundary_steps
      split: option.splits sum.splits prod.splits outcome.splits)

lemma cell_written: "map_of cells p \<noteq> None \<Longrightarrow> map_of (write_out q v cells) p \<noteq> None"
  by (simp add: map_of_write_out)

lemma start_cell:
  assumes "map_of (cells_u64 st) p \<noteq> None"
  shows "map_of (cells_u64 (snd (api x t (ServerStart json out) st))) p \<noteq> None"
    "map_of (cells_u64 (snd (api x t (ClientConnect json out out') st))) p \<noteq> None"
    "map_of (cells_u64 (snd (api x t (ClientOpenStream h sid out) st))) p \<noteq> None"
  using assms cell_written [of "cells_u64 st" p]
  by (auto simp: rk_quic_server_start_def rk_quic_client_connect_def rk_quic_client_open_stream_def Let_def
      map_of_write_out dest: boundary_steps split: option.splits sum.splits prod.splits outcome.splits)

lemma port_cell:
  assumes "map_of (cells_u16 st) p \<noteq> None"
  shows "map_of (cells_u16 (snd (api x t (ServerLocalPort h out) st))) p \<noteq> None"
  using assms
  by (auto simp: rk_quic_server_local_port_def map_of_write_out dest: boundary_steps
      split: option.splits prod.splits)

lemma calloc_cells [simp]:
  "map_of (cells_u64 (calloc_u64 p st)) q = (if q = p then Some 0 else map_of (cells_u64 st) q)"
  "map_of (cells_u16 (calloc_u16 p st)) q = (if q = p then Some 0 else map_of (cells_u16 st) q)"
  by (simp_all add: calloc_u64_def calloc_u16_def tab.find_put)

lemma clears_detail:
  "last_error (snd (api x t (ServerStop h) st)) t = None"
  "last_error (snd (api x t (ServerLocalPort h out) st)) t = None"
  by (auto simp: rk_quic_server_stop_def rk_quic_server_local_port_def dest!: same_detail
      split: prod.splits option.splits)

lemma status_read_ok: "status_read (as_c_str s) = D_ok \<longleftrightarrow> s = StatusOk"
proof -
  have "c_read (as_c_str s) = Some (plain_name s)" using c_read_as_c_str [of s "[]"] by simp
  then show ?thesis
    by (cases s) (simp_all add: status_read_def statusFromWireName_def plain_name_def RkQuicStatus_values_def)
qed

lemma others_frame:
  assumes "ffi_wf st"
  shows "ffi_wf (others x k st)"
    "\<forall>(t, c) \<in> set (meanwhile k). t \<noteq> on_thread k \<Longrightarrow>
       last_error (others x k st) (on_thread k) = last_error st (on_thread k)"
  using assms api.run_keeps_wf api.run_keeps_detail unfolding others_def by blast+

section \<open>Every command is answered for itself\<close>

text \<open>The cells a command allocates before its call, the call, and what it makes of an \<open>ok\<close>.\<close>

fun prepared :: "turn \<Rightarrow> command \<Rightarrow> process \<Rightarrow> process" where
  "prepared k (StartCommand _) st = calloc_u64 (cell1 k) st"
| "prepared k (ConnectCommand _) st = calloc_u64 (cell2 k) (calloc_u64 (cell1 k) st)"
| "prepared k (OpenStreamCommand _) st = calloc_u64 (cell1 k) st"
| "prepared k _ st = st"

fun native_call :: "((string \<times> json) list \<Rightarrow> rstr) \<Rightarrow> turn \<Rightarrow> u64 \<Rightarrow> command \<Rightarrow> api_call option" where
  "native_call enc k h (StartCommand m) = Some (ServerStart (toNativeUtf8 (enc m)) (cell1 k))"
| "native_call enc k h (ConnectCommand m) = Some (ClientConnect (toNativeUtf8 (enc m)) (cell1 k) (cell2 k))"
| "native_call enc k h (OpenStreamCommand s) = Some (ClientOpenStream h s (cell1 k))"
| "native_call enc k h (SendCommand s m r) = Some (SessionSend h s (toNativeUtf8 m) (if r then 1 else 0))"
| "native_call enc k h (StreamSendCommand s q m) = Some (StreamSend h s q (toNativeUtf8 m))"
| "native_call enc k h (StreamCloseCommand s q) = Some (StreamClose h s q)"
| "native_call enc k h StopCommand = Some (ServerStop h)"
| "native_call enc k h OtherCommand = None"

fun delivers :: "turn \<Rightarrow> (ptr, u64) table \<Rightarrow> command \<Rightarrow> u64 \<Rightarrow> u64 \<times> reply \<Rightarrow> bool" where
  "delivers k cells (StartCommand _) h (h', r) \<longleftrightarrow>
     map_of cells (cell1 k) = Some h' \<and> (\<exists>port. r = StartedReply h' port)"
| "delivers k cells (ConnectCommand _) h (h', r) \<longleftrightarrow>
     map_of cells (cell1 k) = Some h' \<and> (\<exists>s. map_of cells (cell2 k) = Some s \<and> r = ConnectedReply h' s)"
| "delivers k cells (OpenStreamCommand _) h (h', r) \<longleftrightarrow>
     h' = h \<and> (\<exists>q. map_of cells (cell1 k) = Some q \<and> r = StreamOpenedReply q)"
| "delivers k cells _ h (h', r) \<longleftrightarrow> h' = h \<and> r = StatusReply D_ok None"

lemma status_reply_ok [simp]: "status_reply x k D_ok st = Some (StatusReply D_ok None, st)"
  by (simp add: status_reply_def)

lemma status_reply_failed:
  assumes "ffi_wf st" "status \<noteq> D_ok" "\<forall>(t, c) \<in> set (meanwhile k). t \<noteq> on_thread k"
  shows "\<exists>st'. status_reply x k status st =
      Some (StatusReply status (map_option readable (last_error st (on_thread k))), st') \<and>
    ffi_wf st' \<and> last_error st' (on_thread k) = None \<and> map_of (heap st') = map_of (heap (others x k st))"
proof -
  note o = others_frame [OF assms(1), where x = x and k = k]
  from takeLastError_spec [OF o(1), of "on_thread k"] o(2) [OF assms(3)] assms(2) show ?thesis
    by (auto simp: status_reply_def)
qed

text \<open>What a turn owes: the answer of its call, which left \<open>st1\<close>, as its reply.\<close>

definition answered ::
  "external \<Rightarrow> turn \<Rightarrow> command \<Rightarrow> u64 \<Rightarrow> process \<Rightarrow> string \<Rightarrow> process \<Rightarrow>
   (reply \<times> u64 \<times> process) option \<Rightarrow> bool" where
  "answered x k c h st result st1 out \<longleftrightarrow> (\<exists>r h' st'. out = Some (r, h', st') \<and>
    (if status_read result = D_ok then delivers k (cells_u64 st1) c h (h', r)
     else h' = h \<and> r = StatusReply (status_read result)
       (if c = StopCommand then None else map_option readable (last_error st1 (on_thread k)))) \<and>
    last_error st' (on_thread k) = None \<and> ffi_wf st' \<and>
    map_of (heap st') \<in> {map_of (heap st), map_of (heap (others x k st1))})"

lemma api_left:
  assumes "ffi_wf st" "\<not> is_poll call" "api x t call st = (result, st1)"
  shows "ffi_wf st1" "heap st1 = heap st" "status_read result = D_ok \<Longrightarrow> last_error st1 t = None"
proof -
  show "ffi_wf st1" using api.keeps_wf [OF assms(1), where x = x and t = t and c = call] assms(3) by simp
  show "heap st1 = heap st" using call_keeps_heap [OF assms(2), of x t st] assms(3) by simp
  obtain s where "result = as_c_str s" using api_status [of x t call st] assms(3) by auto
  then show "last_error st1 t = None" if "status_read result = D_ok"
    using that ok_no_detail assms(3) by (simp add: status_read_ok)
qed

lemma simple_answered:
  assumes wf: "ffi_wf st" and elsewhere: "\<forall>(t, c') \<in> set (meanwhile k). t \<noteq> on_thread k"
    and c: "api x (on_thread k) call st = (result, st1)" "\<not> is_poll call" "c \<noteq> StopCommand"
    and d: "delivers k (cells_u64 st1) c h (h, StatusReply D_ok None)"
  shows "answered x k c h st result st1 (simple_turn x k call (h, st))"
proof (cases "status_read result = D_ok")
  case True
  with c d api_left [OF wf c(2,1)] show ?thesis
    by (auto simp: answered_def simple_turn_def simp del: api.simps)
next
  case False
  from status_reply_failed [OF api_left(1) [OF wf c(2,1)] False elsewhere, of x] False c show ?thesis
    by (auto simp: answered_def simple_turn_def simp del: api.simps)
qed

lemma stop_answered:
  assumes wf: "ffi_wf st" and elsewhere: "\<forall>(t, c') \<in> set (meanwhile k). t \<noteq> on_thread k"
    and c: "api x (on_thread k) (ServerStop h) st = (result, st1)"
  shows "answered x k StopCommand h st result st1 (Some (StatusReply (status_read result) None, h, st1))"
  using api_left(1,2) [OF wf _ c] c clears_detail(1) [of x "on_thread k" h st]
  by (auto simp: answered_def simp del: api.simps)

lemma open_answered:
  assumes wf: "ffi_wf st" and elsewhere: "\<forall>(t, c') \<in> set (meanwhile k). t \<noteq> on_thread k"
    and c: "api x (on_thread k) (ClientOpenStream h sid (cell1 k)) (calloc_u64 (cell1 k) st) = (result, st1)"
  shows "answered x k (OpenStreamCommand sid) h st result st1 (open_stream_turn x k sid (h, st))"
proof (cases "status_read result = D_ok")
  case True
  have "map_of (cells_u64 st1) (cell1 k) \<noteq> None"
    using start_cell(3) [of "calloc_u64 (cell1 k) st" "cell1 k" x "on_thread k" h sid "cell1 k"] c
    by (auto simp del: api.simps)
  with True c api_left [OF _ _ c] wf show ?thesis
    by (auto simp: answered_def open_stream_turn_def simp del: api.simps)
next
  case False
  from status_reply_failed [OF api_left(1) [OF _ _ c] False elsewhere, of x] False c wf show ?thesis
    by (auto simp: answered_def open_stream_turn_def simp del: api.simps)
qed

lemma connect_answered:
  assumes wf: "ffi_wf st" and elsewhere: "\<forall>(t, c') \<in> set (meanwhile k). t \<noteq> on_thread k"
    and c: "api x (on_thread k) (ClientConnect json (cell1 k) (cell2 k))
    (calloc_u64 (cell2 k) (calloc_u64 (cell1 k) st)) = (result, st1)" and j: "json = toNativeUtf8 (enc m)"
  shows "answered x k (ConnectCommand m) h st result st1 (connect_turn x enc k m (h, st))"
proof (cases "status_read result = D_ok")
  case True
  have "map_of (cells_u64 st1) (cell1 k) \<noteq> None" "map_of (cells_u64 st1) (cell2 k) \<noteq> None"
    using start_cell(2) [of "calloc_u64 (cell2 k) (calloc_u64 (cell1 k) st)" _ x "on_thread k" json "cell1 k" "cell2 k"] c
    by (auto simp del: api.simps)
  with True c j api_left [OF _ _ c] wf show ?thesis
    by (auto simp: answered_def connect_turn_def simp del: api.simps)
next
  case False
  from status_reply_failed [OF api_left(1) [OF _ _ c] False elsewhere, of x] False c j wf show ?thesis
    by (auto simp: answered_def connect_turn_def simp del: api.simps)
qed

lemma start_answered:
  assumes wf: "ffi_wf st" and elsewhere: "\<forall>(t, c') \<in> set (meanwhile k). t \<noteq> on_thread k"
    and c: "api x (on_thread k) (ServerStart json (cell1 k)) (calloc_u64 (cell1 k) st) = (result, st1)"
    and j: "json = toNativeUtf8 (enc m)"
  shows "answered x k (StartCommand m) h st result st1 (start_turn x enc k m (h, st))"
proof (cases "status_read result = D_ok")
  case True
  have "map_of (cells_u64 st1) (cell1 k) \<noteq> None"
    using start_cell(1) [of "calloc_u64 (cell1 k) st" "cell1 k" x "on_thread k" json "cell1 k"] c
    by (auto simp del: api.simps)
  then obtain started where started: "map_of (cells_u64 st1) (cell1 k) = Some started" by blast
  let ?st2 = "calloc_u16 (cell2 k) (others x k st1)"
  let ?st3 = "snd (api x (on_thread k) (ServerLocalPort started (cell2 k)) ?st2)"
  have "map_of (cells_u16 ?st3) (cell2 k) \<noteq> None" by (rule port_cell) simp
  then obtain port where port: "map_of (cells_u16 ?st3) (cell2 k) = Some port" by blast
  have "ffi_wf ?st2" using others_frame(1) [OF api_left(1) [OF _ _ c]] wf by simp
  then have "ffi_wf ?st3" by (rule api.keeps_wf)
  moreover have "heap ?st3 = heap (others x k st1)" by (simp add: call_keeps_heap del: api.simps)
  ultimately show ?thesis
    using True c j started port clears_detail(2)
    by (auto simp: answered_def start_turn_def simp del: api.simps)
next
  case False
  from status_reply_failed [OF api_left(1) [OF _ _ c] False elsewhere, of x] False c j wf show ?thesis
    by (auto simp: answered_def start_turn_def simp del: api.simps)
qed

lemma command_turn_answered:
  assumes "ffi_wf st" and "\<forall>(t, c') \<in> set (meanwhile k). t \<noteq> on_thread k"
    and "native_call enc k h c = Some call"
    and "api x (on_thread k) call (prepared k c st) = (result, st1)"
  shows "answered x k c h st result st1 (commandLoop x enc k c (h, st))"
proof -
  note turns = start_answered [OF assms(1,2)] connect_answered [OF assms(1,2)] open_answered [OF assms(1,2)]
    stop_answered [OF assms(1,2)] simple_answered [OF assms(1,2)]
  show ?thesis
    using assms(3,4) by (cases c) (auto simp del: api.simps intro!: turns split del: if_split)
qed



section \<open>Texts with a NUL\<close>

lemma borrow_cut:
  assumes "NUL \<notin> set a"
  shows "borrow_c_string (toNativeUtf8 (a @ NUL # b)) = borrow_c_string (toNativeUtf8 a)"
  using c_read_terminated [OF assms, of "b @ [NUL]"] c_read_terminated [OF assms, of "[]"]
  by (simp add: borrow_c_string_def toNativeUtf8_def)

text \<open>
  A text is sent up to its first NUL and no further, and the caller is not told: sending a text
  with a NUL, to a session or into a stream, is in every respect, answer, reply and what the network
  is asked, sending the part before it.
\<close>

lemma send_stops_at_nul:
  assumes "NUL \<notin> set a"
  shows "commandLoop x enc k (SendCommand sessionId (a @ NUL # b) reliable) w =
      commandLoop x enc k (SendCommand sessionId a reliable) w \<and>
    commandLoop x enc k (StreamSendCommand sessionId streamId (a @ NUL # b)) w =
      commandLoop x enc k (StreamSendCommand sessionId streamId a) w"
  by (cases w) (simp add: simple_turn_def rk_quic_session_send_def rk_quic_stream_send_def borrow_cut [OF assms])

lemma send_stops_at_nul_witness:
  "commandLoop calm (\<lambda>_. []) k (SendCommand 1 ([CHR ''a''] @ NUL # ''b'') True) w =
     commandLoop calm (\<lambda>_. []) k (SendCommand 1 ''a'' True) w"
proof -
  have "NUL \<notin> set ''a''" by code_simp
  from send_stops_at_nul [OF this, of calm "\<lambda>_. []" k 1 "''b''" True w] show ?thesis by simp
qed

end
