(* ===== verification/RkPoller.thy ===== *)
theory RkPoller
  imports RkWhole RkBindings RkServed
begin

text \<open>
  The poll loop of \<open>lib/src/endpoint_io.dart\<close>, run on an isolate of its own beside everything else
  the process does, and what reaches the application: the texts the loop posts, read as events by
  \<open>QuicEvent.fromJson\<close>.
\<close>

section \<open>What a call does to the queue of another endpoint\<close>

definition queue_of :: "'a process_scheme \<Rightarrow> nat \<Rightarrow> channel mutex" where
  "queue_of st a = events (endpoint (arc_at st a))"

lemma pending_queue: "pending st a = buf (guarded (queue_of st a))"
  by (simp add: pending_def queue_of_def)

lemma body_queue: "body st' a = body st a \<Longrightarrow> queue_of st' a = queue_of st a"
  by (simp add: body_def queue_of_def)

lemma queue_frame [simp]:
  "queue_of (arc_clone b st) a = queue_of st a"
  "queue_of (set_endpoint b ep st) a = (if a = b then events ep else queue_of st a)"
  "queue_of (set_arc b r st) a = (if a = b then events (endpoint r) else queue_of st a)"
  "queue_of (st\<lparr>trace := tr\<rparr>) a = queue_of st a"
  "queue_of (clear_last_error t st) a = queue_of st a" "queue_of (set_last_error t m st) a = queue_of st a"
  by (simp_all add: queue_of_def set_endpoint_def)

lemma queue_same: "arcs st' = arcs st \<Longrightarrow> queue_of st' a = queue_of st a"
  by (simp add: queue_of_def arc_at_def)

lemma queue_drop: "live (arc_drop b st) a \<Longrightarrow> queue_of (arc_drop b st) a = queue_of st a"
  using drop_keeps body_queue by blast

fun reads_at :: "process \<Rightarrow> api_call \<Rightarrow> nat option" where
  "reads_at st (ServerPoll h ms out arrival) = reg st h"
| "reads_at st _ = None"

lemma look_queue:
  assumes "arcs_wf held st" "lookup h (clear_last_error t st) = (r, st2)"
  shows "queue_of st2 a = queue_of st a" "r = Some b \<Longrightarrow> reg st h = Some b"
proof -
  have wf: "arcs_wf held (clear_last_error t st)" using assms(1) by simp
  show "queue_of st2 a = queue_of st a" "r = Some b \<Longrightarrow> reg st h = Some b"
    using assms(2) lock_registry [OF wf]
    by (auto simp: lookup_def reg_def clear_last_error_def split: option.splits)
      (simp_all add: queue_of_def arc_at_def)
qed

lemma stream_close_events: "stream_close x ep sid stream tr = (r, ep', tr') \<Longrightarrow> events ep' = events ep"
  using stream_close_queue [of x ep sid stream tr] by simp

lemma open_on_queue:
  assumes "open_stream_on x b sid st = (r, st')"
  shows "queue_of st' a = queue_of st a"
  using assms
  by (auto simp: open_stream_on_def Let_def queue_of_def split: option.splits sum.splits prod.splits)

lemma queue_updates [simp]:
  "queue_of (st\<lparr>cells_u64 := c1\<rparr>) a = queue_of st a" "queue_of (st\<lparr>cells_u16 := c2\<rparr>) a = queue_of st a"
  "queue_of (st\<lparr>cells_ptr := c3\<rparr>) a = queue_of st a" "queue_of (st\<lparr>registry := rg\<rparr>) a = queue_of st a"
  by (simp_all add: queue_of_def arc_at_def)

lemma live_updates [simp]:
  "live (st\<lparr>cells_u64 := c1\<rparr>) a = live st a" "live (st\<lparr>cells_u16 := c2\<rparr>) a = live st a"
  "live (st\<lparr>cells_ptr := c3\<rparr>) a = live st a"
  by (simp_all add: live_def)

lemma queue_into_owned: "into_owned_c_string v st = (p, st') \<Longrightarrow> queue_of st' a = queue_of st a"
  by (auto simp: into_owned_c_string_def Let_def intro!: queue_same)

lemma poll_elsewhere:
  assumes wf: "arcs_wf held st" and l: "live (snd (rk_quic_server_poll x t h ms out None st)) a" and r: "reg st h \<noteq> Some a"
  shows "queue_of (snd (rk_quic_server_poll x t h ms out None st)) a = queue_of st a"
proof -
  let ?st1 = "(clear_last_error t st)\<lparr>cells_ptr := write_out out 0 (cells_ptr st)\<rparr>"
  obtain res st2 where look: "lookup h ?st1 = (res, st2)" by fastforce
  have same: "arcs ?st1 = arcs st" "next_arc ?st1 = next_arc st" "registry ?st1 = registry st" by simp_all
  have wf1: "arcs_wf held ?st1" using arcs_wf_frame [OF same(3,1,2)] wf by simp
  have q2: "queue_of st2 a = queue_of st a" and b: "res = Some b \<Longrightarrow> reg st h = Some b" for b
    using look lock_registry [OF wf1] by (auto simp: lookup_def reg_def split: option.splits)
  show ?thesis
  proof (cases res)
    case None
    with look q2 show ?thesis by (simp add: rk_quic_server_poll_def Let_def)
  next
    case (Some c)
    with b r have "c \<noteq> a" by auto
    with look Some q2 l show ?thesis
      by (auto simp: rk_quic_server_poll_def Let_def queue_drop queue_into_owned
          split: option.splits prod.splits sum.splits)
  qed
qed

lemma call_elsewhere:
  assumes wf: "arcs_wf held st" and ok: "call_ok opens c st" and r: "reads_at st c \<noteq> Some a"
    and l: "live (snd (api x t c st)) a" and a: "a \<noteq> next_arc st"
  shows "queue_of (snd (api x t c st)) a = queue_of st a"
proof -
  have grown: "queue_of st' a = queue_of st a" if "grows st st'" "live st' a" for st'
    using that a unfolding grows_def adds_def by (metis body_queue)
  note look = look_queue(1) [OF wf, where a = a] and opened = open_on_queue [where a = a]
  show ?thesis
  proof (cases c)
    case (ServerStart j out)
    with l start_call_adds [OF wf] grown show ?thesis by simp
  next
    case (ClientConnect j oh os)
    with l connect_call_adds [OF wf] grown show ?thesis by simp
  next
    case (ServerPoll h ms out arrival)
    with poll_elsewhere [OF wf, of x t h ms out a] l r ok show ?thesis by simp
  next
    case (ServerStop h)
    with l show ?thesis
      by (auto simp: rk_quic_server_stop_def remove_def Let_def queue_drop
          split: option.splits prod.splits)
  next
    case (ServerLocalPort h out)
    with l show ?thesis
      by (auto simp: rk_quic_server_local_port_def queue_drop dest!: look split: option.splits prod.splits)
  next
    case (SessionSend h sid p rel)
    with l show ?thesis
      by (auto simp: rk_quic_session_send_def Let_def queue_drop dest!: look split: option.splits prod.splits)
  next
    case (StreamSend h sid s p)
    with l show ?thesis
      by (auto simp: rk_quic_stream_send_def Let_def queue_drop dest!: look split: option.splits prod.splits)
  next
    case (StreamClose h sid s)
    with l show ?thesis
      by (auto simp: rk_quic_stream_close_def queue_drop simp flip: queue_of_def
          dest!: look stream_close_events split: option.splits prod.splits)
  next
    case (ClientOpenStream h sid out)
    with l show ?thesis
      by (auto simp: rk_quic_client_open_stream_def open_stream_def queue_drop
          dest!: look opened split: option.splits prod.splits sum.splits)
  qed
qed

text \<open>A handle comes to name an endpoint only when the endpoint is made.\<close>

lemma register_names:
  assumes "arcs_wf held st" "register g r st = (res, st')" "reg st' h = Some a" "a \<noteq> next_arc st"
  shows "reg st h = Some a"
  using register_handles [OF assms(1,2)] assms(3,4) by (auto split: if_splits)

lemma start_names:
  assumes wf: "arcs_wf held st" and "start x cfg st = (r, st')" "reg st' h = Some a" "a \<noteq> next_arc st"
  shows "reg st h = Some a"
proof -
  have some: "reg st h = Some a"
    if "register g rr (st\<lparr>trace := tr, handle_counter := n\<rparr>) = (res, st')" for g rr tr n res
    using register_names [OF _ that assms(3), of held] wf assms(4) by (simp add: reg_def)
  show ?thesis
    using assms(2,3) some
    by (auto simp: start_def next_handle_def Let_def reg_def split: sum.splits prod.splits if_splits)
qed

lemma connect_names:
  assumes wf: "arcs_wf held st" and "connect x cfg st = (r, st')" "reg st' h = Some a" "a \<noteq> next_arc st"
  shows "reg st h = Some a"
proof -
  have some: "reg st h = Some a"
    if "register g rr (st\<lparr>trace := tr, handle_counter := n\<rparr>) = (res, st')" for g rr tr n res
    using register_names [OF _ that assms(3), of held] wf assms(4) by (simp add: reg_def)
  show ?thesis
    using assms(2,3) some
    by (auto simp: connect_def next_handle_def Let_def reg_def split: sum.splits prod.splits if_splits)
qed

lemma call_names:
  assumes wf: "arcs_wf held st" and r: "reg (snd (api x t c st)) h = Some a" and a: "a \<noteq> next_arc st"
  shows "reg st h = Some a"
proof -
  have same: "reg st h = Some a" if "registry (snd (api x t c st)) = registry st"
    using r that by (simp add: reg_def)
  have wf0: "arcs_wf held (clear_last_error t st)" using wf by simp
  show ?thesis
  proof (cases c)
    case (ServerStart j out)
    have "reg st h = Some a" if "start x cfg (clear_last_error t st) = (res, st')" "reg st' h = Some a" for cfg res st'
      using start_names [OF wf0 that] a by simp
    with ServerStart r show ?thesis
      by (auto simp: rk_quic_server_start_def Let_def reg_def split: option.splits sum.splits prod.splits)
  next
    case (ClientConnect j oh os)
    have "reg st h = Some a" if "connect x cfg (clear_last_error t st) = (res, st')" "reg st' h = Some a" for cfg res st'
      using connect_names [OF wf0 that] a by simp
    with ClientConnect r show ?thesis
      by (auto simp: rk_quic_client_connect_def Let_def reg_def
          split: option.splits sum.splits prod.splits outcome.splits)
  next
    case (ServerStop g)
    have "reg st h = Some a" if "remove g (clear_last_error t st) = (res, st')" "reg st' h = Some a" for res st'
      using that
      by (auto simp: remove_def lock_registry [OF wf] Let_def reg_def delete_conv' split: option.splits if_splits)
    with ServerStop r show ?thesis by (auto simp: rk_quic_server_stop_def split: prod.splits)
  qed (rule same,
    auto simp: rk_quic_server_local_port_def rk_quic_server_poll_def rk_quic_session_send_def
      rk_quic_stream_send_def rk_quic_stream_close_def rk_quic_client_open_stream_def Let_def
      dest!: lookup_handles into_owned_handles open_stream_handles split: prod.splits option.splits sum.splits)+
qed

section \<open>The loop\<close>

text \<open>How long one native call waits, in milliseconds.\<close>

definition pollSlice :: u32 where
  "pollSlice = 200"

text \<open>
  One turn of the loop: the text it posts, if any, and whether the loop goes on. A turn that waits is
  the turn once an event is there.
\<close>

definition poll_turn ::
  "external \<Rightarrow> thread \<Rightarrow> u64 \<Rightarrow> ptr \<Rightarrow> process \<Rightarrow> (rstr option \<times> bool \<times> process) option" where
  "poll_turn x t handle out st =
     (case api x t (ServerPoll handle pollSlice out None) st of (result, st1) \<Rightarrow>
        if status_read result = D_ok then do {
          pointer \<leftarrow> map_of (cells_ptr st1) out;
          if pointer \<noteq> 0 then do {
            json \<leftarrow> toDartString pointer st1;
            st2 \<leftarrow> rk_quic_string_free pointer st1;
            Some (Some json, True, st2\<lparr>cells_ptr := AList.update out 0 (cells_ptr st2)\<rparr>)
          } else Some (None, True, st1)
        }
        else Some (None, status_read result = D_wouldBlock, st1))"

text \<open>What a turn does on every branch.\<close>

lemma status_read_names:
  "status_read (as_c_str StatusOk) = D_ok" "status_read (as_c_str WouldBlock) = D_wouldBlock"
  "status_read (as_c_str UnknownHandle) = D_unknownHandle" "status_read (as_c_str Panic) = D_panic"
  by code_simp+

lemma poll_turn_gone:
  assumes "arcs_wf held st" "reg st h = None"
  shows "\<exists>st'. poll_turn x t h out st = Some (None, False, st') \<and> heap st' = heap st \<and> arcs st' = arcs st \<and>
    registry st' = registry st \<and> next_arc st' = next_arc st \<and> next_ptr st' = next_ptr st"
proof -
  let ?st1 = "(clear_last_error t st)\<lparr>cells_ptr := write_out out 0 (cells_ptr st)\<rparr>"
  have "lookup h ?st1 = (None, ?st1)" by (rule lookup_gone [of held]) (use assms in simp_all)
  then show ?thesis
    by (simp add: poll_turn_def rk_quic_server_poll_def Let_def status_read_names)
qed

definition event_text :: "external \<Rightarrow> Event \<Rightarrow> rstr" where
  "event_text x e = (case x_json_to_string x (event_object e) of Inr json \<Rightarrow> readable json | Inl _ \<Rightarrow> [])"

lemma poll_registry: "registry (snd (rk_quic_server_poll x t h ms out arrival st)) = registry st"
  by (auto simp: rk_quic_server_poll_def Let_def dest!: lookup_handles into_owned_handles
      split: prod.splits option.splits sum.splits)

lemma poll_turn_named:
  assumes "arcs_wf held st" and "ffi_wf st" and "reg st h = Some a" and "out \<noteq> 0"
  shows "\<exists>sent go st'. poll_turn x t h out st = Some (sent, go, st') \<and> map_of (heap st') = map_of (heap st) \<and>
    ffi_wf st' \<and> ffi_state.more st' = ffi_state.more (snd (rk_quic_server_poll x t h pollSlice out None st)) \<and>
    (case pending st a of
       [] \<Rightarrow> sent = None \<and> go \<and> pending st' a = []
     | e # rest \<Rightarrow> pending st' a = rest \<and>
         (case x_json_to_string x (event_object e) of
            Inr _ \<Rightarrow> sent = Some (event_text x e) \<and> go | Inl _ \<Rightarrow> sent = None \<and> \<not> go))"
proof -
  obtain result st1 where s: "rk_quic_server_poll x t h pollSlice out None st = (result, st1)" by fastforce
  note o = poll_oldest [OF assms s]
  have wf1: "ffi_wf st1" using api.keeps_wf [OF assms(2), of x t "ServerPoll h pollSlice out None"] s by simp
  show ?thesis
  proof (cases "pending st a")
    case Nil
    with o s wf1 show ?thesis by (auto simp: poll_turn_def status_read_names)
  next
    case (Cons e rest)
    show ?thesis
    proof (cases "x_json_to_string x (event_object e)")
      case (Inl why)
      with o Cons s wf1 show ?thesis by (auto simp: poll_turn_def status_read_names)
    next
      case (Inr json)
      with o Cons obtain p mem where p: "result = as_c_str StatusOk" "pending st1 a = rest" "p \<noteq> 0"
        "map_of (heap st) p = None" "map_of (cells_ptr st1) out = Some p"
        "heap st1 = AList.update p mem (heap st)" "c_read mem = Some (readable json)"
        by (auto simp: readable_def)
      let ?st2 = "st1\<lparr>heap := AList.delete p (heap st1)\<rparr>"
      have free: "rk_quic_string_free p st1 = Some ?st2" using p by (simp add: rk_quic_string_free_def)
      then have "ffi_wf ?st2" by (rule ffi_wf_free [OF wf1])
      moreover have "map_of (heap ?st2) = map_of (heap st)" using p by (simp add: tab.drop_put_cancels)
      ultimately show ?thesis
        using s p Cons Inr free
        by (auto simp: poll_turn_def status_read_names toDartString_def event_text_def pending_def arc_at_def)
    qed
  qed
qed

section \<open>The loop beside everything else\<close>

text \<open>
  A step of the process that does not read the queue of endpoint \<open>a\<close>: a call or a part of one in any
  thread, a move of any task, or whatever Dart and C code does with the memory at the boundary.
\<close>

inductive elsewhere :: "external \<Rightarrow> bool \<Rightarrow> nat \<Rightarrow> system \<Rightarrow> system \<Rightarrow> bool"
  for x :: external and opens :: bool and a :: nat where
  e_call: "call_ok opens c (proc s) \<Longrightarrow> reads_at (proc s) c \<noteq> Some a \<Longrightarrow>
     elsewhere x opens a s (after_call x t c s)"
| e_move: "may_move s b m \<Longrightarrow> make_move x (opening_ok opens (proc s) b) m (node_at s b) = Some n \<Longrightarrow>
     (\<And>d. b = a \<Longrightarrow> m \<noteq> Poll d) \<Longrightarrow> elsewhere x opens a s (put_node b n s)"
| e_begin: "lookup h (proc s) = (Some b, st) \<Longrightarrow>
     elsewhere x opens a s (s\<lparr>proc := st, in_use := b # in_use s\<rparr>)"
| e_end: "b \<in> set (in_use s) \<Longrightarrow>
     elsewhere x opens a s (s\<lparr>proc := arc_drop b (proc s), in_use := remove1 b (in_use s)\<rparr>)"
| e_memory: "ffi_wf st \<Longrightarrow> ffi_state.more st = ffi_state.more (proc s) \<Longrightarrow>
     elsewhere x opens a s (s\<lparr>proc := st\<rparr>)"

text \<open>
  The loop over endpoint \<open>a\<close> under handle \<open>h\<close>: \<open>heard\<close> are the texts it posted, \<open>listening\<close> tells
  whether it still runs. It starts where the endpoint has just been made and nothing was read; a
  turn finds the handle naming the endpoint, or nothing (handles are not reused).
\<close>

record poller =
  sys :: system
  heard :: "rstr list"
  listening :: bool

inductive pollLoop :: "external \<Rightarrow> bool \<Rightarrow> u64 \<Rightarrow> nat \<Rightarrow> poller \<Rightarrow> bool"
  for x :: external and opens :: bool and h :: u64 and a :: nat where
  loop_begin: "sys_reaches x opens s \<Longrightarrow> ffi_wf (proc s) \<Longrightarrow> reg (proc s) h = Some a \<Longrightarrow>
     told s a = pending (proc s) a \<Longrightarrow> pollLoop x opens h a \<lparr>sys = s, heard = [], listening = True\<rparr>"
| loop_beside: "pollLoop x opens h a p \<Longrightarrow> elsewhere x opens a (sys p) s \<Longrightarrow>
     pollLoop x opens h a (p\<lparr>sys := s\<rparr>)"
| loop_turn: "pollLoop x opens h a p \<Longrightarrow> listening p \<Longrightarrow> out \<noteq> 0 \<Longrightarrow>
     reg (proc (sys p)) h \<in> {Some a, None} \<Longrightarrow>
     poll_turn x t h out (proc (sys p)) = Some (sent, go, st) \<Longrightarrow>
     pollLoop x opens h a (p\<lparr>sys := (sys p)\<lparr>proc := st\<rparr>,
       heard := heard p @ (case sent of Some json \<Rightarrow> [json] | None \<Rightarrow> []), listening := go\<rparr>)"

text \<open>The texts of events that could be serialised.\<close>

definition posted :: "external \<Rightarrow> Event list \<Rightarrow> rstr list \<Rightarrow> bool" where
  "posted x got texts \<longleftrightarrow> texts = map (event_text x) got \<and>
     (\<forall>e \<in> set got. \<exists>json. x_json_to_string x (event_object e) = Inr json)"

text \<open>What the loop has posted, against what the endpoint has reported and what waits.\<close>

definition loop_inv :: "external \<Rightarrow> bool \<Rightarrow> u64 \<Rightarrow> nat \<Rightarrow> poller \<Rightarrow> bool" where
  "loop_inv x opens h a p \<longleftrightarrow>
     sys_inv x opens (sys p) \<and> ffi_wf (proc (sys p)) \<and> a < next_arc (proc (sys p)) \<and>
     (\<exists>got. posted x got (heard p) \<and> subseq got (told (sys p) a) \<and>
        (reg (proc (sys p)) h = Some a \<longrightarrow>
           subseq (got @ pending (proc (sys p)) a) (told (sys p) a) \<and>
           (listening p \<and> length (told (sys p) a) \<le> 1024 \<longrightarrow> got @ pending (proc (sys p)) a = told (sys p) a)))"

text \<open>What a step elsewhere does to what the loop will find.\<close>

definition feeds :: "u64 \<Rightarrow> nat \<Rightarrow> system \<Rightarrow> system \<Rightarrow> bool" where
  "feeds h a s s' \<longleftrightarrow> next_arc (proc s) \<le> next_arc (proc s') \<and> (\<exists>evs. told s' a = told s a @ evs \<and>
     (reg (proc s') h = Some a \<longrightarrow> reg (proc s) h = Some a \<and>
        pending (proc s') a = take 1024 (pending (proc s) a @ evs)))"

lemma more_same:
  fixes st st' :: process
  assumes "ffi_state.more st' = ffi_state.more st"
  shows "arcs st' = arcs st" "next_arc st' = next_arc st" "registry st' = registry st"
  using assms by (cases st; cases st'; simp)+

lemma short_queue:
  assumes "sys_inv x opens s" "live (proc s) a"
  shows "take 1024 (pending (proc s) a) = pending (proc s) a"
proof -
  from assms have "hosted x opens (node_at s a)" by (simp add: sys_inv_def)
  from hosted_ep_wf [OF this] have "ep_wf (endpoint (arc_at (proc s) a))" by (simp add: node_at_def)
  then show ?thesis by (simp add: ep_wf_def pending_def EVENT_QUEUE_DEPTH_def)
qed

lemma keeps_arc_count:
  "lookup h st = (r, st') \<Longrightarrow> next_arc st' = next_arc st"
  "remove h st = (r', st') \<Longrightarrow> next_arc st' = next_arc st"
  "open_stream_on x b sid st = (r'', st') \<Longrightarrow> next_arc st' = next_arc st"
  "into_owned_c_string v st = (p, st') \<Longrightarrow> next_arc st' = next_arc st"
  by (auto simp: lookup_def remove_def open_stream_on_def into_owned_c_string_def Let_def
      split: option.splits sum.splits prod.splits)

lemma register_arc_count: "register g r st = (res, st') \<Longrightarrow> next_arc st \<le> next_arc st'"
  by (auto simp: register_def arc_new_def Let_def split: option.splits)

lemma makes_arc_count:
  "start x cfg st = (r, st') \<Longrightarrow> next_arc st \<le> next_arc st'"
  "connect x ccfg st = (r', st') \<Longrightarrow> next_arc st \<le> next_arc st'"
  by (auto simp: start_def connect_def next_handle_def Let_def dest!: register_arc_count
      split: sum.splits prod.splits if_splits)

lemma call_arc_count: "next_arc st \<le> next_arc (snd (api x t c st))"
  by (cases c)
    (auto simp: rk_quic_server_start_def rk_quic_server_stop_def rk_quic_server_local_port_def
      rk_quic_server_poll_def rk_quic_session_send_def rk_quic_stream_send_def rk_quic_stream_close_def
      rk_quic_client_connect_def rk_quic_client_open_stream_def open_stream_def Let_def
      dest!: keeps_arc_count makes_arc_count split: option.splits sum.splits prod.splits outcome.splits)

lemma elsewhere_step: "elsewhere x opens a s s' \<Longrightarrow> sys_step x opens s s' \<or>
    (\<exists>st. s' = s\<lparr>proc := st\<rparr> \<and> ffi_wf st \<and> ffi_state.more st = ffi_state.more (proc s))"
  by (induction rule: elsewhere.induct) (auto intro: sys_step.intros)

lemma inv_memory:
  assumes "sys_inv x opens s" "ffi_state.more st = ffi_state.more (proc s)"
  shows "sys_inv x opens (s\<lparr>proc := st\<rparr>)"
proof -
  note same = more_same [OF assms(2)]
  have "node_at (s\<lparr>proc := st\<rparr>) b = node_at s b" for b
    using same(1) by (simp add: node_at_def arc_at_def)
  with assms(1) same arcs_wf_frame [OF same(3,1,2)] show ?thesis by (simp add: sys_inv_def live_def)
qed

lemma inv_elsewhere: "elsewhere x opens a s s' \<Longrightarrow> sys_inv x opens s \<Longrightarrow> sys_inv x opens s'"
  using elsewhere_step inv_step inv_memory by metis

lemma memory_elsewhere: "elsewhere x opens a s s' \<Longrightarrow> ffi_wf (proc s) \<Longrightarrow> ffi_wf (proc s')"
proof (induction rule: elsewhere.induct)
  case (e_call c s t)
  then show ?case using api.keeps_wf [of "proc s" x t c] by (simp add: after_call_def Let_def del: api.simps)
next
  case (e_begin h s b st)
  then show ?case by (auto simp: ffi_wf_def lookup_def split: option.splits)
qed (simp_all add: ffi_wf_def put_node_def)

lemma feeds_still:
  assumes inv: "sys_inv x opens s" and same: "told s' a = told s a" "next_arc (proc s') = next_arc (proc s)"
    "registry (proc s') = registry (proc s)" and q: "reg (proc s') h = Some a \<Longrightarrow> pending (proc s') a = pending (proc s) a"
  shows "feeds h a s s'"
proof -
  from inv have wf: "arcs_wf (in_use s) (proc s)" by (simp add: sys_inv_def)
  have r: "reg (proc s') h = reg (proc s) h" by (simp add: reg_def same(3))
  have "pending (proc s') a = take 1024 (pending (proc s) a)" if "reg (proc s) h = Some a"
    using q r that short_queue [OF inv, of a] registered_arc [OF wf that] by (simp add: live_def)
  with r same show ?thesis by (auto simp: feeds_def)
qed

lemma move_feeds:
  assumes inv: "sys_inv x opens s" and may: "may_move s a m" and np: "\<And>d. m \<noteq> Poll d"
    and move: "make_move x o' m (node_at s a) = Some n"
  shows "feeds h a s (put_node a n s)"
proof -
  have wf: "arcs_wf (in_use s) (proc s)" using inv by (simp add: sys_inv_def)
  from may_move_live [OF wf may] inv have "hosted x opens (node_at s a)" by (simp add: sys_inv_def)
  from make_move_queue [OF hosted_ep_wf [OF this] move] obtain evs where "history n = history (node_at s a) @ evs"
    and q: "reads x o' [m] (node_at s a) @ waiting n =
      take (1024 + length (reads x o' [m] (node_at s a))) (waiting (node_at s a) @ evs)" by blast
  moreover have "reads x o' [m] (node_at s a) = []" using np move by (cases m) auto
  moreover have "waiting (node_at s a) = pending (proc s) a" "waiting n = pending (proc (put_node a n s)) a"
    by (simp_all add: waiting_def pending_def node_at_def put_node_def)
  ultimately show ?thesis by (auto simp: feeds_def node_at_def put_node_def reg_def)
qed

lemma elsewhere_feeds:
  assumes "elsewhere x opens a s s'" "sys_inv x opens s" "a < next_arc (proc s)"
  shows "feeds h a s s'"
  using assms
proof (induction rule: elsewhere.induct)
  case (e_call c s t)
  then have wf: "arcs_wf (in_use s) (proc s)" and ne: "a \<noteq> next_arc (proc s)" by (simp_all add: sys_inv_def)
  have "reg (proc s) h = Some a \<and> pending (snd (api x t c (proc s))) a = pending (proc s) a \<and>
      take 1024 (pending (proc s) a) = pending (proc s) a"
    if r: "reg (snd (api x t c (proc s))) h = Some a"
  proof -
    have l: "live (snd (api x t c (proc s))) a"
      using registered_arc [OF wf_api [OF wf] r] by (simp add: live_def)
    have r0: "reg (proc s) h = Some a" by (rule call_names [OF wf r ne])
    then have "live (proc s) a" using registered_arc [OF wf] by (simp add: live_def)
    with call_elsewhere [OF wf e_call(1,2) l ne] r0 short_queue [OF e_call(3)] show ?thesis
      by (simp add: pending_queue)
  qed
  with ne call_arc_count [of "proc s" x t c] show ?case
    by (auto simp: feeds_def after_call_def Let_def simp del: api.simps)
next
  case (e_move s b m n)
  show ?case
  proof (cases "b = a")
    case True
    with e_move move_feeds show ?thesis by blast
  next
    case False
    then show ?thesis
      by (intro feeds_still [OF e_move(4)]) (simp_all add: put_node_def pending_queue)
  qed
next
  case (e_begin h' s b st)
  have "queue_of st a = queue_of (proc s) a" "registry st = registry (proc s)" "next_arc st = next_arc (proc s)"
    using e_begin(1) by (auto simp: lookup_def split: option.splits)
  then show ?case by (intro feeds_still [OF e_begin(2)]) (simp_all add: pending_queue)
next
  case (e_end b s)
  have wf: "arcs_wf (remove1 b (in_use s)) (arc_drop b (proc s))"
    using inv_end [OF e_end(2,1)] by (simp add: sys_inv_def)
  have "queue_of (arc_drop b (proc s)) a = queue_of (proc s) a" if "reg (arc_drop b (proc s)) h = Some a"
    using registered_arc [OF wf that] by (intro queue_drop) (simp add: live_def)
  then show ?case by (intro feeds_still [OF e_end(2)]) (simp_all add: pending_queue)
next
  case (e_memory st s)
  note same = more_same [OF e_memory(2)]
  from same queue_same [OF same(1)] show ?case
    by (intro feeds_still [OF e_memory(3)]) (simp_all add: pending_queue)
qed

lemma inv_same_nodes:
  assumes inv: "sys_inv x opens s" and wf: "arcs_wf (in_use s) st"
    and same: "\<And>b. live st b \<Longrightarrow> live (proc s) b \<and> node_at (s\<lparr>proc := st\<rparr>) b = node_at s b"
  shows "sys_inv x opens (s\<lparr>proc := st\<rparr>)"
  using assms by (simp add: sys_inv_def)

lemma inv_poll:
  assumes inv: "sys_inv x opens s"
  shows "sys_inv x opens (s\<lparr>proc := snd (rk_quic_server_poll x t h ms out None (proc s))\<rparr>)"
proof -
  let ?c = "ServerPoll h ms out None" and ?st = "snd (rk_quic_server_poll x t h ms out None (proc s))"
  have a: "sys_inv x opens (after_call x t ?c s)" by (rule inv_call [OF inv]) simp
  have wf: "arcs_wf (in_use s) (proc s)" using inv by (simp add: sys_inv_def)
  from wf_poll [OF wf] have wf': "arcs_wf (in_use s) ?st" .
  have n: "next_arc ?st = next_arc (proc s)"
    by (auto simp: rk_quic_server_poll_def Let_def dest!: keeps_arc_count split: option.splits sum.splits prod.splits)
  have "hosted x opens (node_at (s\<lparr>proc := ?st\<rparr>) b)" if "live ?st b" for b
  proof -
    have "b \<noteq> next_arc (proc s)" using next_not_live [OF wf'] that n by auto
    then have "node_at (s\<lparr>proc := ?st\<rparr>) b = node_at (after_call x t ?c s) b"
      by (simp add: node_at_def after_call_def Let_def)
    moreover have "live (proc (after_call x t ?c s)) b" using that by (simp add: after_call_def Let_def)
    ultimately show ?thesis using a by (simp add: sys_inv_def)
  qed
  with wf' show ?thesis by (simp add: sys_inv_def)
qed

lemma turn_inv:
  assumes inv: "loop_inv x opens h a p" and l: "listening p" and out: "out \<noteq> 0" and r: "reg (proc (sys p)) h = Some a"
    and turn: "poll_turn x t h out (proc (sys p)) = Some (sent, go, st)"
  shows "loop_inv x opens h a (p\<lparr>sys := (sys p)\<lparr>proc := st\<rparr>,
    heard := heard p @ (case sent of Some json \<Rightarrow> [json] | None \<Rightarrow> []), listening := go\<rparr>)"
proof -
  let ?s = "sys p" and ?st1 = "snd (rk_quic_server_poll x t h pollSlice out None (proc (sys p)))"
  from inv have si: "sys_inv x opens ?s" and wf: "arcs_wf (in_use ?s) (proc ?s)" and ff: "ffi_wf (proc ?s)"
    and a: "a < next_arc (proc ?s)" by (simp_all add: loop_inv_def sys_inv_def)
  from poll_turn_named [OF wf ff r out, of x t] turn have ff': "ffi_wf st"
    and more: "ffi_state.more st = ffi_state.more ?st1"
    and q: "case pending (proc ?s) a of [] \<Rightarrow> sent = None \<and> go \<and> pending st a = []
      | e # rest \<Rightarrow> pending st a = rest \<and> (case x_json_to_string x (event_object e) of
            Inr _ \<Rightarrow> sent = Some (event_text x e) \<and> go | Inl _ \<Rightarrow> sent = None \<and> \<not> go)" by auto
  have si': "sys_inv x opens (?s\<lparr>proc := st\<rparr>)"
    using inv_memory [OF inv_poll [OF si, of t h pollSlice out], of st] more by simp
  have n: "next_arc st = next_arc (proc ?s)"
    using more_same(2) [OF more]
    by (auto simp: rk_quic_server_poll_def Let_def dest!: keeps_arc_count split: option.splits sum.splits prod.splits)
  have r': "reg st h = Some a" using more_same(3) [OF more] r by (simp add: reg_def poll_registry)
  from inv l r obtain got where got: "posted x got (heard p)" "subseq (got @ pending (proc ?s) a) (told ?s a)"
    "length (told ?s a) \<le> 1024 \<longrightarrow> got @ pending (proc ?s) a = told ?s a" by (auto simp: loop_inv_def)
  have "\<exists>got'. posted x got' (heard p @ (case sent of Some json \<Rightarrow> [json] | None \<Rightarrow> [])) \<and>
      subseq (got' @ pending st a) (told ?s a) \<and>
      (go \<and> length (told ?s a) \<le> 1024 \<longrightarrow> got' @ pending st a = told ?s a)"
  proof (cases "pending (proc ?s) a")
    case Nil
    with q got show ?thesis by (intro exI [of _ got]) simp
  next
    case (Cons e rest)
    show ?thesis
    proof (cases "x_json_to_string x (event_object e)")
      case (Inl why)
      have "subseq (got @ rest) (got @ e # rest)" by (intro list_emb_append_mono) auto
      with Inl Cons q got show ?thesis by (intro exI [of _ got]) (auto intro: subseq_order.order_trans)
    next
      case (Inr json)
      with Cons q got show ?thesis by (intro exI [of _ "got @ [e]"]) (simp add: posted_def)
    qed
  qed
  then obtain got' where g: "posted x got' (heard p @ (case sent of Some json \<Rightarrow> [json] | None \<Rightarrow> []))"
    "subseq (got' @ pending st a) (told ?s a)" "go \<and> length (told ?s a) \<le> 1024 \<longrightarrow> got' @ pending st a = told ?s a"
    by blast
  from g(2) have "subseq got' (told ?s a)" by (meson prefixI prefix_imp_subseq subseq_order.order_trans)
  with g si' ff' a n r' show ?thesis unfolding loop_inv_def by auto
qed

lemma gone_inv:
  assumes inv: "loop_inv x opens h a p" and r: "reg (proc (sys p)) h = None"
    and turn: "poll_turn x t h out (proc (sys p)) = Some (sent, go, st)"
  shows "sent = None \<and> \<not> go \<and> heap st = heap (proc (sys p)) \<and>
    loop_inv x opens h a (p\<lparr>sys := (sys p)\<lparr>proc := st\<rparr>, listening := False\<rparr>)"
proof -
  let ?s = "sys p"
  from inv have si: "sys_inv x opens ?s" and wf: "arcs_wf (in_use ?s) (proc ?s)" and ff: "ffi_wf (proc ?s)"
    by (simp_all add: loop_inv_def sys_inv_def)
  from poll_turn_gone [OF wf r, of x t out] turn have st: "sent = None" "\<not> go" "heap st = heap (proc ?s)"
    "arcs st = arcs (proc ?s)" "registry st = registry (proc ?s)" "next_arc st = next_arc (proc ?s)"
    "next_ptr st = next_ptr (proc ?s)" by auto
  have "sys_inv x opens (?s\<lparr>proc := st\<rparr>)"
    by (rule inv_same_nodes [OF si]) (use st wf arcs_wf_frame [OF st(5,4,6)] in
        \<open>auto simp: live_def node_at_def arc_at_def\<close>)
  with inv st ff r show ?thesis
    by (auto simp: loop_inv_def ffi_wf_def reg_def)
qed

lemma beside_inv:
  assumes inv: "loop_inv x opens h a p" and step: "elsewhere x opens a (sys p) s"
  shows "loop_inv x opens h a (p\<lparr>sys := s\<rparr>)"
proof -
  from inv have si: "sys_inv x opens (sys p)" and a: "a < next_arc (proc (sys p))" and ff: "ffi_wf (proc (sys p))"
    by (simp_all add: loop_inv_def)
  from elsewhere_feeds [OF step si a, of h] obtain evs where n: "next_arc (proc (sys p)) \<le> next_arc (proc s)"
    and t: "told s a = told (sys p) a @ evs"
    and q: "reg (proc s) h = Some a \<Longrightarrow> reg (proc (sys p)) h = Some a \<and>
      pending (proc s) a = take 1024 (pending (proc (sys p)) a @ evs)" by (auto simp: feeds_def)
  from inv obtain got where g: "posted x got (heard p)" "subseq got (told (sys p) a)"
    "reg (proc (sys p)) h = Some a \<Longrightarrow> subseq (got @ pending (proc (sys p)) a) (told (sys p) a) \<and>
      (listening p \<and> length (told (sys p) a) \<le> 1024 \<longrightarrow> got @ pending (proc (sys p)) a = told (sys p) a)"
    by (auto simp: loop_inv_def)
  have "subseq got (told s a)" unfolding t using g(2) by (rule list_emb_prefix)
  moreover have "subseq (got @ pending (proc s) a) (told s a) \<and>
      (listening p \<and> length (told s a) \<le> 1024 \<longrightarrow> got @ pending (proc s) a = told s a)"
    if r: "reg (proc s) h = Some a"
  proof
    let ?old = "pending (proc (sys p)) a"
    have new: "pending (proc s) a = take 1024 (?old @ evs)" and o: "subseq (got @ ?old) (told (sys p) a)"
      using q [OF r] g(3) by simp_all
    have "subseq (got @ take 1024 (?old @ evs)) (got @ ?old @ evs)"
      by (rule list_emb_append_mono [OF subseq_order.order_refl prefix_imp_subseq [OF take_is_prefix]])
    moreover have "subseq ((got @ ?old) @ evs) (told (sys p) a @ evs)" using o by (intro list_emb_append_mono) auto
    ultimately show "subseq (got @ pending (proc s) a) (told s a)"
      unfolding t new by (metis append.assoc subseq_order.order_trans)
    show "listening p \<and> length (told s a) \<le> 1024 \<longrightarrow> got @ pending (proc s) a = told s a"
    proof
      assume l: "listening p \<and> length (told s a) \<le> 1024"
      with t q [OF r] g(3) have e: "got @ ?old = told (sys p) a" by simp
      then have "length (?old @ evs) \<le> length (told s a)" unfolding t e [symmetric] by simp
      with l have "take 1024 (?old @ evs) = ?old @ evs" by (intro take_all) simp
      then show "got @ pending (proc s) a = told s a" unfolding new t e [symmetric] by simp
    qed
  qed
  ultimately show ?thesis
    using g(1) n a inv_elsewhere [OF step si] memory_elsewhere [OF step ff] unfolding loop_inv_def by auto
qed

lemma loop_keeps: "pollLoop x opens h a p \<Longrightarrow> loop_inv x opens h a p"
proof (induction rule: pollLoop.induct)
  case (loop_begin s)
  then have si: "sys_inv x opens s" by (simp add: inv_reaches)
  then have "arcs_wf (in_use s) (proc s)" by (simp add: sys_inv_def)
  from arcs_wfD(3) [OF this registered_arc [OF this loop_begin(3)]] loop_begin si show ?case
    unfolding loop_inv_def by (intro conjI exI [of _ "[]"]) (simp_all add: posted_def)
next
  case (loop_beside p s)
  then show ?case by (simp add: beside_inv)
next
  case (loop_turn p out t sent go st)
  show ?case
  proof (cases "reg (proc (sys p)) h")
    case None
    from gone_inv [OF loop_turn(6) None loop_turn(5)] show ?thesis by simp
  next
    case (Some b)
    with loop_turn turn_inv [OF loop_turn(6,2,3) _ loop_turn(5)] show ?thesis by auto
  qed
qed

text \<open>
  C38: The poll loop takes no memory and ends when it should: a turn is always defined, it leaves
  the library's heap as it found it, the string it was handed having been read and given back; it goes
  on exactly while the endpoint answers with an event or with an empty queue, and it ends with
  nothing posted once the handle names nothing.
\<close>

theorem poll_loop_turns:
  assumes "pollLoop x opens h a p" and "out \<noteq> 0" and "reg (proc (sys p)) h \<in> {Some a, None}"
  shows "\<exists>sent go st. poll_turn x t h out (proc (sys p)) = Some (sent, go, st) \<and>
    map_of (heap st) = map_of (heap (proc (sys p))) \<and> ffi_wf st \<and>
    (case reg (proc (sys p)) h of
       None \<Rightarrow> sent = None \<and> \<not> go
     | Some _ \<Rightarrow> (case pending (proc (sys p)) a of
           [] \<Rightarrow> sent = None \<and> go
         | e # rest \<Rightarrow> pending st a = rest \<and>
             (go \<longleftrightarrow> sent = Some (event_text x e)) \<and>
             (go \<longleftrightarrow> (\<exists>json. x_json_to_string x (event_object e) = Inr json))))"
proof -
  note inv = loop_keeps [OF assms(1)]
  then have wf: "arcs_wf (in_use (sys p)) (proc (sys p))" and ff: "ffi_wf (proc (sys p))"
    by (simp_all add: loop_inv_def sys_inv_def)
  show ?thesis
  proof (cases "reg (proc (sys p)) h")
    case None
    from poll_turn_gone [OF wf None, of x t out] None ff show ?thesis by (auto simp: ffi_wf_def)
  next
    case (Some b)
    with assms(3) have r: "reg (proc (sys p)) h = Some a" by simp
    from poll_turn_named [OF wf ff r assms(2), of x t] obtain sent go st where
      s: "poll_turn x t h out (proc (sys p)) = Some (sent, go, st)" "map_of (heap st) = map_of (heap (proc (sys p)))" "ffi_wf st"
      and q: "case pending (proc (sys p)) a of [] \<Rightarrow> sent = None \<and> go \<and> pending st a = []
        | e # rest \<Rightarrow> pending st a = rest \<and> (case x_json_to_string x (event_object e) of
              Inr _ \<Rightarrow> sent = Some (event_text x e) \<and> go | Inl _ \<Rightarrow> sent = None \<and> \<not> go)" by blast
    from q have "case pending (proc (sys p)) a of [] \<Rightarrow> sent = None \<and> go
        | e # rest \<Rightarrow> pending st a = rest \<and> (go \<longleftrightarrow> sent = Some (event_text x e)) \<and>
           (go \<longleftrightarrow> (\<exists>json. x_json_to_string x (event_object e) = Inr json))"
      by (auto split: list.splits sum.splits)
    with s r show ?thesis by auto
  qed
qed

section \<open>Read as events\<close>

text \<open>What \<open>jsonDecode\<close> makes of a text: an error, a value that is no object, or an object.\<close>

datatype decoded = Unparsable | NotAnObject | Members "(string \<times> json) list"

definition QuicEvent_fromJson :: "(rstr \<Rightarrow> decoded) \<Rightarrow> rstr \<Rightarrow> QuicEvent" where
  "QuicEvent_fromJson jsonDecode json =
     (case jsonDecode json of
        Unparsable \<Rightarrow> D_UnknownQuicEvent ''<unparsable>''
      | NotAnObject \<Rightarrow> D_UnknownQuicEvent ''<not an object>''
      | Members obj \<Rightarrow> QuicEvent_fromObject obj)"

text \<open>
  What is relied on of JSON: the text \<open>serde_json\<close> prints for the object of an event is read back by
  \<open>jsonDecode\<close> as that object, and holds no NUL (a NUL in a string is escaped).
\<close>

definition json_agrees :: "external \<Rightarrow> (rstr \<Rightarrow> decoded) \<Rightarrow> bool" where
  "json_agrees x jsonDecode \<longleftrightarrow>
     (\<forall>e json. x_json_to_string x (event_object e) = Inr json \<longrightarrow>
        NUL \<notin> set json \<and> jsonDecode json = Members (event_object e))"

lemma event_heard:
  assumes "json_agrees x jsonDecode" "dart_sized e" "x_json_to_string x (event_object e) = Inr json"
  shows "QuicEvent_fromJson jsonDecode (event_text x e) = meant e"
  using assms reads_meant [OF assms(2)]
  by (simp add: json_agrees_def QuicEvent_fromJson_def event_text_def readable_def)

text \<open>
  C8: What a Dart application hears of an endpoint is what the endpoint reported: with any calls, any
  other endpoints and any tasks running beside the poll loop, the events read from the texts it has
  posted are events the endpoint reported, each with its meaning, in the order it reported them and
  none twice; and as long as the handle names the endpoint, the loop runs and no more than 1024
  events were reported, they are all of them but those still in the queue.
\<close>

theorem application_hears_the_endpoint:
  assumes "pollLoop x opens h a p" and "json_agrees x jsonDecode" and "\<forall>e \<in> set (told (sys p) a). dart_sized e"
  shows "\<exists>got. map (QuicEvent_fromJson jsonDecode) (heard p) = map meant got \<and> subseq got (told (sys p) a) \<and>
    (reg (proc (sys p)) h = Some a \<and> listening p \<and> length (told (sys p) a) \<le> 1024 \<longrightarrow>
       got @ pending (proc (sys p)) a = told (sys p) a)"
proof -
  from loop_keeps [OF assms(1)] obtain got where g: "posted x got (heard p)" "subseq got (told (sys p) a)"
    and all: "reg (proc (sys p)) h = Some a \<and> listening p \<and> length (told (sys p) a) \<le> 1024 \<longrightarrow>
       got @ pending (proc (sys p)) a = told (sys p) a" unfolding loop_inv_def by blast
  have "set got \<subseteq> set (told (sys p) a)" using g(2) by (auto elim: list_emb_set)
  with g(1) assms(2,3) event_heard have "map (QuicEvent_fromJson jsonDecode) (heard p) = map meant got"
    by (fastforce simp: posted_def)
  with g(2) all show ?thesis by blast
qed

section \<open>A loop to evaluate\<close>

text \<open>A world in which one event can be printed, and a client that has just connected in it.\<close>

definition demo_event :: Event where
  "demo_event = SessionOpened 1 [] ''https://localhost:4433/rk''"

definition chatty :: external where
  "chatty = calm\<lparr>x_json_to_string := \<lambda>m. if m = event_object demo_event then Inr ''{}'' else Inl ''no''\<rparr>"

definition demo_client_up :: system where
  "demo_client_up = after_call chatty 1 (ClientConnect (Some [NUL]) 8 9) system_start"

lemma demo_client_up_facts:
  "sys_reaches chatty opens demo_client_up" "ffi_wf (proc demo_client_up)" "reg (proc demo_client_up) 2 = Some 0"
  "told demo_client_up 0 = [demo_event]" "pending (proc demo_client_up) 0 = [demo_event]"
proof -
  have b: "borrow_c_string (Some [NUL]) = Some []" by code_simp
  have p: "proc demo_client_up = snd (api chatty 1 (ClientConnect (Some [NUL]) 8 9) initial_process)"
    by (simp add: demo_client_up_def after_call_def system_start_def Let_def)
  show "sys_reaches chatty opens demo_client_up"
    unfolding demo_client_up_def by (rule sys_more [OF sys_here sys_call]) (simp add: system_start_def)
  show "ffi_wf (proc demo_client_up)" unfolding p by (rule api.keeps_wf [OF ffi_wf_initial])
  have j: "x_client_config_from_str chatty [] = Inr good_client_config" by (simp add: chatty_def calm_def)
  show "reg (proc demo_client_up) 2 = Some 0" and q: "pending (proc demo_client_up) 0 = [demo_event]"
    unfolding p
    by (simp_all add: rk_quic_client_connect_def b j good_client_parses Let_def)
      (simp_all add: connect_def chatty_def calm_def Let_def next_handle_def register_def arc_new_def reg_def
        pending_def arc_at_def emit_on_def emit_buf live_endpoint_def sync_channel_def EVENT_QUEUE_DEPTH_def
        demo_event_def)
  have "told demo_client_up 0 = pending (proc demo_client_up) 0"
    by (simp add: demo_client_up_def after_call_def system_start_def Let_def)
  with q show "told demo_client_up 0 = [demo_event]" by simp
qed

lemma chatty_agrees: "json_agrees chatty (\<lambda>_. Members (event_object demo_event))"
  by (simp add: json_agrees_def chatty_def NUL_def char_of_def)

lemma demo_loop:
  "\<exists>p. pollLoop chatty opens 2 0 p \<and> sys p = demo_client_up \<and> heard p = [] \<and> listening p"
proof -
  have "told demo_client_up 0 = pending (proc demo_client_up) 0" by (simp add: demo_client_up_facts)
  from loop_begin [OF demo_client_up_facts(1-3) this]
  have "pollLoop chatty opens 2 0 \<lparr>sys = demo_client_up, heard = [], listening = True\<rparr>" .
  then show ?thesis by - (rule exI, rule conjI, assumption, simp)
qed

theorem poll_loop_turns_witness:
  "\<exists>st. poll_turn chatty 7 2 5 (proc demo_client_up) = Some (Some ''{}'', True, st) \<and>
     map_of (heap st) = map_of (heap (proc demo_client_up)) \<and> pending st 0 = []"
proof -
  from demo_loop [of False] obtain p where p: "pollLoop chatty False 2 0 p" "sys p = demo_client_up" by blast
  have j: "x_json_to_string chatty (event_object demo_event) = Inr ''{}''" by (simp add: chatty_def)
  have e: "event_text chatty demo_event = ''{}''"
    unfolding event_text_def j by (simp add: readable_def NUL_def char_of_def)
  from poll_loop_turns [OF p(1), of 5 7] show ?thesis
    by (auto simp: p(2) demo_client_up_facts e j)
qed

theorem application_hears_the_endpoint_witness:
  "\<exists>p. pollLoop chatty False 2 0 p \<and>
     map (QuicEvent_fromJson (\<lambda>_. Members (event_object demo_event))) (heard p) =
       [D_SessionOpened 1 [] ''https://localhost:4433/rk'']"
proof -
  from demo_loop [of False] obtain p where p: "pollLoop chatty False 2 0 p" "sys p = demo_client_up" "heard p = []"
    "listening p" by blast
  have wf: "arcs_wf (in_use demo_client_up) (proc demo_client_up)"
    using inv_reaches [OF demo_client_up_facts(1)] by (simp add: sys_inv_def)
  have j: "x_json_to_string chatty (event_object demo_event) = Inr ''{}''" by (simp add: chatty_def)
  from poll_turn_named [OF wf demo_client_up_facts(2,3), of 5 chatty 7] obtain st where
    t: "poll_turn chatty 7 2 5 (proc demo_client_up) = Some (Some (event_text chatty demo_event), True, st)"
    and q: "pending st 0 = []" and more: "ffi_state.more st = ffi_state.more (snd (rk_quic_server_poll chatty 7 2 pollSlice 5 None (proc demo_client_up)))"
    by (auto simp: demo_client_up_facts j)
  let ?p = "p\<lparr>sys := (sys p)\<lparr>proc := st\<rparr>, heard := [event_text chatty demo_event], listening := True\<rparr>"
  from loop_turn [OF p(1,4), of 5 7] t p(2,3) demo_client_up_facts(3) have l: "pollLoop chatty False 2 0 ?p" by simp
  have r: "reg st 2 = Some 0"
    using more_same(3) [OF more] demo_client_up_facts(3) by (simp add: reg_def poll_registry)
  have "dart_sized demo_event" by (simp add: dart_sized_def demo_event_def)
  with demo_client_up_facts(4) have "\<forall>e \<in> set (told (sys ?p) 0). dart_sized e" by (simp add: p(2))
  from application_hears_the_endpoint [OF l chatty_agrees this] r q
  have "map (QuicEvent_fromJson (\<lambda>_. Members (event_object demo_event))) (heard ?p) = map meant [demo_event]"
    by (auto simp: p(2) demo_client_up_facts)
  with l show ?thesis by (intro exI [of _ ?p]) (simp add: demo_event_def)
qed

end
