(* ===== verification/RkCommands.thy ===== *)
theory RkCommands
  imports RkBindings
begin

text \<open>
  The command channel of \<open>lib/src/endpoint_io.dart\<close>: calls that overlap, a worker that takes them in
  turn, replies matched by id, and disposal; and the object that callers hold (\<open>server_io.dart\<close>,
  \<open>client_io.dart\<close>), which refuses calls once it was stopped. The worker is a parameter here, an
  operation on commands, and is the command loop of \<open>RkBindings\<close> in what follows from it.
\<close>

section \<open>The channel\<close>

text \<open>
  \<open>pending_ids\<close> is the key set of the map of completers, in its order. The two queues are the
  messages between the isolates, which arrive in order. Three observations are not in the program:
  every call, every turn of the worker and every completed call.
\<close>

record ('c, 'r, 'w) channel_state =
  pending_ids :: "nat list"
  next_id :: nat
  inbox :: "(nat \<times> 'c) list"
  replies :: "(nat \<times> 'r) list"
  running :: bool
  world :: 'w
  asked :: "(nat \<times> 'c) list"
  turns :: "(nat \<times> 'c \<times> 'r) list"
  completed :: "(nat \<times> 'r) list"

definition spawned :: "'w \<Rightarrow> ('c, 'r, 'w) channel_state" where
  "spawned w = \<lparr>pending_ids = [], next_id = 0, inbox = [], replies = [], running = True, world = w,
     asked = [], turns = [], completed = []\<rparr>"

text \<open>\<open>send\<close>: a message to an isolate that was killed reaches nobody.\<close>

definition channel_send :: "'c \<Rightarrow> ('c, 'r, 'w) channel_state \<Rightarrow> ('c, 'r, 'w) channel_state" where
  "channel_send c s =
     s\<lparr>next_id := Suc (next_id s), pending_ids := pending_ids s @ [next_id s],
       inbox := (if running s then inbox s @ [(next_id s, c)] else inbox s),
       asked := asked s @ [(next_id s, c)]\<rparr>"

text \<open>The worker takes the oldest message, runs its turn to the end and posts the reply.\<close>

definition worker_turn ::
  "('k \<Rightarrow> 'c \<Rightarrow> 'w \<Rightarrow> ('r \<times> 'w) option) \<Rightarrow> 'k \<Rightarrow> ('c, 'r, 'w) channel_state \<Rightarrow>
   ('c, 'r, 'w) channel_state option" where
  "worker_turn work k s =
     (case inbox s of
        (i, c) # rest \<Rightarrow>
          if running s then
            (case work k c (world s) of
               Some (r, w) \<Rightarrow> Some (s\<lparr>inbox := rest, world := w, replies := replies s @ [(i, r)],
                 turns := turns s @ [(i, c, r)]\<rparr>)
             | None \<Rightarrow> None)
          else None
      | [] \<Rightarrow> None)"

text \<open>The listener: \<open>_pending.remove(message.id)?.complete(message.payload)\<close>.\<close>

definition deliver_reply :: "('c, 'r, 'w) channel_state \<Rightarrow> ('c, 'r, 'w) channel_state option" where
  "deliver_reply s =
     (case replies s of
        (i, r) # rest \<Rightarrow>
          if running s then
            Some (if i \<in> set (pending_ids s) then
              s\<lparr>replies := rest, pending_ids := remove1 i (pending_ids s),
                completed := completed s @ [(i, r)]\<rparr>
            else s\<lparr>replies := rest\<rparr>)
          else None
      | [] \<Rightarrow> None)"

definition channel_dispose :: "'r \<Rightarrow> ('c, 'r, 'w) channel_state \<Rightarrow> ('c, 'r, 'w) channel_state" where
  "channel_dispose orphaned s =
     s\<lparr>running := False, pending_ids := [],
       completed := completed s @ map (\<lambda>i. (i, orphaned)) (pending_ids s)\<rparr>"

datatype ('c, 'k) channel_event = Ask 'c | Turn 'k | Deliver | Dispose

fun channel_step ::
  "('k \<Rightarrow> 'c \<Rightarrow> 'w \<Rightarrow> ('r \<times> 'w) option) \<Rightarrow> 'r \<Rightarrow> ('c, 'k) channel_event \<Rightarrow>
   ('c, 'r, 'w) channel_state \<Rightarrow> ('c, 'r, 'w) channel_state option" where
  "channel_step work orphaned (Ask c) s = Some (channel_send c s)"
| "channel_step work orphaned (Turn k) s = worker_turn work k s"
| "channel_step work orphaned Deliver s = deliver_reply s"
| "channel_step work orphaned Dispose s = Some (channel_dispose orphaned s)"

fun channel_run where
  "channel_run work orphaned [] s = Some s"
| "channel_run work orphaned (e # es) s =
     Option.bind (channel_step work orphaned e s) (channel_run work orphaned es)"

section \<open>Its specification: the calls made directly, one after the other\<close>

fun direct ::
  "('k \<Rightarrow> 'c \<Rightarrow> 'w \<Rightarrow> ('r \<times> 'w) option) \<Rightarrow> ('k \<times> 'c) list \<Rightarrow> 'w \<Rightarrow> ('r list \<times> 'w) option" where
  "direct work [] w = Some ([], w)"
| "direct work ((k, c) # cs) w =
     (case work k c w of
        None \<Rightarrow> None
      | Some (r, w') \<Rightarrow> map_option (\<lambda>(rs, w''). (r # rs, w'')) (direct work cs w'))"

lemma direct_snoc:
  "direct work cs w = Some (rs, w') \<Longrightarrow> work k c w' = Some (r, w'') \<Longrightarrow>
     direct work (cs @ [(k, c)]) w = Some (rs @ [r], w'')"
  by (induction cs arbitrary: w rs) (auto split: option.splits)

fun turn_list :: "('c, 'k) channel_event list \<Rightarrow> 'k list" where
  "turn_list [] = []"
| "turn_list (Turn k # es) = k # turn_list es"
| "turn_list (_ # es) = turn_list es"

lemma turn_list_append [simp]: "turn_list (es @ es') = turn_list es @ turn_list es'"
  by (induction es rule: turn_list.induct) simp_all

lemma channel_run_append:
  "channel_run work orphaned (es @ es') s =
     Option.bind (channel_run work orphaned es s) (channel_run work orphaned es')"
  by (induction es arbitrary: s) (auto split: bind_splits)

section \<open>The invariant\<close>

definition sent_ids :: "('c, 'r, 'w) channel_state \<Rightarrow> bool" where
  "sent_ids s \<longleftrightarrow> map fst (asked s) = [0..<next_id s]"

definition worked :: "('c, 'r, 'w) channel_state \<Rightarrow> (nat \<times> 'c) list" where
  "worked s = map (\<lambda>(i, c, r). (i, c)) (turns s)"

definition answers :: "('c, 'r, 'w) channel_state \<Rightarrow> (nat \<times> 'r) list" where
  "answers s = map (\<lambda>(i, c, r). (i, r)) (turns s)"

text \<open>While the worker runs: what was asked was worked or is on its way, what was answered was
  completed or is on its way back, and a call is pending exactly while either is.\<close>

definition flowing :: "('c, 'r, 'w) channel_state \<Rightarrow> bool" where
  "flowing s \<longleftrightarrow> asked s = worked s @ inbox s \<and> answers s = completed s @ replies s \<and>
     pending_ids s = map fst (replies s) @ map fst (inbox s)"

lemma channel_send_flowing: "flowing s \<Longrightarrow> running s \<Longrightarrow> flowing (channel_send c s)"
  by (simp add: flowing_def channel_send_def worked_def answers_def)

lemma worker_turn_flowing: "flowing s \<Longrightarrow> worker_turn work k s = Some s' \<Longrightarrow> flowing s'"
  by (auto simp: flowing_def worker_turn_def worked_def answers_def
      split: list.splits option.splits if_splits)

lemma deliver_flowing: "flowing s \<Longrightarrow> deliver_reply s = Some s' \<Longrightarrow> flowing s'"
  by (auto simp: flowing_def deliver_reply_def worked_def answers_def
      split: list.splits if_splits)

text \<open>What holds in every state, disposed or not.\<close>

definition channel_inv ::
  "('k \<Rightarrow> 'c \<Rightarrow> 'w \<Rightarrow> ('r \<times> 'w) option) \<Rightarrow> 'r \<Rightarrow> 'w \<Rightarrow> 'k list \<Rightarrow> ('c, 'r, 'w) channel_state \<Rightarrow> bool" where
  "channel_inv work orphaned w0 ks s \<longleftrightarrow>
     map fst (asked s) = [0..<next_id s] \<and> (\<exists>rest. asked s = worked s @ rest) \<and>
     distinct (map fst (completed s) @ pending_ids s) \<and>
     set (map fst (completed s) @ pending_ids s) = {0..<next_id s} \<and>
     (\<forall>a \<in> set (completed s). a \<in> set (answers s) \<or> \<not> running s \<and> snd a = orphaned) \<and>
     length ks = length (turns s) \<and>
     direct work (zip ks (map snd (worked s))) w0 = Some (map snd (answers s), world s) \<and>
     (running s \<longrightarrow> flowing s)"

lemma inv_spawned: "channel_inv work orphaned w [] (spawned w)"
  by (simp add: channel_inv_def spawned_def worked_def answers_def flowing_def)

lemma inv_ask: "channel_inv work orphaned w0 ks s \<Longrightarrow> channel_inv work orphaned w0 ks (channel_send c s)"
  using channel_send_flowing [of s c]
  by (auto simp: channel_inv_def channel_send_def worked_def answers_def)

lemma inv_turn:
  assumes "channel_inv work orphaned w0 ks s" "worker_turn work k s = Some s'"
  shows "channel_inv work orphaned w0 (ks @ [k]) s'"
proof -
  from assms(2) obtain i c rest r w where s: "inbox s = (i, c) # rest" "running s" "work k c (world s) = Some (r, w)"
    and s': "s' = s\<lparr>inbox := rest, world := w, replies := replies s @ [(i, r)], turns := turns s @ [(i, c, r)]\<rparr>"
    by (auto simp: worker_turn_def split: list.splits option.splits if_splits)
  from assms(1) s have fl: "flowing s" by (simp add: channel_inv_def)
  have "asked s = worked s' @ rest"
    using fl s by (simp add: flowing_def s' worked_def)
  moreover have "direct work (zip (ks @ [k]) (map snd (worked s'))) w0 = Some (map snd (answers s'), world s')"
    using assms(1) s by (simp add: channel_inv_def s' worked_def answers_def direct_snoc)
  ultimately show ?thesis
    using assms(1) worker_turn_flowing [OF fl assms(2)] s by (auto simp: channel_inv_def s' answers_def)
qed

lemma inv_deliver:
  assumes "channel_inv work orphaned w0 ks s" "deliver_reply s = Some s'"
  shows "channel_inv work orphaned w0 ks s'"
proof -
  from assms(2) obtain i r rest where s: "replies s = (i, r) # rest" "running s"
    by (auto simp: deliver_reply_def split: list.splits if_splits)
  from assms(1) s have fl: "flowing s" by (simp add: channel_inv_def)
  with s have p: "pending_ids s = i # map fst rest @ map fst (inbox s)" "(i, r) \<in> set (answers s)"
    by (simp_all add: flowing_def)
  with assms(2) s have s': "s' = s\<lparr>replies := rest, pending_ids := map fst rest @ map fst (inbox s),
      completed := completed s @ [(i, r)]\<rparr>" by (simp add: deliver_reply_def)
  show ?thesis
    using assms(1) deliver_flowing [OF fl assms(2)] p s
    by (auto simp: channel_inv_def s' worked_def answers_def)
qed

lemma inv_dispose: "channel_inv work orphaned w0 ks s \<Longrightarrow> channel_inv work orphaned w0 ks (channel_dispose orphaned s)"
  by (auto simp: channel_inv_def channel_dispose_def worked_def answers_def comp_def)

lemma inv_run:
  "channel_run work orphaned es s = Some s' \<Longrightarrow> channel_inv work orphaned w0 ks s \<Longrightarrow>
     channel_inv work orphaned w0 (ks @ turn_list es) s'"
proof (induction es arbitrary: s ks)
  case (Cons e es)
  then obtain s1 where s1: "channel_step work orphaned e s = Some s1" "channel_run work orphaned es s1 = Some s'"
    by (auto split: bind_splits)
  have "channel_inv work orphaned w0 (ks @ turn_list [e]) s1"
    using s1(1) Cons.prems(2) by (cases e) (auto intro: inv_ask inv_turn inv_deliver inv_dispose)
  from Cons.IH [OF s1(2) this] show ?case by (cases e) simp_all
qed simp

text \<open>
  Calls that overlap are as if made one after the other: however calls, turns of the worker,
  replies and a disposal interleave, the worker serves the commands in the order they were asked, and
  its replies and the state it leaves are those of making the calls directly in that order; each call
  is pending or was completed, never both and never twice; and it was completed with the reply to its
  own command, or, once the channel was disposed of, with the value that says so.
\<close>

lemma overlapping_calls_are_sequential:
  assumes "channel_run work orphaned es (spawned w0) = Some s"
  shows "direct work (zip (turn_list es) (map snd (worked s))) w0 = Some (map snd (answers s), world s) \<and>
    (\<exists>rest. asked s = worked s @ rest) \<and> map fst (asked s) = [0..<next_id s] \<and>
    distinct (map fst (completed s) @ pending_ids s) \<and>
    set (map fst (completed s) @ pending_ids s) = {0..<next_id s} \<and>
    (\<forall>(i, r) \<in> set (completed s). (\<exists>c. (i, c, r) \<in> set (turns s)) \<or> \<not> running s \<and> r = orphaned)"
proof -
  from inv_run [OF assms inv_spawned] have "channel_inv work orphaned w0 (turn_list es) s" by simp
  then show ?thesis by (auto simp: channel_inv_def answers_def)
qed

text \<open>A worker that answers with the command it was given, and calls that overlap.\<close>

lemma overlapping_calls_are_sequential_witness:
  "\<exists>s. channel_run (\<lambda>k c w. Some (c, w + k)) 0 [Ask 5, Ask 7, Turn 1, Turn 10, Deliver, Dispose] (spawned 0) = Some s \<and>
     completed s = [(0, 5::nat), (1, 0)] \<and> world s = (11::nat) \<and> pending_ids s = []"
proof -
  let ?es = "[Ask 5, Ask 7, Turn 1, Turn 10, Deliver, Dispose] :: (nat, nat) channel_event list"
  have "map_option (\<lambda>s. (completed s, world s, next_id s))
      (channel_run (\<lambda>k c w. Some (c, w + k)) 0 ?es (spawned 0)) = Some ([(0, 5), (1, 0)], 11, 2)"
    by code_simp
  then obtain s where s: "channel_run (\<lambda>k c w. Some (c, w + k)) 0 ?es (spawned 0) = Some s"
    "completed s = [(0, 5), (1, 0)]" "world s = 11" "next_id s = 2" by auto
  note th = overlapping_calls_are_sequential [OF s(1), THEN conjunct2, THEN conjunct2, THEN conjunct2]
  have "pending_ids s = []"
  proof (cases "pending_ids s")
    case (Cons i rest)
    have "i \<in> {0..<next_id s}" unfolding th [THEN conjunct2, THEN conjunct1, symmetric] by (simp add: Cons)
    then have "i < 2" by (simp only: s(4) atLeastLessThan_iff)
    moreover have "i \<noteq> 0 \<and> i \<noteq> 1" using th [THEN conjunct1] by (simp add: s(2) Cons)
    ultimately show ?thesis by linarith
  qed
  with s(1-3) show ?thesis by blast
qed

section \<open>The object callers hold\<close>

text \<open>
  \<open>QuicServer\<close> and \<open>QuicClient\<close> after they were created: \<open>_stopped\<close>, whether the poll isolate is
  alive, and the id of the stop that waits for its reply. \<open>refused\<close> collects the calls answered
  at once without reaching the library: \<open>notRunning\<close>, and \<open>ok\<close> for a second \<open>close\<close> of a client.
\<close>

record ('c, 'r, 'w) holder =
  channel :: "('c, 'r, 'w) channel_state"
  stopped :: bool
  stop_id :: "nat option"
  polling :: bool
  refused :: "'c list"

datatype ('c, 'k) holder_event = Call 'c | Stop | WorkerTurn 'k | ReplyArrives

definition held_by :: "('c, 'r, 'w) channel_state \<Rightarrow> ('c, 'r, 'w) holder" where
  "held_by s = \<lparr>channel = s, stopped = False, stop_id = None, polling = True, refused = []\<rparr>"

text \<open>The rest of \<open>stop\<close> runs when its reply completes the call, before anything else.\<close>

definition after_reply :: "'r \<Rightarrow> ('c, 'r, 'w) holder \<Rightarrow> ('c, 'r, 'w) holder" where
  "after_reply orphaned o1 =
     (case stop_id o1 of
        Some i \<Rightarrow>
          if i \<in> set (pending_ids (channel o1)) then o1
          else o1\<lparr>stop_id := None, polling := False, channel := channel_dispose orphaned (channel o1)\<rparr>
      | None \<Rightarrow> o1)"

fun holder_step ::
  "('k \<Rightarrow> 'c \<Rightarrow> 'w \<Rightarrow> ('r \<times> 'w) option) \<Rightarrow> 'r \<Rightarrow> 'c \<Rightarrow> ('c, 'k) holder_event \<Rightarrow>
   ('c, 'r, 'w) holder \<Rightarrow> ('c, 'r, 'w) holder option" where
  "holder_step work orphaned stop_command (Call c) q =
     Some (if stopped q then q\<lparr>refused := refused q @ [c]\<rparr>
           else q\<lparr>channel := channel_send c (channel q)\<rparr>)"
| "holder_step work orphaned stop_command Stop q =
     Some (if stopped q then q\<lparr>refused := refused q @ [stop_command]\<rparr>
           else q\<lparr>stopped := True, stop_id := Some (next_id (channel q)),
                   channel := channel_send stop_command (channel q)\<rparr>)"
| "holder_step work orphaned stop_command (WorkerTurn k) q =
     map_option (\<lambda>s. q\<lparr>channel := s\<rparr>) (worker_turn work k (channel q))"
| "holder_step work orphaned stop_command ReplyArrives q =
     map_option (\<lambda>s. after_reply orphaned (q\<lparr>channel := s\<rparr>)) (deliver_reply (channel q))"

fun holder_run where
  "holder_run work orphaned stop_command [] q = Some q"
| "holder_run work orphaned stop_command (e # es) q =
     Option.bind (holder_step work orphaned stop_command e q) (holder_run work orphaned stop_command es)"

fun worker_turns :: "('c, 'k) holder_event list \<Rightarrow> 'k list" where
  "worker_turns [] = []"
| "worker_turns (WorkerTurn k # es) = k # worker_turns es"
| "worker_turns (_ # es) = worker_turns es"

text \<open>The calls that were accepted, and those that were not.\<close>

fun accepts :: "'c \<Rightarrow> bool \<Rightarrow> ('c, 'k) holder_event list \<Rightarrow> 'c list \<times> 'c list" where
  "accepts stop_command over [] = ([], [])"
| "accepts stop_command over (Call c # es) =
     (case accepts stop_command over es of (a, r) \<Rightarrow> if over then (a, c # r) else (c # a, r))"
| "accepts stop_command over (Stop # es) =
     (case accepts stop_command True es of (a, r) \<Rightarrow>
        if over then (a, stop_command # r) else (stop_command # a, r))"
| "accepts stop_command over (_ # es) = accepts stop_command over es"

text \<open>The states of the object: in use, stopping with its stop asked last, and stopped.\<close>

definition in_use_now :: "('c, 'r, 'w) holder \<Rightarrow> bool" where
  "in_use_now q \<longleftrightarrow> stop_id q = None \<and> \<not> stopped q \<and> running (channel q) \<and> polling q"

definition stopping :: "('c, 'r, 'w) holder \<Rightarrow> bool" where
  "stopping q \<longleftrightarrow> stop_id q = Some (next_id (channel q) - 1) \<and> 0 < next_id (channel q) \<and>
     next_id (channel q) - 1 \<in> set (pending_ids (channel q)) \<and> stopped q \<and> running (channel q) \<and> polling q"

definition at_rest :: "('c, 'r, 'w) holder \<Rightarrow> bool" where
  "at_rest q \<longleftrightarrow> stop_id q = None \<and> stopped q \<and> \<not> running (channel q) \<and> \<not> polling q \<and>
     pending_ids (channel q) = [] \<and> asked (channel q) = worked (channel q)"

definition faithful :: "('c, 'r, 'w) channel_state \<Rightarrow> bool" where
  "faithful s \<longleftrightarrow> set (completed s) \<subseteq> set (answers s)"

definition holder_inv ::
  "('k \<Rightarrow> 'c \<Rightarrow> 'w \<Rightarrow> ('r \<times> 'w) option) \<Rightarrow> 'r \<Rightarrow> 'w \<Rightarrow> 'k list \<Rightarrow> ('c, 'r, 'w) holder \<Rightarrow> bool" where
  "holder_inv work orphaned w0 ks q \<longleftrightarrow>
     channel_inv work orphaned w0 ks (channel q) \<and> faithful (channel q) \<and>
     (in_use_now q \<or> stopping q \<or> at_rest q)"

lemma running_faithful: "channel_inv work orphaned w0 ks s \<Longrightarrow> running s \<Longrightarrow> faithful s"
  by (auto simp: channel_inv_def faithful_def)

lemma flowing_ids:
  assumes "flowing s" "map fst (asked s) = [0..<next_id s]"
  shows "map fst (completed s) @ pending_ids s = [0..<next_id s]"
proof -
  have "map fst (answers s) = map fst (worked s)" by (simp add: answers_def worked_def comp_def case_prod_beta)
  with assms show ?thesis
    by (simp add: flowing_def) (metis append.assoc map_append)
qed

text \<open>The reply of a stop comes last: once it completed its call, nothing is on its way.\<close>

lemma last_reply:
  assumes "flowing s" "map fst (asked s) = [0..<next_id s]" "0 < next_id s" "next_id s - 1 \<notin> set (pending_ids s)"
  shows "pending_ids s = [] \<and> inbox s = [] \<and> asked s = worked s"
proof -
  note ids = flowing_ids [OF assms(1,2)]
  have "last [0..<next_id s] = next_id s - 1" using assms(3) by simp
  then have "pending_ids s = []" using ids assms(4) by (metis last_appendR last_in_set)
  with assms(1) show ?thesis by (simp add: flowing_def)
qed

lemma ask_keeps:
  assumes "holder_inv work orphaned w0 ks q" "in_use_now q"
  shows "holder_inv work orphaned w0 ks (q\<lparr>channel := channel_send c (channel q)\<rparr>)"
    "holder_inv work orphaned w0 ks (q\<lparr>stopped := True, stop_id := Some (next_id (channel q)),
       channel := channel_send c (channel q)\<rparr>)"
proof -
  have inv: "channel_inv work orphaned w0 ks (channel_send c (channel q))" and run: "running (channel q)"
    using assms inv_ask by (auto simp: holder_inv_def in_use_now_def)
  moreover have "running (channel_send c (channel q))" using run by (simp add: channel_send_def)
  ultimately show "holder_inv work orphaned w0 ks (q\<lparr>channel := channel_send c (channel q)\<rparr>)"
    "holder_inv work orphaned w0 ks (q\<lparr>stopped := True, stop_id := Some (next_id (channel q)),
       channel := channel_send c (channel q)\<rparr>)"
    using running_faithful [OF inv] assms(2)
    by (simp_all add: holder_inv_def in_use_now_def stopping_def) (simp_all add: channel_send_def)
qed

lemma reply_keeps:
  assumes inv: "holder_inv work orphaned w0 ks q" and s: "deliver_reply (channel q) = Some s"
  shows "holder_inv work orphaned w0 ks (after_reply orphaned (q\<lparr>channel := s\<rparr>))"
proof -
  from inv have ch: "channel_inv work orphaned w0 ks (channel q)" by (simp add: holder_inv_def)
  note ci = inv_deliver [OF ch s]
  from s have run: "running (channel q)" "running s" "next_id s = next_id (channel q)"
    by (auto simp: deliver_reply_def split: list.splits if_splits)
  note ok = running_faithful [OF ci run(2)]
  from ci run(2) have fl: "flowing s" and ids: "map fst (asked s) = [0..<next_id s]"
    by (simp_all add: channel_inv_def)
  from inv run(1) consider "in_use_now q" | "stopping q" by (auto simp: holder_inv_def at_rest_def)
  then show ?thesis
  proof cases
    case 1
    with ci ok run show ?thesis by (simp add: holder_inv_def in_use_now_def after_reply_def)
  next
    case 2
    show ?thesis
    proof (cases "next_id s - 1 \<in> set (pending_ids s)")
      case True
      with 2 ci ok run show ?thesis by (simp add: holder_inv_def stopping_def after_reply_def)
    next
      case False
      with 2 run last_reply [OF fl ids]
      have e: "pending_ids s = []" "asked s = worked s" by (simp_all add: stopping_def)
      have "faithful (channel_dispose orphaned s)" using ok e by (simp add: faithful_def channel_dispose_def answers_def)
      with 2 False run inv_dispose [OF ci] e show ?thesis
        by (simp add: holder_inv_def stopping_def after_reply_def at_rest_def)
          (simp add: channel_dispose_def worked_def)
    qed
  qed
qed

lemma turn_keeps:
  assumes inv: "holder_inv work orphaned w0 ks q" and s: "worker_turn work k (channel q) = Some s"
  shows "holder_inv work orphaned w0 (ks @ [k]) (q\<lparr>channel := s\<rparr>)"
proof -
  from inv have ch: "channel_inv work orphaned w0 ks (channel q)" by (simp add: holder_inv_def)
  note ci = inv_turn [OF ch s]
  from s have run: "running (channel q)" "running s" "next_id s = next_id (channel q)"
    "pending_ids s = pending_ids (channel q)"
    by (auto simp: worker_turn_def split: list.splits option.splits if_splits)
  with inv ci running_faithful [OF ci] show ?thesis
    by (auto simp: holder_inv_def in_use_now_def stopping_def at_rest_def)
qed

lemma refusing_keeps:
  "holder_inv work orphaned w0 ks q \<Longrightarrow> holder_inv work orphaned w0 ks (q\<lparr>refused := l\<rparr>)"
  by (simp add: holder_inv_def in_use_now_def stopping_def at_rest_def)

lemma not_stopped: "holder_inv work orphaned w0 ks q \<Longrightarrow> \<not> stopped q \<Longrightarrow> in_use_now q"
  by (auto simp: holder_inv_def stopping_def at_rest_def)

lemma holder_inv_step:
  assumes inv: "holder_inv work orphaned w0 ks q" and step: "holder_step work orphaned stop_command e q = Some q'"
  shows "holder_inv work orphaned w0 (ks @ worker_turns [e]) q'"
proof (cases e)
  case (Call c)
  with step ask_keeps(1) [OF inv not_stopped [OF inv], of c] refusing_keeps [OF inv, of "refused q @ [c]"]
  show ?thesis by (simp split: if_splits)
next
  case Stop
  with step ask_keeps(2) [OF inv not_stopped [OF inv], of stop_command]
    refusing_keeps [OF inv, of "refused q @ [stop_command]"]
  show ?thesis by (simp split: if_splits)
qed (use step in \<open>auto intro: turn_keeps [OF inv] reply_keeps [OF inv]\<close>)

lemma holder_inv_run:
  "holder_run work orphaned stop_command es q = Some q' \<Longrightarrow> holder_inv work orphaned w0 ks q \<Longrightarrow>
     holder_inv work orphaned w0 (ks @ worker_turns es) q'"
proof (induction es arbitrary: q ks)
  case (Cons e es)
  then obtain q1 where q1: "holder_step work orphaned stop_command e q = Some q1"
    "holder_run work orphaned stop_command es q1 = Some q'" by (auto split: bind_splits)
  from Cons.IH [OF q1(2) holder_inv_step [OF Cons.prems(2) q1(1)]] show ?case by (cases e) simp_all
qed simp

lemma asked_frame [simp]:
  "asked (channel (after_reply orphaned q)) = asked (channel q)"
  "refused (after_reply orphaned q) = refused q" "stopped (after_reply orphaned q) = stopped q"
  by (simp_all add: after_reply_def channel_dispose_def split: option.splits)

lemma asked_same: "deliver_reply s = Some s' \<Longrightarrow> asked s' = asked s" "worker_turn work k s = Some s' \<Longrightarrow> asked s' = asked s"
  by (auto simp: deliver_reply_def worker_turn_def split: list.splits option.splits if_splits)

lemma accepted_step:
  assumes "holder_step work orphaned stop_command e q = Some q'"
  shows "map snd (asked (channel q')) = map snd (asked (channel q)) @ fst (accepts stop_command (stopped q) [e]) \<and>
    refused q' = refused q @ snd (accepts stop_command (stopped q) [e]) \<and>
    stopped q' = (stopped q \<or> e = Stop)"
  using assms by (cases e) (auto simp: channel_send_def asked_same)

lemma accepts_Cons:
  "accepts c over (e # es) =
     (fst (accepts c over [e]) @ fst (accepts c (over \<or> e = Stop) es),
      snd (accepts c over [e]) @ snd (accepts c (over \<or> e = Stop) es))"
  by (cases e) (auto split: prod.splits)

lemma accepted_run:
  "holder_run work orphaned stop_command es q = Some q' \<Longrightarrow>
     map snd (asked (channel q')) = map snd (asked (channel q)) @ fst (accepts stop_command (stopped q) es) \<and>
     refused q' = refused q @ snd (accepts stop_command (stopped q) es)"
proof (induction es arbitrary: q)
  case (Cons e es)
  then obtain q1 where q1: "holder_step work orphaned stop_command e q = Some q1"
    "holder_run work orphaned stop_command es q1 = Some q'" by (auto split: bind_splits)
  from Cons.IH [OF q1(2)] accepted_step [OF q1(1)] show ?case
    by (subst (1 2) accepts_Cons) simp
qed simp

section \<open>A worker that always answers\<close>

text \<open>
  What a caller relies on of the worker: from a state it keeps, on a turn it can be given, every
  command has an answer.
\<close>

locale answering_worker =
  fixes work :: "'k \<Rightarrow> 'c \<Rightarrow> 'w \<Rightarrow> ('r \<times> 'w) option" and good :: "'w \<Rightarrow> bool" and fit :: "'k \<Rightarrow> bool"
  assumes answers_always: "good w \<Longrightarrow> fit k \<Longrightarrow> \<exists>r w'. work k c w = Some (r, w') \<and> good w'"
begin

lemma direct_stays_good:
  "direct work cs w = Some (rs, w') \<Longrightarrow> good w \<Longrightarrow> \<forall>(k, c) \<in> set cs. fit k \<Longrightarrow> good w'"
proof (induction cs arbitrary: w rs)
  case (Cons kc cs)
  obtain k c where kc: "kc = (k, c)" by fastforce
  with Cons.prems(1) obtain r w1 rs' where d: "work k c w = Some (r, w1)" "direct work cs w1 = Some (rs', w')"
    by (auto split: option.splits)
  from answers_always [OF Cons.prems(2), of k c] d(1) Cons.prems(3) kc have "good w1" by simp
  with Cons.IH [OF d(2)] Cons.prems(3) show ?case by simp
qed simp

lemma worker_drains:
  "flowing s \<Longrightarrow> running s \<Longrightarrow> good (world s) \<Longrightarrow> length ks = length (inbox s) \<Longrightarrow> \<forall>k \<in> set ks. fit k \<Longrightarrow>
     \<exists>s'. channel_run work orphaned (map Turn ks) s = Some s' \<and> flowing s' \<and> running s' \<and> inbox s' = [] \<and>
       pending_ids s' = pending_ids s"
proof (induction ks arbitrary: s)
  case (Cons k ks)
  then obtain i c rest where b: "inbox s = (i, c) # rest" by (cases "inbox s") auto
  from answers_always [of "world s" k c] Cons.prems obtain r w where w: "work k c (world s) = Some (r, w)" "good w"
    by auto
  let ?s = "s\<lparr>inbox := rest, world := w, replies := replies s @ [(i, r)], turns := turns s @ [(i, c, r)]\<rparr>"
  have t: "worker_turn work k s = Some ?s" using b w Cons.prems(2) by (simp add: worker_turn_def)
  from Cons.IH [of ?s] worker_turn_flowing [OF Cons.prems(1) t] Cons.prems w(2) b t show ?case by simp
qed auto

end

lemma replies_drain:
  "flowing s \<Longrightarrow> running s \<Longrightarrow> inbox s = [] \<Longrightarrow>
     \<exists>s'. channel_run work orphaned (replicate (length (pending_ids s)) Deliver) s = Some s' \<and> pending_ids s' = []"
proof (induction "length (pending_ids s)" arbitrary: s)
  case (Suc n)
  then obtain i r rest where r: "replies s = (i, r) # rest"
    by (cases "replies s") (auto simp: flowing_def)
  with Suc.prems have p: "pending_ids s = i # map fst rest" by (simp add: flowing_def)
  let ?s = "s\<lparr>replies := rest, pending_ids := map fst rest, completed := completed s @ [(i, r)]\<rparr>"
  have d: "deliver_reply s = Some ?s" using r p Suc.prems(2) by (simp add: deliver_reply_def)
  from Suc.hyps(1) [of ?s] Suc.hyps(2) deliver_flowing [OF Suc.prems(1) d] Suc.prems p d show ?case by simp
qed simp

section \<open>The command loop as the worker\<close>

text \<open>Other threads call the library before a turn too.\<close>

definition dart_work ::
  "external \<Rightarrow> ((string \<times> json) list \<Rightarrow> rstr) \<Rightarrow> (thread \<times> api_call) list \<times> turn \<Rightarrow> command \<Rightarrow>
   u64 \<times> process \<Rightarrow> (reply \<times> u64 \<times> process) option" where
  "dart_work x enc k c w = commandLoop x enc (snd k) c (fst w, run_calls (api x) (fst k) (snd w))"

definition stopped_reply :: reply where
  "stopped_reply = StatusReply D_notRunning (Some ''the endpoint was stopped'')"

definition fit_turn :: "(thread \<times> api_call) list \<times> turn \<Rightarrow> bool" where
  "fit_turn k \<longleftrightarrow> (\<forall>(t, c) \<in> set (meanwhile (snd k)). t \<noteq> on_thread (snd k))"

lemma command_answers:
  assumes "ffi_wf st" "\<forall>(t, c') \<in> set (meanwhile k). t \<noteq> on_thread k"
  shows "\<exists>r w. commandLoop x enc k c (h, st) = Some (r, w) \<and> ffi_wf (snd w)"
proof (cases "native_call enc k h c")
  case None
  then have "c = OtherCommand" by (cases c) simp_all
  with assms(1) show ?thesis by simp
next
  case (Some call)
  obtain result st1 where "api x (on_thread k) call (prepared k c st) = (result, st1)" by fastforce
  from command_turn_answered [OF assms Some this] show ?thesis by (auto simp: answered_def)
qed

interpretation dart: answering_worker "dart_work x enc" "\<lambda>w. ffi_wf (snd w)" fit_turn for x enc
proof
  fix w :: "u64 \<times> process" and k c
  assume "ffi_wf (snd w)" "fit_turn k"
  then show "\<exists>r w'. dart_work x enc k c w = Some (r, w') \<and> ffi_wf (snd w')"
    unfolding dart_work_def fit_turn_def by (intro command_answers api.run_keeps_wf)
qed

text \<open>An object: the channel that served the start or the connect it was created by.\<close>

definition created_by ::
  "external \<Rightarrow> ((string \<times> json) list \<Rightarrow> rstr) \<Rightarrow> command \<Rightarrow> (thread \<times> api_call) list \<times> turn \<Rightarrow> process \<Rightarrow>
   (command, reply, u64 \<times> process) holder option" where
  "created_by x enc c0 k0 st =
     map_option held_by (channel_run (dart_work x enc) stopped_reply [Ask c0, Turn k0, Deliver] (spawned (0, st)))"

definition use_object ::
  "external \<Rightarrow> ((string \<times> json) list \<Rightarrow> rstr) \<Rightarrow> (command, (thread \<times> api_call) list \<times> turn) holder_event list \<Rightarrow>
   (command, reply, u64 \<times> process) holder \<Rightarrow> (command, reply, u64 \<times> process) holder option" where
  "use_object x enc = holder_run (dart_work x enc) stopped_reply StopCommand"

lemma created_inv:
  assumes "created_by x enc c0 k0 st = Some q0"
  shows "holder_inv (dart_work x enc) stopped_reply (0, st) [k0] q0 \<and> map snd (asked (channel q0)) = [c0] \<and>
    \<not> stopped q0 \<and> refused q0 = [] \<and> pending_ids (channel q0) = []"
proof -
  from assms obtain s where s: "channel_run (dart_work x enc) stopped_reply [Ask c0, Turn k0, Deliver] (spawned (0, st)) = Some s"
    and q0: "q0 = held_by s" by (auto simp: created_by_def)
  from inv_run [OF s inv_spawned] have ci: "channel_inv (dart_work x enc) stopped_reply (0, st) [k0] s" by simp
  from s have r: "running s" "map snd (asked s) = [c0]" "pending_ids s = []"
    by (auto simp: spawned_def channel_send_def worker_turn_def deliver_reply_def split: bind_splits option.splits)
  with ci running_faithful [OF ci] show ?thesis
    by (simp add: q0 held_by_def holder_inv_def in_use_now_def)
qed

lemma used_inv:
  assumes "created_by x enc c0 k0 st = Some q0" "use_object x enc es q0 = Some q"
  shows "holder_inv (dart_work x enc) stopped_reply (0, st) (k0 # worker_turns es) q \<and>
    map snd (asked (channel q)) = c0 # fst (accepts StopCommand False es) \<and>
    refused q = snd (accepts StopCommand False es)"
proof -
  note c = created_inv [OF assms(1)]
  from holder_inv_run [OF assms(2) [unfolded use_object_def] conjunct1 [OF c]]
    accepted_run [OF assms(2) [unfolded use_object_def]] c show ?thesis by simp
qed

text \<open>
  C7: A server or a client in Dart answers every call for what it did: once created, however calls,
  turns of the worker and replies interleave, the calls made before the first stop and that stop are
  accepted and all others are refused without reaching the library; the accepted ones are served in
  the order they were made, with the replies and the effect of calling the library directly in that
  order; every call that is completed has the reply to its own command, so that none is ever answered
  with the value of a disposed channel; and when the stop has been answered every call has been.
\<close>

theorem object_answers_every_call:
  assumes "created_by x enc c0 k0 st = Some q0" and "use_object x enc es q0 = Some q"
    and "s = channel q"
  shows "map snd (asked s) = c0 # fst (accepts StopCommand False es) \<and>
    refused q = snd (accepts StopCommand False es) \<and> (\<exists>rest. asked s = worked s @ rest) \<and>
    direct (dart_work x enc) (zip (k0 # worker_turns es) (map snd (worked s))) (0, st) =
      Some (map snd (answers s), world s) \<and>
    distinct (map fst (completed s)) \<and> (\<forall>(i, r) \<in> set (completed s). \<exists>c. (i, c, r) \<in> set (turns s)) \<and>
    (\<not> polling q \<longrightarrow> asked s = worked s \<and> pending_ids s = [])"
proof -
  from used_inv [OF assms(1,2)] have inv: "holder_inv (dart_work x enc) stopped_reply (0, st) (k0 # worker_turns es) q"
    and acc: "map snd (asked s) = c0 # fst (accepts StopCommand False es)" "refused q = snd (accepts StopCommand False es)"
    by (simp_all add: assms(3))
  from inv have ci: "channel_inv (dart_work x enc) stopped_reply (0, st) (k0 # worker_turns es) s" and "faithful s"
    and "polling q \<or> at_rest q" by (auto simp: holder_inv_def assms(3) in_use_now_def stopping_def)
  then have "\<forall>(i, r) \<in> set (completed s). \<exists>c. (i, c, r) \<in> set (turns s)"
    "\<not> polling q \<longrightarrow> asked s = worked s \<and> pending_ids s = []"
    by (auto simp: faithful_def answers_def at_rest_def assms(3))
  with acc ci show ?thesis by (simp add: channel_inv_def)
qed

text \<open>
  C37: No call in Dart waits forever: in every state of a created object, and with other threads
  calling the library as they will, once the worker has had a turn for each message in its inbox and
  the replies have been delivered no call is pending; every one of these turns is defined.
\<close>

theorem pending_calls_complete:
  assumes "created_by x enc c0 k0 st = Some q0" and "use_object x enc es q0 = Some q"
    and "ffi_wf st" and "fit_turn k0" and "\<forall>k \<in> set (worker_turns es). fit_turn k"
    and "length ks = length (inbox (channel q))" and "\<forall>k \<in> set ks. fit_turn k" and "running (channel q)"
  shows "\<exists>s. channel_run (dart_work x enc) stopped_reply
      (map Turn ks @ replicate (length (pending_ids (channel q))) Deliver) (channel q) = Some s \<and> pending_ids s = []"
proof -
  have "holder_inv (dart_work x enc) stopped_reply (0, st) (k0 # worker_turns es) q"
    using used_inv [OF assms(1,2)] by simp
  then have ci: "channel_inv (dart_work x enc) stopped_reply (0, st) (k0 # worker_turns es) (channel q)"
    by (simp add: holder_inv_def)
  with assms(8) have fl: "flowing (channel q)" and "length (k0 # worker_turns es) = length (turns (channel q))"
    and dir: "direct (dart_work x enc) (zip (k0 # worker_turns es) (map snd (worked (channel q)))) (0, st) =
      Some (map snd (answers (channel q)), world (channel q))"
    by (simp_all add: channel_inv_def)
  have "fit_turn k" if "(k, c) \<in> set (zip (k0 # worker_turns es) (map snd (worked (channel q))))" for k c
    using set_zip_leftD [OF that] assms(4,5) by auto
  then have fk: "\<forall>(k, c) \<in> set (zip (k0 # worker_turns es) (map snd (worked (channel q)))). fit_turn k"
    by blast
  have "ffi_wf (snd (world (channel q)))"
    using dart.direct_stays_good [OF dir] fk assms(3) by simp
  from dart.worker_drains [OF fl assms(8) this assms(6,7), where orphaned = stopped_reply] obtain s
    where s: "channel_run (dart_work x enc) stopped_reply (map Turn ks) (channel q) = Some s" "flowing s" "running s"
      "inbox s = []" "pending_ids s = pending_ids (channel q)" by blast
  from replies_drain [OF s(2-4), where work = "dart_work x enc" and orphaned = stopped_reply] s(1,5)
  show ?thesis by (auto simp: channel_run_append)
qed

section \<open>After a stop\<close>

lemma takeLastError_arcs_wf: "takeLastError t st = Some (d, st') \<Longrightarrow> arcs_wf held st' = arcs_wf held st"
  for st :: process
proof -
  assume d: "takeLastError t st = Some (d, st')"
  obtain p st1 where e: "rk_quic_last_error t st = (p, st1)" by fastforce
  then have "arcs_wf held st1 = arcs_wf held st"
    by (auto simp: rk_quic_last_error_def into_owned_arcs_wf split: option.splits)
  moreover have "arcs_wf held (st1\<lparr>heap := hp\<rparr>) = arcs_wf held st1" for hp
    by (rule arcs_wf_frame) simp_all
  ultimately show ?thesis
    using d e by (auto simp: takeLastError_def rk_quic_string_free_def split: if_splits bind_splits option.splits)
qed

lemma calloc_arcs_wf [simp]:
  "arcs_wf held (calloc_u64 p st) = arcs_wf held st" "arcs_wf held (calloc_u16 p st) = arcs_wf held st"
  "arcs_wf held (free_u64 p st) = arcs_wf held st" "arcs_wf held (free_u16 p st) = arcs_wf held st"
  by (simp_all add: calloc_u64_def calloc_u16_def free_u64_def free_u16_def)

lemma status_reply_arcs_wf:
  "status_reply x k status st = Some (r, st') \<Longrightarrow> arcs_wf held st \<Longrightarrow> arcs_wf held st'"
  using takeLastError_arcs_wf [of "on_thread k" "others x k st" _ _ held] run_calls_wf [of held st x "meanwhile k"]
  by (auto simp: status_reply_def others_def split: if_splits bind_splits)

lemma command_arcs_wf:
  assumes "commandLoop x enc k c (h, st) = Some (r, h', st')" "arcs_wf held st"
  shows "arcs_wf held st'"
proof -
  have call: "arcs_wf held st1" if "api x t call st0 = (res, st1)" "arcs_wf held st0" for t call st0 res st1
    using wf_api [OF that(2), of x t call] that(1) by simp
  have port: "arcs_wf held (snd (api x t call (calloc_u16 p (run_calls (api x) cs st0))))" if "arcs_wf held st0"
    for t call p cs st0
    using that by (intro wf_api) (simp add: run_calls_wf)
  note steps = call port status_reply_arcs_wf
  show ?thesis
    using assms
    by (cases c)
      (auto simp: start_turn_def connect_turn_def open_stream_turn_def simple_turn_def others_def Let_def
        simp del: api.simps intro: steps split: prod.splits if_splits bind_splits dest!: call)
qed

lemma dart_work_arcs_wf:
  "direct (dart_work x enc) cs w = Some (rs, w') \<Longrightarrow> arcs_wf held (snd w) \<Longrightarrow> arcs_wf held (snd w')"
proof (induction cs arbitrary: w rs)
  case (Cons kc cs)
  obtain k c where kc: "kc = (k, c)" by fastforce
  with Cons.prems(1) obtain r w1 rs' where d: "dart_work x enc k c w = Some (r, w1)"
    "direct (dart_work x enc) cs w1 = Some (rs', w')" by (auto split: option.splits)
  obtain h st where w1: "w1 = (h, st)" by fastforce
  from command_arcs_wf [OF d(1) [unfolded dart_work_def w1] run_calls_wf [OF Cons.prems(2)]]
  have "arcs_wf held (snd w1)" by (simp add: w1)
  with Cons.IH [OF d(2)] show ?case by simp
qed simp

lemma direct_last:
  "direct work (cs @ [(k, c)]) w = Some (rs, w'') \<Longrightarrow>
     \<exists>rs' w' r. direct work cs w = Some (rs', w') \<and> work k c w' = Some (r, w'') \<and> rs = rs' @ [r]"
proof (induction cs arbitrary: w rs)
  case (Cons kc cs)
  obtain k' c' where kc: "kc = (k', c')" by fastforce
  with Cons.prems obtain r w1 rs' where d: "work k' c' w = Some (r, w1)"
    "direct work (cs @ [(k, c)]) w1 = Some (rs', w'')" "rs = r # rs'" by (auto split: option.splits)
  from Cons.IH [OF d(2)] d(1,3) show ?case by (auto simp: kc)
qed (auto split: option.splits)

lemma accepts_over: "fst (accepts c True es) = []"
  by (induction c True es rule: accepts.induct) (auto split: prod.splits)

lemma accepts_stop: "Stop \<in> set es \<Longrightarrow> \<exists>l. fst (accepts c False es) = l @ [c]"
proof (induction es)
  case (Cons e es)
  then show ?case using accepts_over [of c es] by (cases e) (auto split: prod.splits)
qed simp

lemma stopped_run:
  "holder_run work orphaned stop_command es q = Some q' \<Longrightarrow> stopped q' = (stopped q \<or> Stop \<in> set es)"
proof (induction es arbitrary: q)
  case (Cons e es)
  then obtain q1 where q1: "holder_step work orphaned stop_command e q = Some q1"
    "holder_run work orphaned stop_command es q1 = Some q'" by (auto split: bind_splits)
  from Cons.IH [OF q1(2)] accepted_step [OF q1(1)] show ?case by auto
qed simp

lemma stop_turn_unregisters:
  assumes "arcs_wf [] st" "commandLoop x enc k StopCommand (h, st) = Some (r, h', st')"
  shows "h' = h \<and> reg st' h = None"
proof -
  obtain result st1 where s: "rk_quic_server_stop (on_thread k) h st = (result, st1)" by fastforce
  have "reg st1 h = None"
  proof (cases "reg st h")
    case None
    with s assms(1) show ?thesis by (auto simp: rk_quic_server_stop_def remove_gone [of "[]"])
  next
    case (Some a)
    from reg_after_stop [OF assms(1) Some s] show ?thesis by simp
  qed
  with assms(2) s show ?thesis by auto
qed

text \<open>
  C11: When a stop in Dart has been answered the endpoint is gone: after any use of a server or a
  client, with calls in any number still open when it was asked to stop, the handle the object
  worked with names nothing in the registry, the poll isolate was told to end, and no call is open.
\<close>

theorem stopped_object_is_gone:
  assumes "created_by x enc c0 k0 st = Some q0" and "use_object x enc es q0 = Some q"
    and "arcs_wf [] st" and "\<not> polling q"
  shows "reg (snd (world (channel q))) (fst (world (channel q))) = None \<and>
    (\<exists>cs. map snd (worked (channel q)) = cs @ [StopCommand]) \<and> pending_ids (channel q) = []"
proof -
  let ?s = "channel q"
  from used_inv [OF assms(1,2)] have inv: "holder_inv (dart_work x enc) stopped_reply (0, st) (k0 # worker_turns es) q"
    and acc: "map snd (asked ?s) = c0 # fst (accepts StopCommand False es)" by simp_all
  from inv assms(4) have rest: "at_rest q" and ci: "channel_inv (dart_work x enc) stopped_reply (0, st) (k0 # worker_turns es) ?s"
    by (auto simp: holder_inv_def in_use_now_def stopping_def)
  have "Stop \<in> set es"
    using stopped_run [OF assms(2) [unfolded use_object_def]] created_inv [OF assms(1)] rest by (simp add: at_rest_def)
  from accepts_stop [OF this, of StopCommand] obtain l where "fst (accepts StopCommand False es) = l @ [StopCommand]"
    by blast
  with acc rest have "map snd (worked ?s) = (c0 # l) @ [StopCommand]" by (simp add: at_rest_def)
  then obtain cs where cs: "map snd (worked ?s) = cs @ [StopCommand]" by blast
  have "length (map snd (worked ?s)) = length (turns ?s)" by (simp add: worked_def)
  with ci have len: "length (k0 # worker_turns es) = length cs + 1" by (simp add: channel_inv_def cs)
  from ci have dir: "direct (dart_work x enc) (zip (k0 # worker_turns es) (cs @ [StopCommand])) (0, st) =
      Some (map snd (answers ?s), world ?s)"
    unfolding channel_inv_def cs [symmetric] by blast
  from len obtain ks k where ks: "k0 # worker_turns es = ks @ [k]" "length ks = length cs"
    by (metis Suc_eq_plus1 length_Suc_conv_rev)
  from dir have "direct (dart_work x enc) (zip ks cs @ [(k, StopCommand)]) (0, st) = Some (map snd (answers ?s), world ?s)"
    by (simp add: ks)
  from direct_last [OF this] obtain rs' w' r where w: "direct (dart_work x enc) (zip ks cs) (0, st) = Some (rs', w')"
    "dart_work x enc k StopCommand w' = Some (r, world ?s)" by blast
  obtain h1 st1 where w1: "world ?s = (h1, st1)" by fastforce
  have "arcs_wf [] (run_calls (api x) (fst k) (snd w'))"
    using dart_work_arcs_wf [OF w(1), of "[]"] assms(3) by (simp add: run_calls_wf)
  from stop_turn_unregisters [OF this w(2) [unfolded dart_work_def w1]] cs rest show ?thesis
    by (auto simp: at_rest_def w1)
qed

section \<open>A use to evaluate\<close>

text \<open>A stream is closed while the object is being stopped; a text comes too late.\<close>

definition demo_turn :: "(thread \<times> api_call) list \<times> turn" where
  "demo_turn = ([], \<lparr>on_thread = 3, cell1 = 8, cell2 = 9, meanwhile = []\<rparr>)"

definition demo_use :: "(command, (thread \<times> api_call) list \<times> turn) holder_event list" where
  "demo_use = [Call (StreamCloseCommand 1 9), Stop, WorkerTurn demo_turn, Call (SendCommand 1 ''x'' True),
     WorkerTurn demo_turn, ReplyArrives]"

lemma demo_used:
  "\<exists>q0 q. created_by calm (\<lambda>_. []) (StartCommand []) demo_turn initial_process = Some q0 \<and>
     use_object calm (\<lambda>_. []) demo_use q0 = Some q \<and> running (channel q) \<and> inbox (channel q) = [] \<and>
     pending_ids (channel q) = [2] \<and>
     (\<exists>q'. use_object calm (\<lambda>_. []) (demo_use @ [ReplyArrives]) q0 = Some q' \<and> \<not> polling q' \<and>
        refused q' = [SendCommand 1 ''x'' True])"
proof -
  let ?work = "dart_work calm (\<lambda>_. [])"
  have fit: "fit_turn demo_turn" by (simp add: fit_turn_def demo_turn_def)
  obtain r0 w0 where 0: "?work demo_turn (StartCommand []) (0, initial_process) = Some (r0, w0)" "ffi_wf (snd w0)"
    using dart.answers_always [OF _ fit, of "(0, initial_process)"] ffi_wf_initial by fastforce
  obtain r1 w1 where 1: "?work demo_turn (StreamCloseCommand 1 9) w0 = Some (r1, w1)" "ffi_wf (snd w1)"
    using dart.answers_always [OF 0(2) fit] by blast
  obtain r2 w2 where 2: "?work demo_turn StopCommand w1 = Some (r2, w2)"
    using dart.answers_always [OF 1(2) fit] by blast
  let ?s0 = "\<lparr>pending_ids = [], next_id = 1, inbox = [], replies = [], running = True, world = w0,
    asked = [(0, StartCommand [])], turns = [(0, StartCommand [], r0)], completed = [(0, r0)]\<rparr>"
  have c: "created_by calm (\<lambda>_. []) (StartCommand []) demo_turn initial_process = Some (held_by ?s0)"
    using 0(1) by (simp add: created_by_def spawned_def channel_send_def worker_turn_def deliver_reply_def)
  then show ?thesis
    using 1(1) 2
    by (simp add: use_object_def demo_use_def held_by_def channel_send_def worker_turn_def deliver_reply_def
        after_reply_def channel_dispose_def)
qed

theorem object_answers_every_call_witness:
  "\<exists>q0 q. created_by calm (\<lambda>_. []) (StartCommand []) demo_turn initial_process = Some q0 \<and>
     use_object calm (\<lambda>_. []) demo_use q0 = Some q \<and>
     map snd (asked (channel q)) = [StartCommand [], StreamCloseCommand 1 9, StopCommand]"
proof -
  from demo_used obtain q0 q where q: "created_by calm (\<lambda>_. []) (StartCommand []) demo_turn initial_process = Some q0"
    "use_object calm (\<lambda>_. []) demo_use q0 = Some q" by blast
  have "fst (accepts StopCommand False demo_use) = [StreamCloseCommand 1 9, StopCommand]"
    by (simp add: demo_use_def)
  with object_answers_every_call [OF q refl] q show ?thesis by simp
qed

theorem pending_calls_complete_witness:
  "\<exists>q0 q s. created_by calm (\<lambda>_. []) (StartCommand []) demo_turn initial_process = Some q0 \<and>
     use_object calm (\<lambda>_. []) demo_use q0 = Some q \<and> pending_ids (channel q) = [2] \<and>
     channel_run (dart_work calm (\<lambda>_. [])) stopped_reply [Deliver] (channel q) = Some s \<and> pending_ids s = []"
proof -
  from demo_used obtain q0 q where q: "created_by calm (\<lambda>_. []) (StartCommand []) demo_turn initial_process = Some q0"
    "use_object calm (\<lambda>_. []) demo_use q0 = Some q" "running (channel q)" "inbox (channel q) = []"
    "pending_ids (channel q) = [2]" by blast
  have fit: "fit_turn demo_turn" by (simp add: fit_turn_def demo_turn_def)
  then have "\<forall>k \<in> set (worker_turns demo_use). fit_turn k" by (simp add: demo_use_def)
  from pending_calls_complete [OF q(1,2) ffi_wf_initial fit this, of "[]"] q(3-5)
  obtain s where "channel_run (dart_work calm (\<lambda>_. [])) stopped_reply [Deliver] (channel q) = Some s" "pending_ids s = []"
    by (auto simp del: channel_run.simps)
  with q show ?thesis by blast
qed

theorem stopped_object_is_gone_witness:
  "\<exists>q0 q. use_object calm (\<lambda>_. []) (demo_use @ [ReplyArrives]) q0 = Some q \<and>
     refused q = [SendCommand 1 ''x'' True] \<and> reg (snd (world (channel q))) (fst (world (channel q))) = None"
proof -
  from demo_used obtain q0 q where q: "created_by calm (\<lambda>_. []) (StartCommand []) demo_turn initial_process = Some q0"
    "use_object calm (\<lambda>_. []) (demo_use @ [ReplyArrives]) q0 = Some q" "\<not> polling q"
    "refused q = [SendCommand 1 ''x'' True]" by blast
  from stopped_object_is_gone [OF q(1,2) arcs_wf_initial q(3)] q show ?thesis by blast
qed

end
