(* ===== verification/RkDart.thy ===== *)
theory RkDart
  imports RkCommands RkServed
begin

text \<open>
  Starting a server in Dart (\<open>QuicServer.start\<close> in \<open>lib/src/server_io.dart\<close>) and connecting a client
  (\<open>QuicClient.connect\<close> in \<open>lib/src/client_io.dart\<close>), from the configuration objects to what the caller
  gets; and what the methods of both make of a reply.
\<close>

section \<open>Configurations\<close>

text \<open>\<open>idleTimeout.inMilliseconds\<close> is a signed integer; a negative one is no \<open>u64\<close> in JSON.\<close>

definition dart_int :: "int \<Rightarrow> json" where
  "dart_int n = (if 0 \<le> n \<and> n < 2 ^ 63 then JNum (word_of_int n) else JOther)"

record QuicServerConfig =
  qs_bindAddress :: rstr
  qs_certificateChainPem :: rstr
  qs_privateKeyPem :: rstr
  qs_path :: rstr
  qs_idleTimeoutMs :: int

definition QuicServerConfig_toJson :: "QuicServerConfig \<Rightarrow> (string \<times> json) list" where
  "QuicServerConfig_toJson c =
     [(''bindAddress'', JStr (qs_bindAddress c)), (''certificateChainPem'', JStr (qs_certificateChainPem c)),
      (''privateKeyPem'', JStr (qs_privateKeyPem c)), (''path'', JStr (qs_path c)),
      (''idleTimeoutMs'', dart_int (qs_idleTimeoutMs c))]"

record QuicClientConfig =
  qc_url :: rstr
  qc_certificateHashSha256 :: rstr
  qc_idleTimeoutMs :: int

definition QuicClientConfig_toJson :: "QuicClientConfig \<Rightarrow> (string \<times> json) list" where
  "QuicClientConfig_toJson c =
     [(''url'', JStr (qc_url c)), (''certificateHashSha256'', JStr (qc_certificateHashSha256 c)),
      (''idleTimeoutMs'', dart_int (qc_idleTimeoutMs c))]"

section \<open>Start and connect\<close>

definition no_library :: rstr where
  "no_library = ''the native library could not be loaded; call probeNativeLibrary() '' @
     ''for which of missing, wrong file or wrong ABI it was''"

type_synonym object = "(command, reply, u64 \<times> process) holder"

text \<open>
  The status, what the caller gets (the port and the server, the session id and the client), the
  detail, and the process afterwards. The start is the first command of a new channel; if the reply is
  not the one hoped for the channel is disposed of. \<open>loaded\<close> tells whether the library
  was found; one that is found and cannot be bound is the matter of \<open>RkLoader\<close>.
\<close>

definition QuicServer_start ::
  "external \<Rightarrow> ((string \<times> json) list \<Rightarrow> rstr) \<Rightarrow> bool \<Rightarrow> QuicServerConfig \<Rightarrow>
   (thread \<times> api_call) list \<times> turn \<Rightarrow> process \<Rightarrow>
   (RkQuicStatus \<times> (u16 \<times> object) option \<times> rstr option \<times> process) option" where
  "QuicServer_start x enc loaded config k st =
     (if \<not> loaded then Some (D_unsupported, None, Some no_library, st)
      else do {
        s \<leftarrow> channel_run (dart_work x enc) stopped_reply
               [Ask (StartCommand (QuicServerConfig_toJson config)), Turn k, Deliver] (spawned (0, st));
        reply \<leftarrow> map_of (completed s) 0;
        Some (case reply of
          StartedReply handle port \<Rightarrow> (D_ok, Some (port, held_by s), None, snd (world s))
        | StatusReply status detail \<Rightarrow>
            (status, None, detail, snd (world (channel_dispose stopped_reply s)))
        | _ \<Rightarrow> (D_unrecognised, None, Some ''unexpected reply'',
                snd (world (channel_dispose stopped_reply s))))
      })"

definition QuicClient_connect ::
  "external \<Rightarrow> ((string \<times> json) list \<Rightarrow> rstr) \<Rightarrow> bool \<Rightarrow> QuicClientConfig \<Rightarrow>
   (thread \<times> api_call) list \<times> turn \<Rightarrow> process \<Rightarrow>
   (RkQuicStatus \<times> (u64 \<times> object) option \<times> rstr option \<times> process) option" where
  "QuicClient_connect x enc loaded config k st =
     (if \<not> loaded then Some (D_unsupported, None, Some no_library, st)
      else do {
        s \<leftarrow> channel_run (dart_work x enc) stopped_reply
               [Ask (ConnectCommand (QuicClientConfig_toJson config)), Turn k, Deliver] (spawned (0, st));
        reply \<leftarrow> map_of (completed s) 0;
        Some (case reply of
          ConnectedReply handle session \<Rightarrow> (D_ok, Some (session, held_by s), None, snd (world s))
        | StatusReply status detail \<Rightarrow>
            (status, None, detail, snd (world (channel_dispose stopped_reply s)))
        | _ \<Rightarrow> (D_unrecognised, None, Some ''unexpected reply'',
                snd (world (channel_dispose stopped_reply s))))
      })"

text \<open>What \<open>send\<close>, \<open>sendOn\<close>, \<open>closeStream\<close>, \<open>stop\<close> and \<open>close\<close> answer, and what \<open>openStream\<close> does.\<close>

fun status_result :: "reply \<Rightarrow> RkQuicStatus" where
  "status_result (StatusReply status _) = status"
| "status_result _ = D_unrecognised"

fun stream_result :: "reply \<Rightarrow> RkQuicStatus \<times> u64 option" where
  "stream_result (StreamOpenedReply stream) = (D_ok, Some stream)"
| "stream_result (StatusReply status _) = (status, None)"
| "stream_result _ = (D_unrecognised, None)"

section \<open>One command on a new channel\<close>

lemma first_command:
  "channel_run work orphaned [Ask c, Turn k, Deliver] (spawned w) =
     (case work k c w of
        None \<Rightarrow> None
      | Some (r, w') \<Rightarrow> Some \<lparr>pending_ids = [], next_id = 1, inbox = [], replies = [], running = True, world = w',
          asked = [(0, c)], turns = [(0, c, r)], completed = [(0, r)]\<rparr>)"
  by (simp add: spawned_def channel_send_def worker_turn_def deliver_reply_def split: option.splits)

lemma start_result:
  "QuicServer_start x enc True config k st =
     (case dart_work x enc k (StartCommand (QuicServerConfig_toJson config)) (0, st) of
        None \<Rightarrow> None
      | Some (r, w) \<Rightarrow> Some (case r of
          StartedReply handle port \<Rightarrow> (D_ok, Some (port, held_by \<lparr>pending_ids = [], next_id = 1, inbox = [],
            replies = [], running = True, world = w, asked = [(0, StartCommand (QuicServerConfig_toJson config))],
            turns = [(0, StartCommand (QuicServerConfig_toJson config), r)], completed = [(0, r)]\<rparr>), None, snd w)
        | StatusReply status detail \<Rightarrow> (status, None, detail, snd w)
        | _ \<Rightarrow> (D_unrecognised, None, Some ''unexpected reply'', snd w)))"
  unfolding QuicServer_start_def first_command
  by (auto simp: channel_dispose_def split: option.splits reply.splits)

section \<open>A server in Dart\<close>

text \<open>
  What is relied on of \<open>jsonEncode\<close>: its text for an object is UTF-8 without a NUL, and
  \<open>serde_json\<close> reads it as that object.
\<close>

definition printed ::
  "((string \<times> json) list \<Rightarrow> rstr) \<Rightarrow> (rstr \<Rightarrow> rstr + 'c) \<Rightarrow> ((string \<times> json) list \<Rightarrow> de_error + 'c) \<Rightarrow>
   (string \<times> json) list \<Rightarrow> bool" where
  "printed jsonEncode from_str reader members \<longleftrightarrow>
     NUL \<notin> set (jsonEncode members) \<and> utf8_valid (jsonEncode members) \<and>
     object_text from_str reader (jsonEncode members) members"

lemma borrow_printed:
  "NUL \<notin> set s \<Longrightarrow> utf8_valid s \<Longrightarrow> borrow_c_string (toNativeUtf8 s) = Some s"
  using c_read_terminated [of s "[]"] by (simp add: borrow_c_string_def toNativeUtf8_def)

lemma takeLastError_more: "takeLastError t st = Some (d, st') \<Longrightarrow> ffi_state.more st' = ffi_state.more st"
proof -
  assume d: "takeLastError t st = Some (d, st')"
  obtain p st1 where e: "rk_quic_last_error t st = (p, st1)" by fastforce
  have io: "ffi_state.more st2 = ffi_state.more st0" if "into_owned_c_string v st0 = (q, st2)" for v q and st0 st2 :: "'a ffi_state_scheme"
    using into_owned_frame(5) [of v st0] that by simp
  from e have "ffi_state.more st1 = ffi_state.more st"
    by (auto simp: rk_quic_last_error_def dest!: io split: option.splits)
  then show ?thesis
    using d e by (auto simp: takeLastError_def rk_quic_string_free_def split: if_splits bind_splits option.splits)
qed

lemma more_kept:
  fixes st st' :: process
  assumes "ffi_state.more st' = ffi_state.more st"
  shows "reg st' = reg st" "arcs st' = arcs st" "trace st' = trace st"
  using assms by (cases st; cases st'; simp add: reg_def)+

lemma calloc_kept [simp]:
  "reg (calloc_u64 p st) = reg st" "reg (calloc_u16 p st) = reg st" "reg (free_u64 p st) = reg st"
  "reg (free_u16 p st) = reg st" "arc_at (calloc_u64 p st) a = arc_at st a" "arc_at (calloc_u16 p st) a = arc_at st a"
  "arc_at (free_u64 p st) a = arc_at st a" "arc_at (free_u16 p st) a = arc_at st a"
  "trace (calloc_u64 p st) = trace st" "trace (calloc_u16 p st) = trace st" "trace (free_u64 p st) = trace st"
  "trace (free_u16 p st) = trace st" "next_arc (calloc_u64 p st) = next_arc st"
  "handle_counter (calloc_u64 p st) = handle_counter st"
  by (simp_all add: calloc_u64_def calloc_u16_def free_u64_def free_u16_def reg_def arc_at_def)

lemma failed_start_call:
  assumes "arcs_wf held st" "rk_quic_server_start x t json out st = (result, st')" "result \<noteq> as_c_str StatusOk"
  shows "reg st' = reg st \<and> arcs st' = arcs st"
proof -
  have start: "registry st1 = registry st \<and> arcs st1 = arcs st" if "start x c (clear_last_error t st) = (Inl e, st1)" for c e st1
    using that unfolding start_def Let_def
    by (auto simp: next_handle_def register_never_fails [of held] assms(1) split: sum.splits if_splits prod.splits)
  have "registry st' = registry st \<and> arcs st' = arcs st"
    using assms(2,3)
    by (auto simp: rk_quic_server_start_def Let_def dest!: start split: option.splits sum.splits prod.splits)
  then show ?thesis by (simp add: reg_def)
qed

text \<open>Asking for the port of an endpoint: the port, and nothing changes but the caller's memory.\<close>

lemma port_asked:
  assumes "arcs_wf held st" "reg st h = Some a" "out \<noteq> 0"
  shows "\<exists>st'. rk_quic_server_local_port t h out st = (as_c_str StatusOk, st') \<and>
    map_of (cells_u16 st') out = Some (local_port (endpoint (arc_at st a))) \<and> reg st' = reg st \<and>
    arc_at st' a = arc_at st a \<and> trace st' = trace st"
proof -
  have "lookup h (clear_last_error t st) = (Some a, arc_clone a (clear_last_error t st))"
    using assms(1,2) by (intro lookup_registered [of held]) simp_all
  moreover have "0 < strong (arc_at st a)" using registered_healthy [OF assms(1,2)] by simp
  moreover have "arc_at (st1\<lparr>cells_u16 := c\<rparr>) a = arc_at st1 a" for st1 :: process and c
    by (simp add: arc_at_def)
  moreover have "arc_at (arc_clone a (clear_last_error t st)) a = (arc_at st a)\<lparr>strong := Suc (strong (arc_at st a))\<rparr>"
    by (simp add: arc_clone_def)
  ultimately show ?thesis
    using assms(3)
    by (auto simp: rk_quic_server_local_port_def map_of_write_out arc_at_drop_shared trace_drop_shared reg_def)
qed

lemma server_turn_fails:
  assumes "arcs_wf [] st" "meanwhile k = []"
    and "rk_quic_server_start x (on_thread k) (toNativeUtf8 (enc m)) (cell1 k) (calloc_u64 (cell1 k) st) = (result, st1)"
    and "result \<noteq> as_c_str StatusOk" "start_turn x enc k m (0, st) = Some (r, w)"
  shows "(\<exists>status detail. r = StatusReply status detail \<and> status \<noteq> D_ok) \<and> reg (snd w) = reg st \<and> arcs (snd w) = arcs st"
proof -
  obtain s where s: "result = as_c_str s"
    using api_status [of x "on_thread k" "ServerStart (toNativeUtf8 (enc m)) (cell1 k)" "calloc_u64 (cell1 k) st"] assms(3) by auto
  have wf: "arcs_wf [] (calloc_u64 (cell1 k) st)" using assms(1) by (simp add: calloc_u64_def)
  from failed_start_call [OF wf assms(3,4)] have st1: "reg st1 = reg st" "arcs st1 = arcs st" by simp_all
  have nok: "status_read result \<noteq> D_ok" using assms(4) by (simp add: s status_read_ok)
  with assms(2,3,5) obtain d st2 where t: "takeLastError (on_thread k) st1 = Some (d, st2)"
    "r = StatusReply (status_read result) d" "w = (0, free_u64 (cell1 k) st2)"
    by (auto simp: start_turn_def status_reply_def others_def split: bind_splits)
  from more_kept [OF takeLastError_more [OF t(1)]] st1 t(2,3) nok show ?thesis by simp
qed

lemma server_turn_serves:
  assumes wf: "arcs_wf [] st" and free: "reg st (handle_counter st) = None" and k: "meanwhile k = []" "cell1 k \<noteq> 0" "cell2 k \<noteq> 0"
    and p: "printed enc (x_server_config_from_str x) ServerConfig_deserialize m"
    and call: "rk_quic_server_start x (on_thread k) (toNativeUtf8 (enc m)) (cell1 k) (calloc_u64 (cell1 k) st) =
      (as_c_str StatusOk, st1)"
    and turn: "start_turn x enc k m (0, st) = Some (r, w)"
  shows "r = StartedReply (handle_counter st) (local_port (endpoint (arc_at st1 (next_arc st)))) \<and>
    fst w = handle_counter st \<and> reg (snd w) = reg st1 \<and> arc_at (snd w) (next_arc st) = arc_at st1 (next_arc st) \<and>
    trace (snd w) = trace st1"
proof -
  let ?h = "handle_counter st" and ?a = "next_arc st" and ?st0 = "calloc_u64 (cell1 k) st"
  have wf0: "arcs_wf [] ?st0" and free0: "reg ?st0 (handle_counter ?st0) = None"
    using wf free by (simp_all add: calloc_u64_def reg_def)
  have b: "borrow_c_string (toNativeUtf8 (enc m)) = Some (enc m)" using p by (simp add: printed_def borrow_printed)
  have o: "object_text (x_server_config_from_str x) ServerConfig_deserialize (enc m) m" using p by (simp add: printed_def)
  from server_runs_config [OF wf0 free0 b o call] have reg1: "reg st1 ?h = Some ?a"
    and c1: "cells_u64 st1 = write_out (cell1 k) ?h (cells_u64 ?st0)" by auto
  have "arcs_wf [] st1" using wf_start [OF wf0, of x "on_thread k" "toNativeUtf8 (enc m)" "cell1 k"] call by simp
  then have wf2: "arcs_wf [] (calloc_u16 (cell2 k) st1)" by (simp add: calloc_u16_def)
  have "reg (calloc_u16 (cell2 k) st1) ?h = Some ?a" using reg1 by simp
  from port_asked [OF wf2 this k(3), of "on_thread k"] obtain st3 where port:
    "rk_quic_server_local_port (on_thread k) ?h (cell2 k) (calloc_u16 (cell2 k) st1) = (as_c_str StatusOk, st3)"
    "map_of (cells_u16 st3) (cell2 k) = Some (local_port (endpoint (arc_at st1 ?a)))" "reg st3 = reg st1"
    "arc_at st3 ?a = arc_at st1 ?a" "trace st3 = trace st1" by auto
  have "map_of (cells_u64 st1) (cell1 k) = Some ?h" using k(2) by (simp add: c1 map_of_write_out)
  with turn call k(1) port show ?thesis
    by (auto simp: start_turn_def status_read_ok others_def Let_def split: bind_splits)
qed

text \<open>The endpoint that serves a configuration object.\<close>

lemma dart_config_serves:
  assumes "arcs_wf [] st" and "reg st (handle_counter st) = None"
    and "printed enc (x_server_config_from_str x) ServerConfig_deserialize (QuicServerConfig_toJson config)"
    and "rk_quic_server_start x t (toNativeUtf8 (enc (QuicServerConfig_toJson config))) out st = (as_c_str StatusOk, st1)"
  shows "\<exists>rt port bind wc. reg st1 = (reg st)(handle_counter st \<mapsto> next_arc st) \<and>
    arc_at st1 (next_arc st) = arc.truncate (server_node rt port (qs_path config)) \<and>
    local_port (endpoint (arc_at st1 (next_arc st))) = port \<and>
    trace st1 = trace st @ [BuildRuntime, OpenServerEndpoint wc] \<and>
    parse_socket_addr (qs_bindAddress config) = Some bind \<and>
    ws_bind wc = (case bind of V6 _ _ _ \<Rightarrow> with_bind_address_v6 bind DualStackAllow
      | V4 _ _ _ _ _ \<Rightarrow> with_bind_address bind) \<and>
    1000 \<le> qs_idleTimeoutMs config \<and> ws_max_idle_timeout wc = nat (qs_idleTimeoutMs config) * 1000000"
proof -
  let ?m = "QuicServerConfig_toJson config"
  from assms(3) have b: "borrow_c_string (toNativeUtf8 (enc ?m)) = Some (enc ?m)"
    and o: "object_text (x_server_config_from_str x) ServerConfig_deserialize (enc ?m) ?m"
    by (simp_all add: printed_def borrow_printed)
  from server_runs_config [OF assms(1,2) b o assms(4)] obtain address bind path timeout rt port wc where
    c: "text_or None ''bindAddress'' ?m = Some address" "parse_socket_addr address = Some bind"
    "text_or (Some ''/rk'') ''path'' ?m = Some path" "number_or (Some 30000) ''idleTimeoutMs'' ?m = Some timeout"
    "1000 \<le> unat timeout" and typed: "well_typed server_fields ?m"
    and run: "reg st1 = (reg st)(handle_counter st \<mapsto> next_arc st)"
    "arc_at st1 (next_arc st) = arc.truncate (server_node rt port path)"
    "trace st1 = trace st @ [BuildRuntime, OpenServerEndpoint wc]"
    "ws_bind wc = (case bind of V6 _ _ _ \<Rightarrow> with_bind_address_v6 bind DualStackAllow
       | V4 _ _ _ _ _ \<Rightarrow> with_bind_address bind)" "ws_max_idle_timeout wc = unat timeout * 1000000"
    by (elim exE conjE) (rule that; assumption)
  from c(1,3) have f: "address = qs_bindAddress config" "path = qs_path config"
    by (simp_all add: text_or_def QuicServerConfig_toJson_def)
  from typed have "dart_int (qs_idleTimeoutMs config) \<noteq> JOther"
    by (auto simp: well_typed_def QuicServerConfig_toJson_def server_fields_eval)
  then have n: "timeout = word_of_int (qs_idleTimeoutMs config)" "0 \<le> qs_idleTimeoutMs config" "qs_idleTimeoutMs config < 2 ^ 63"
    using c(4) by (auto simp: number_or_def QuicServerConfig_toJson_def dart_int_def split: if_splits)
  then have t: "unat timeout = nat (qs_idleTimeoutMs config)" by (simp add: unsigned_of_int take_bit_int_eq_self)
  have "local_port (endpoint (arc_at st1 (next_arc st))) = port"
    using run(2) by (simp add: server_node_def live_endpoint_def arc.truncate_def)
  with run c(2,5) f t n(2) show ?thesis
    by - (rule exI [of _ rt], rule exI [of _ port], rule exI [of _ bind], rule exI [of _ wc], simp)
qed

text \<open>
  C18: A server started in Dart serves its configuration: when \<open>QuicServer.start\<close> answers \<open>ok\<close> the
  caller has a server, one that answers every call, over a handle that names a new endpoint; it
  accepts sessions on exactly the path of the configuration, the network was asked to bind exactly
  its address and to use its timeout, which is at least a second, and the port the caller was given is
  the one bound; when it answers anything else there is no server and the process has no endpoint
  it did not have before.
\<close>

theorem dart_server_runs_its_config:
  assumes "arcs_wf [] st" and "reg st (handle_counter st) = None"
    and "meanwhile k = []" and "cell1 k \<noteq> 0" and "cell2 k \<noteq> 0"
    and "printed enc (x_server_config_from_str x) ServerConfig_deserialize (QuicServerConfig_toJson config)"
    and "QuicServer_start x enc loaded config ([], k) st = Some (status, server, detail, st')"
  shows "if status = D_ok then
      (\<exists>port q rt bind wc. server = Some (port, q) \<and>
        created_by x enc (StartCommand (QuicServerConfig_toJson config)) ([], k) st = Some q \<and>
        world (channel q) = (handle_counter st, st') \<and> reg st' = (reg st)(handle_counter st \<mapsto> next_arc st) \<and>
        arc_at st' (next_arc st) = arc.truncate (server_node rt port (qs_path config)) \<and>
        trace st' = trace st @ [BuildRuntime, OpenServerEndpoint wc] \<and>
        parse_socket_addr (qs_bindAddress config) = Some bind \<and>
        ws_bind wc = (case bind of V6 _ _ _ \<Rightarrow> with_bind_address_v6 bind DualStackAllow
          | V4 _ _ _ _ _ \<Rightarrow> with_bind_address bind) \<and>
        1000 \<le> qs_idleTimeoutMs config \<and> ws_max_idle_timeout wc = nat (qs_idleTimeoutMs config) * 1000000)
    else server = None \<and> reg st' = reg st \<and> arcs st' = arcs st"
proof (cases loaded)
  case False
  with assms(7) show ?thesis by (auto simp: QuicServer_start_def)
next
  case True
  let ?m = "QuicServerConfig_toJson config" and ?st0 = "calloc_u64 (cell1 k) st"
  from assms(7) True obtain r w where turn: "start_turn x enc k ?m (0, st) = Some (r, w)"
    by (auto simp: start_result dart_work_def split: option.splits)
  obtain result st1 where call: "rk_quic_server_start x (on_thread k) (toNativeUtf8 (enc ?m)) (cell1 k) ?st0 = (result, st1)"
    by fastforce
  show ?thesis
  proof (cases "result = as_c_str StatusOk")
    case False
    from server_turn_fails [OF assms(1,3) call this turn] assms(7) True turn show ?thesis
      by (auto simp: start_result dart_work_def)
  next
    case ok: True
    note serves = server_turn_serves [OF assms(1-6) call [unfolded ok] turn]
    have "arcs_wf [] ?st0" "reg ?st0 (handle_counter ?st0) = None"
      using assms(1,2) by (simp_all add: calloc_u64_def reg_def)
    from dart_config_serves [OF this assms(6) call [unfolded ok]] obtain rt port bind wc where
      run: "reg st1 = (reg st)(handle_counter st \<mapsto> next_arc st)"
      "arc_at st1 (next_arc st) = arc.truncate (server_node rt port (qs_path config))"
      "local_port (endpoint (arc_at st1 (next_arc st))) = port" "trace st1 = trace st @ [BuildRuntime, OpenServerEndpoint wc]"
      and conf: "parse_socket_addr (qs_bindAddress config) = Some bind"
      "ws_bind wc = (case bind of V6 _ _ _ \<Rightarrow> with_bind_address_v6 bind DualStackAllow
        | V4 _ _ _ _ _ \<Rightarrow> with_bind_address bind)"
      "1000 \<le> qs_idleTimeoutMs config" "ws_max_idle_timeout wc = nat (qs_idleTimeoutMs config) * 1000000"
      by (elim exE conjE) (rule that; simp)
    let ?q = "held_by \<lparr>pending_ids = [], next_id = 1, inbox = [], replies = [], running = True, world = w,
      asked = [(0, StartCommand ?m)], turns = [(0, StartCommand ?m, r)], completed = [(0, r)]\<rparr>"
    have d: "dart_work x enc ([], k) (StartCommand ?m) (0, st) = Some (r, w)" using turn by (simp add: dart_work_def)
    from assms(7) True d serves run(3) have out: "status = D_ok" "server = Some (port, ?q)" "st' = snd w"
      by (simp_all add: start_result)
    have q: "created_by x enc (StartCommand ?m) ([], k) st = Some ?q" "world (channel ?q) = (handle_counter st, snd w)"
      using serves by (simp_all only: created_by_def first_command d option.case prod.case option.map)
        (cases w, simp add: held_by_def)
    show ?thesis
      unfolding out if_True simp_thms
      by (rule exI [of _ port], rule exI [of _ ?q], rule exI [of _ rt], rule exI [of _ bind], rule exI [of _ wc])
        (use q run serves conf in simp)
  qed
qed

definition demo_config :: QuicServerConfig where
  "demo_config = \<lparr>qs_bindAddress = sc_bind_address good_server_config, qs_certificateChainPem = ''C'',
     qs_privateKeyPem = ''K'', qs_path = ''/rk'', qs_idleTimeoutMs = 30000\<rparr>"

lemma demo_config_printed:
  "printed (\<lambda>_. []) (x_server_config_from_str calm) ServerConfig_deserialize (QuicServerConfig_toJson demo_config)"
  by (simp add: printed_def object_text_def demo_config_def QuicServerConfig_toJson_def dart_int_def
      ServerConfig_deserialize_def server_fields_eval string_field_def u64_field_def calm_def good_server_config_def
      del: display_socket_addr.simps)

theorem dart_server_runs_its_config_witness:
  "\<exists>port q st' rt. QuicServer_start calm (\<lambda>_. []) True demo_config demo_turn initial_process =
       Some (D_ok, Some (port, q), None, st') \<and> world (channel q) = (1, st') \<and> reg st' 1 = Some 0 \<and>
     arc_at st' 0 = arc.truncate (server_node rt port ''/rk'')"
proof -
  let ?k = "snd demo_turn" and ?m = "QuicServerConfig_toJson demo_config"
  have k: "demo_turn = ([], ?k)" "meanwhile ?k = []" "cell1 ?k \<noteq> 0" "cell2 ?k \<noteq> 0" by (simp_all add: demo_turn_def)
  have fit: "fit_turn demo_turn" by (simp add: fit_turn_def demo_turn_def)
  obtain r w where d: "dart_work calm (\<lambda>_. []) demo_turn (StartCommand ?m) (0, initial_process) = Some (r, w)"
    using dart.answers_always [OF _ fit, of "(0, initial_process)"] ffi_wf_initial by fastforce
  have "\<exists>st1. rk_quic_server_start calm (on_thread ?k) (toNativeUtf8 []) (cell1 ?k) (calloc_u64 (cell1 ?k) initial_process) =
      (as_c_str StatusOk, st1)"
  proof -
    have b: "borrow_c_string (toNativeUtf8 []) = Some []" by code_simp
    have j: "x_server_config_from_str calm [] = Inr good_server_config" by (simp add: calm_def)
    show ?thesis
      by (simp add: rk_quic_server_start_def b j good_config_parses Let_def calloc_u64_def)
        (simp add: start_def identity_from_def calm_def Let_def next_handle_def register_def arc_new_def)
  qed
  then obtain st1 where call: "rk_quic_server_start calm (on_thread ?k) (toNativeUtf8 []) (cell1 ?k)
      (calloc_u64 (cell1 ?k) initial_process) = (as_c_str StatusOk, st1)" by blast
  have f: "reg initial_process (handle_counter initial_process) = None" by (simp add: reg_def new_mutex_def)
  have turn: "start_turn calm (\<lambda>_. []) ?k ?m (0, initial_process) = Some (r, w)" using d k(1) by (simp add: dart_work_def demo_turn_def)
  from server_turn_serves [OF arcs_wf_initial f k(2-4) demo_config_printed call turn] obtain port where
    "r = StartedReply (handle_counter initial_process) port" by blast
  with d obtain q where out: "QuicServer_start calm (\<lambda>_. []) True demo_config ([], ?k) initial_process =
      Some (D_ok, Some (port, q), None, snd w)" using k(1) by (auto simp: start_result)
  from dart_server_runs_its_config [OF arcs_wf_initial f k(2-4) demo_config_printed out] out k(1) show ?thesis
    by (auto simp: demo_config_def)
qed

end
