(* ===== verification/RkLoader.thy ===== *)
theory RkLoader
  imports RkDart
begin

text \<open>
  Finding the native library: \<open>lib/src/loader_io.dart\<close>, \<open>lib/src/native_probe.dart\<close>, the two uses of
  it in \<open>lib/src/endpoint_io.dart\<close>, and the half that a browser gets (\<open>lib/src/loader_web.dart\<close>).

  The dynamic linker is a parameter (record \<open>machine\<close>): what opening a path gives, and what the
  process itself exports. A library is the names it exports and what its two questions answer, the
  version as a reader of C strings reads it. Opening a path twice gives the same.
\<close>

section \<open>Libraries and the machine\<close>

record dynamic_library =
  exports :: "string \<Rightarrow> bool"
  abi_answer :: u32
  version_text :: rstr

record machine =
  open_file :: "rstr \<Rightarrow> rstr + dynamic_library"
  process_image :: "rstr + dynamic_library"
  lookup_error :: "string \<Rightarrow> rstr"

datatype platform = Windows | MacOS | IOS | OtherPlatform

datatype NativeLoadOutcome = Loaded | UnsupportedPlatform | LibraryMissing | SymbolMissing | AbiMismatch

record NativeProbe =
  outcome :: NativeLoadOutcome
  np_version :: "rstr option"
  np_abiVersion :: "int option"
  np_detail :: "rstr option"
  np_path :: "rstr option"

definition isUsable :: "NativeProbe \<Rightarrow> bool" where
  "isUsable r \<longleftrightarrow> outcome r = Loaded"

section \<open>The probe\<close>

definition rkQuicAbiVersion :: int where
  "rkQuicAbiVersion = 2"

definition processImageCandidate :: rstr where
  "processImageCandidate = ''<process image>''"

definition defaultCandidatePaths :: "rstr option \<Rightarrow> platform \<Rightarrow> rstr list" where
  "defaultCandidatePaths explicit p =
     (case explicit of Some path \<Rightarrow> if path \<noteq> [] then [path] else [] | None \<Rightarrow> []) @
     (case p of
        Windows \<Rightarrow> [''rk_quic.dll'']
      | MacOS \<Rightarrow> [''rk_quic.framework/rk_quic'', ''librk_quic.dylib'', processImageCandidate]
      | IOS \<Rightarrow> [''rk_quic.framework/rk_quic'', ''librk_quic.dylib'', processImageCandidate]
      | OtherPlatform \<Rightarrow> [''librk_quic.so''])"

definition firstLine :: "rstr \<Rightarrow> rstr" where
  "firstLine e = takeWhile (\<lambda>c. c \<noteq> CHR 0x0A) e"

fun join :: "rstr \<Rightarrow> rstr list \<Rightarrow> rstr" where
  "join sep [] = []"
| "join sep [s] = s"
| "join sep (s # t # ss) = s @ sep @ join sep (t # ss)"

definition int_dec :: "int \<Rightarrow> rstr" where
  "int_dec n = (if n < 0 then CHR ''-'' # nat_dec (nat (- n)) else nat_dec (nat n))"

definition open_candidate :: "machine \<Rightarrow> rstr \<Rightarrow> rstr + dynamic_library" where
  "open_candidate m path = (if path = processImageCandidate then process_image m else open_file m path)"

text \<open>The two symbols the probe looks up, and the first of them that is missing.\<close>

definition probed_symbols :: "string list" where
  "probed_symbols = [''rk_quic_abi_version'', ''rk_quic_version'']"

definition missing_symbol :: "dynamic_library \<Rightarrow> string option" where
  "missing_symbol lib = find (\<lambda>s. \<not> exports lib s) probed_symbols"

fun probe_from :: "machine \<Rightarrow> int \<Rightarrow> rstr list \<Rightarrow> rstr list \<Rightarrow> NativeProbe" where
  "probe_from m expected attempts [] =
     \<lparr>outcome = LibraryMissing, np_version = None, np_abiVersion = None,
      np_detail = Some (''tried '' @ nat_dec (length attempts) @ '': '' @ join ''; '' attempts), np_path = None\<rparr>"
| "probe_from m expected attempts (path # candidates) =
     (case open_candidate m path of
        Inl e \<Rightarrow> probe_from m expected (attempts @ [path @ '': '' @ firstLine e]) candidates
      | Inr lib \<Rightarrow>
          (case missing_symbol lib of
             Some s \<Rightarrow> \<lparr>outcome = SymbolMissing, np_version = None, np_abiVersion = None,
               np_detail = Some (''opened but does not export the rk_quic ABI: '' @ firstLine (lookup_error m s)),
               np_path = Some path\<rparr>
           | None \<Rightarrow>
               if uint (abi_answer lib) \<noteq> expected then
                 \<lparr>outcome = AbiMismatch, np_version = Some (version_text lib),
                  np_abiVersion = Some (uint (abi_answer lib)),
                  np_detail = Some (''library implements ABI generation '' @ int_dec (uint (abi_answer lib)) @
                    '', this build speaks '' @ int_dec expected),
                  np_path = Some path\<rparr>
               else
                 \<lparr>outcome = Loaded, np_version = Some (version_text lib),
                  np_abiVersion = Some (uint (abi_answer lib)), np_detail = None, np_path = Some path\<rparr>))"

definition probeNativeLibrary ::
  "machine \<Rightarrow> rstr option \<Rightarrow> platform \<Rightarrow> int option \<Rightarrow> rstr list option \<Rightarrow> NativeProbe" where
  "probeNativeLibrary m explicit p expectedAbiVersion candidatePaths =
     (let expected = (case expectedAbiVersion of Some n \<Rightarrow> n | None \<Rightarrow> rkQuicAbiVersion);
          candidates = (case candidatePaths of Some cs \<Rightarrow> cs | None \<Rightarrow> defaultCandidatePaths explicit p)
      in if candidates = [] then
           \<lparr>outcome = LibraryMissing, np_version = None, np_abiVersion = None,
            np_detail = Some ''no candidate library names for this platform'', np_path = None\<rparr>
         else probe_from m expected [] candidates)"

section \<open>Binding\<close>

definition rk_symbols :: "string list" where
  "rk_symbols =
     [''rk_quic_abi_version'', ''rk_quic_version'', ''rk_quic_string_free'', ''rk_quic_last_error'',
      ''rk_quic_server_start'', ''rk_quic_server_stop'', ''rk_quic_server_local_port'',
      ''rk_quic_server_poll'', ''rk_quic_session_send'', ''rk_quic_stream_send'', ''rk_quic_stream_close'',
      ''rk_quic_client_connect'', ''rk_quic_client_open_stream'']"

definition RkQuicBindings :: "dynamic_library \<Rightarrow> bool" where
  "RkQuicBindings lib = list_all (exports lib) rk_symbols"

text \<open>The path that was probed is opened again, as a file.\<close>

definition openBindings ::
  "machine \<Rightarrow> rstr option \<Rightarrow> platform \<Rightarrow> rstr list option \<Rightarrow> dynamic_library option" where
  "openBindings m explicit p candidatePaths =
     (let probe = probeNativeLibrary m explicit p None candidatePaths in
      case np_path probe of
        None \<Rightarrow> None
      | Some path \<Rightarrow>
          if \<not> isUsable probe then None
          else (case open_file m path of
                  Inl _ \<Rightarrow> None
                | Inr lib \<Rightarrow> if RkQuicBindings lib then Some lib else None))"

text \<open>The command isolate: the loop over the library, or the answer that there is none.\<close>

definition command_isolate ::
  "machine \<Rightarrow> rstr option \<Rightarrow> platform \<Rightarrow> rstr list option \<Rightarrow>
   external \<Rightarrow> ((string \<times> json) list \<Rightarrow> rstr) \<Rightarrow> (thread \<times> api_call) list \<times> turn \<Rightarrow> command \<Rightarrow>
   u64 \<times> process \<Rightarrow> (reply \<times> u64 \<times> process) option" where
  "command_isolate m explicit p candidatePaths x enc k c w =
     (case openBindings m explicit p candidatePaths of
        None \<Rightarrow> commandLoop_unloaded c w
      | Some _ \<Rightarrow> dart_work x enc k c w)"

section \<open>The browser\<close>

definition rkQuicAbiVersion_web :: int where
  "rkQuicAbiVersion_web = 1"

definition probeNativeLibrary_web :: "int option \<Rightarrow> rstr list option \<Rightarrow> NativeProbe" where
  "probeNativeLibrary_web expectedAbiVersion candidatePaths =
     \<lparr>outcome = UnsupportedPlatform, np_version = None, np_abiVersion = None,
      np_detail = Some (''the browser has no dart:ffi; it is the client of a WebTransport '' @
        ''endpoint, not its host''), np_path = None\<rparr>"

text \<open>Code compiled for both halves reads another generation in the browser.\<close>

lemma halves_differ_in_generation:
  "rkQuicAbiVersion = uint RK_QUIC_ABI_VERSION" "rkQuicAbiVersion_web \<noteq> rkQuicAbiVersion"
  by (simp_all add: rkQuicAbiVersion_def rkQuicAbiVersion_web_def RK_QUIC_ABI_VERSION_def)

section \<open>What is found\<close>

definition opens_nothing :: "machine \<Rightarrow> rstr \<Rightarrow> bool" where
  "opens_nothing m path \<longleftrightarrow> (case open_candidate m path of Inl _ \<Rightarrow> True | Inr _ \<Rightarrow> False)"

text \<open>What is said of the first candidate that opens.\<close>

definition verdict :: "dynamic_library \<Rightarrow> int \<Rightarrow> NativeLoadOutcome" where
  "verdict lib expected =
     (if \<not> list_all (exports lib) probed_symbols then SymbolMissing
      else if uint (abi_answer lib) = expected then Loaded else AbiMismatch)"

lemma missing_symbol_iff: "missing_symbol lib = None \<longleftrightarrow> list_all (exports lib) probed_symbols"
  by (auto simp: missing_symbol_def find_None_iff list_all_iff)

lemma probe_skips:
  "\<forall>p \<in> set before. opens_nothing m p \<Longrightarrow>
     \<exists>attempts'. probe_from m expected attempts (before @ candidates) = probe_from m expected attempts' candidates"
  by (induction before arbitrary: attempts) (auto simp: opens_nothing_def split: sum.splits)

lemma probe_opened:
  assumes "open_candidate m path = Inr lib"
  shows "outcome (probe_from m expected attempts (path # candidates)) = verdict lib expected"
    "np_path (probe_from m expected attempts (path # candidates)) = Some path"
    "np_version (probe_from m expected attempts (path # candidates)) =
       (if verdict lib expected = SymbolMissing then None else Some (version_text lib))"
  using assms missing_symbol_iff [of lib] by (auto simp: verdict_def split: option.splits)

lemma first_opened:
  assumes "\<exists>p \<in> set candidates. \<not> opens_nothing m p"
  shows "\<exists>before path after lib. candidates = before @ path # after \<and>
    (\<forall>p \<in> set before. opens_nothing m p) \<and> open_candidate m path = Inr lib"
proof -
  from split_list_first_prop [OF assms] obtain before path after where c: "candidates = before @ path # after"
    "\<not> opens_nothing m path" "\<forall>p \<in> set before. opens_nothing m p" by auto
  from c(2) obtain lib where "open_candidate m path = Inr lib" by (auto simp: opens_nothing_def split: sum.splits)
  with c show ?thesis by blast
qed

lemma probe_missing:
  "\<forall>p \<in> set candidates. opens_nothing m p \<Longrightarrow>
     outcome (probe_from m expected attempts candidates) = LibraryMissing \<and>
     np_path (probe_from m expected attempts candidates) = None"
  using probe_skips [of candidates m expected attempts "[]"] by auto

lemma probe_of_candidates:
  "candidates \<noteq> [] \<Longrightarrow> probeNativeLibrary m explicit p e (Some candidates) =
     probe_from m (case e of Some n \<Rightarrow> n | None \<Rightarrow> rkQuicAbiVersion) [] candidates"
  by (simp add: probeNativeLibrary_def)

text \<open>
  C28: The first candidate that opens decides, whatever comes after it, and nothing else can: the
  probe reports that nothing was found exactly when no candidate opens; otherwise it names that
  candidate and says of it whether it lacks one of the two symbols, is of another generation, or can
  be used, with its version. What is then bound is the file of that name, and it exports every
  function of the C ABI.
\<close>

theorem first_opened_decides:
  fixes r :: NativeProbe and expected :: "int option"
  assumes "r = probeNativeLibrary m explicit p expected (Some candidates)"
    and "g = (case expected of Some n \<Rightarrow> n | None \<Rightarrow> rkQuicAbiVersion)"
  shows "(outcome r = LibraryMissing \<longleftrightarrow> (\<forall>q \<in> set candidates. opens_nothing m q)) \<and>
    (outcome r \<noteq> LibraryMissing \<longrightarrow> (\<exists>before path after lib. candidates = before @ path # after \<and>
       (\<forall>q \<in> set before. opens_nothing m q) \<and> open_candidate m path = Inr lib \<and>
       np_path r = Some path \<and> outcome r = verdict lib g \<and>
       (isUsable r \<longrightarrow> uint (abi_answer lib) = g \<and> np_version r = Some (version_text lib)) \<and>
       (expected = None \<longrightarrow> (\<forall>bound. openBindings m explicit p (Some candidates) = Some bound \<longrightarrow>
          isUsable r \<and> open_file m path = Inr bound \<and> list_all (exports bound) rk_symbols))))"
proof (cases "\<forall>q \<in> set candidates. opens_nothing m q")
  case True
  then have "outcome r = LibraryMissing"
    using probe_missing [OF True] unfolding assms(1)
    by (cases "candidates = []") (simp_all add: probeNativeLibrary_def)
  with True show ?thesis by blast
next
  case False
  then obtain before path after lib where c: "candidates = before @ path # after"
    "\<forall>q \<in> set before. opens_nothing m q" "open_candidate m path = Inr lib"
    using first_opened by blast
  then have "candidates \<noteq> []" by simp
  from probe_of_candidates [OF this, of m explicit p expected] probe_skips [OF c(2), of g "[]" "path # after"]
  obtain tries where r: "r = probe_from m g tries (path # after)" by (auto simp: assms c(1) simp del: probe_from.simps)
  note o = probe_opened [OF c(3), of g tries after, folded r]
  have found: "verdict lib g \<noteq> LibraryMissing" by (simp add: verdict_def)
  have bound: "isUsable r \<and> open_file m path = Inr b \<and> list_all (exports b) rk_symbols"
    if "expected = None" "openBindings m explicit p (Some candidates) = Some b" for b
    using that(2) o(2) unfolding openBindings_def Let_def assms(1) [unfolded that(1), symmetric]
    by (auto simp: RkQuicBindings_def split: option.splits sum.splits if_splits)
  have "uint (abi_answer lib) = g \<and> np_version r = Some (version_text lib)" if "isUsable r"
    using that o by (auto simp: isUsable_def verdict_def split: if_splits)
  with False o found c bound show ?thesis by (intro conjI impI) (blast | simp)+
qed


section \<open>Machines to evaluate\<close>

text \<open>The library of the crate, and machines that have it as a file and in the process.\<close>

definition crate_library :: dynamic_library where
  "crate_library = \<lparr>exports = (\<lambda>s. s \<in> set rk_symbols), abi_answer = rk_quic_abi_version,
     version_text = the (c_read rk_quic_version)\<rparr>"

definition linux_machine :: machine where
  "linux_machine = \<lparr>open_file = (\<lambda>path. if path = ''librk_quic.so'' then Inr crate_library else Inl ''no such file''),
     process_image = Inl ''none'', lookup_error = (\<lambda>s. s)\<rparr>"

definition apple_machine :: machine where
  "apple_machine = \<lparr>open_file = (\<lambda>path. Inl ''no such file''), process_image = Inr crate_library,
     lookup_error = (\<lambda>s. s)\<rparr>"

lemma crate_exports: "list_all (exports crate_library) rk_symbols"
  by (simp add: crate_library_def list_all_iff)

theorem first_opened_decides_witness:
  "\<exists>r. r = probeNativeLibrary linux_machine None OtherPlatform None (Some (defaultCandidatePaths None OtherPlatform)) \<and>
     outcome r \<noteq> LibraryMissing \<and> np_path r = Some ''librk_quic.so''"
proof -
  let ?c = "defaultCandidatePaths None OtherPlatform"
  have c: "?c = [''librk_quic.so'']" by (simp add: defaultCandidatePaths_def)
  have o: "\<not> opens_nothing linux_machine ''librk_quic.so''"
    by (simp add: opens_nothing_def open_candidate_def linux_machine_def processImageCandidate_def)
  from first_opened_decides [OF refl refl, of linux_machine None OtherPlatform None ?c] o
  show ?thesis by (auto simp: c Cons_eq_append_conv)
qed


end
