(* ===== verification/RkDartClient.thy ===== *)
theory RkDartClient
  imports RkDart
begin

text \<open>
  \<open>QuicClient.connect\<close> (\<open>lib/src/client_io.dart\<close>) from the configuration object to the endpoint that
  is connected, as \<open>RkDart\<close> does it for a server.
\<close>

lemma connect_result:
  "QuicClient_connect x enc True config k st =
     (case dart_work x enc k (ConnectCommand (QuicClientConfig_toJson config)) (0, st) of
        None \<Rightarrow> None
      | Some (r, w) \<Rightarrow> Some (case r of
          ConnectedReply handle session \<Rightarrow> (D_ok, Some (session, held_by \<lparr>pending_ids = [], next_id = 1, inbox = [],
            replies = [], running = True, world = w, asked = [(0, ConnectCommand (QuicClientConfig_toJson config))],
            turns = [(0, ConnectCommand (QuicClientConfig_toJson config), r)], completed = [(0, r)]\<rparr>), None, snd w)
        | StatusReply status detail \<Rightarrow> (status, None, detail, snd w)
        | _ \<Rightarrow> (D_unrecognised, None, Some ''unexpected reply'', snd w)))"
  unfolding QuicClient_connect_def first_command
  by (auto simp: channel_dispose_def split: option.splits reply.splits)

lemma failed_connect_call:
  assumes "arcs_wf held st" "rk_quic_client_connect x t json oh os st = (result, st')" "result \<noteq> as_c_str StatusOk"
  shows "reg st' = reg st \<and> arcs st' = arcs st"
proof -
  have failed: "registry st1 = registry st \<and> arcs st1 = arcs st"
    if "connect x c (clear_last_error t st) = (Inl e, st1)" for c e st1
    using that unfolding connect_def Let_def
    by (auto simp: next_handle_def register_never_fails [of held] assms(1)
        ep_wf_emit ep_wf_sessions split: sum.splits if_splits prod.splits)
  have "registry st' = registry st \<and> arcs st' = arcs st"
    using assms(2,3)
    by (auto simp: rk_quic_client_connect_def Let_def dest!: failed
        split: option.splits sum.splits prod.splits outcome.splits)
  then show ?thesis by (simp add: reg_def)
qed

lemma client_turn_fails:
  assumes "arcs_wf [] st" "meanwhile k = []"
    and "rk_quic_client_connect x (on_thread k) (toNativeUtf8 (enc m)) (cell1 k) (cell2 k)
      (calloc_u64 (cell2 k) (calloc_u64 (cell1 k) st)) = (result, st1)"
    and "result \<noteq> as_c_str StatusOk" "connect_turn x enc k m (0, st) = Some (r, w)"
  shows "(\<exists>status detail. r = StatusReply status detail \<and> status \<noteq> D_ok) \<and> reg (snd w) = reg st \<and> arcs (snd w) = arcs st"
proof -
  obtain s where s: "result = as_c_str s"
    using api_status [of x "on_thread k" "ClientConnect (toNativeUtf8 (enc m)) (cell1 k) (cell2 k)"
      "calloc_u64 (cell2 k) (calloc_u64 (cell1 k) st)"] assms(3) by auto
  have wf: "arcs_wf [] (calloc_u64 (cell2 k) (calloc_u64 (cell1 k) st))"
    using assms(1) by (simp add: calloc_u64_def)
  from failed_connect_call [OF wf assms(3,4)] have st1: "reg st1 = reg st" "arcs st1 = arcs st" by simp_all
  have nok: "status_read result \<noteq> D_ok" using assms(4) by (simp add: s status_read_ok)
  with assms(2,3,5) obtain d st2 where t: "takeLastError (on_thread k) st1 = Some (d, st2)"
    "r = StatusReply (status_read result) d" "w = (0, free_u64 (cell2 k) (free_u64 (cell1 k) st2))"
    by (auto simp: connect_turn_def status_reply_def others_def split: bind_splits)
  from more_kept [OF takeLastError_more [OF t(1)]] st1 t(2,3) nok show ?thesis by simp
qed

text \<open>A connect that succeeded: the endpoint, and the numbers the reply carries.\<close>

lemma client_turn_connects:
  assumes wf: "arcs_wf [] st" and free: "reg st (handle_counter st + 1) = None"
    and cells: "cell1 k \<noteq> 0" "cell2 k \<noteq> 0" "cell1 k \<noteq> cell2 k"
    and p: "printed enc (x_client_config_from_str x) ClientConfig_deserialize (QuicClientConfig_toJson config)"
    and call: "rk_quic_client_connect x (on_thread k) (toNativeUtf8 (enc (QuicClientConfig_toJson config))) (cell1 k)
      (cell2 k) (calloc_u64 (cell2 k) (calloc_u64 (cell1 k) st)) = (as_c_str StatusOk, st1)"
    and turn: "connect_turn x enc k (QuicClientConfig_toJson config) (0, st) = Some (r, w)"
  shows "\<exists>hash rt port c wc ep. r = ConnectedReply (handle_counter st + 1) (handle_counter st) \<and>
    fst w = handle_counter st + 1 \<and> reg (snd w) = (reg st)(handle_counter st + 1 \<mapsto> next_arc st) \<and>
    arc_at (snd w) (next_arc st) = arc.truncate (client_node rt port (handle_counter st) c (qc_url config)) \<and>
    trace (snd w) = trace st @ [BuildRuntime, OpenClientEndpoint wc, Connect ep (qc_url config)] \<and>
    starts_with (qc_url config) ''https://'' \<and>
    parse_hash (x_debug_str x) (qc_certificateHashSha256 config) = Returned (Inr hash) \<and> length hash = 32 \<and>
    wc_certificate_hashes wc = [hash] \<and>
    0 < qc_idleTimeoutMs config \<and> wc_max_idle_timeout wc = nat (qc_idleTimeoutMs config) * 1000000"
proof -
  let ?m = "QuicClientConfig_toJson config" and ?st0 = "calloc_u64 (cell2 k) (calloc_u64 (cell1 k) st)"
  have wf0: "arcs_wf [] ?st0" and free0: "reg ?st0 (handle_counter ?st0 + 1) = None"
    using wf free by (simp_all add: calloc_u64_def reg_def)
  have b: "borrow_c_string (toNativeUtf8 (enc ?m)) = Some (enc ?m)"
    and o: "object_text (x_client_config_from_str x) ClientConfig_deserialize (enc ?m) ?m"
    using p by (simp_all add: printed_def borrow_printed)
  from client_runs_config [OF wf0 free0 b o call] obtain url hash_text hash timeout rt port c wc ep where
    typed: "proper client_fields ?m" and f: "text_or None ''url'' ?m = Some url" "starts_with url ''https://''"
    "text_or None ''certificateHashSha256'' ?m = Some hash_text"
    "parse_hash (x_debug_str x) hash_text = Returned (Inr hash)" "length hash = 32"
    "number_or (Some 30000) ''idleTimeoutMs'' ?m = Some timeout" "timeout \<noteq> 0"
    and run: "reg st1 = (reg ?st0)(handle_counter ?st0 + 1 \<mapsto> next_arc ?st0)"
    "arc_at st1 (next_arc ?st0) = arc.truncate (client_node rt port (handle_counter ?st0) c url)"
    "trace st1 = trace ?st0 @ [BuildRuntime, OpenClientEndpoint wc, Connect ep url]"
    "wc_certificate_hashes wc = [hash]" "wc_max_idle_timeout wc = unat timeout * 1000000"
    "cells_u64 st1 = write_out (cell2 k) (handle_counter ?st0)
       (write_out (cell1 k) (handle_counter ?st0 + 1) (cells_u64 ?st0))"
    by (elim exE conjE) (rule that; assumption)
  from f(1,3) have e: "url = qc_url config" "hash_text = qc_certificateHashSha256 config"
    by (simp_all add: text_or_def QuicClientConfig_toJson_def)
  from typed have "dart_int (qc_idleTimeoutMs config) \<noteq> JOther"
    by (auto simp: proper_def well_typed_def QuicClientConfig_toJson_def client_fields_eval)
  then have n: "timeout = word_of_int (qc_idleTimeoutMs config)" "0 \<le> qc_idleTimeoutMs config" "qc_idleTimeoutMs config < 2 ^ 63"
    using f(6) by (auto simp: number_or_def QuicClientConfig_toJson_def dart_int_def split: if_splits)
  then have t: "unat timeout = nat (qc_idleTimeoutMs config)" by (simp add: unsigned_of_int take_bit_int_eq_self)
  with f(7) n have pos: "0 < qc_idleTimeoutMs config" by (cases "qc_idleTimeoutMs config = 0") auto
  have "map_of (cells_u64 st1) (cell1 k) = Some (handle_counter st + 1)"
    "map_of (cells_u64 st1) (cell2 k) = Some (handle_counter st)"
    using cells by (simp_all add: run(6) map_of_write_out)
  with turn call have "r = ConnectedReply (handle_counter st + 1) (handle_counter st)"
    "fst w = handle_counter st + 1" "reg (snd w) = reg st1" "arc_at (snd w) (next_arc st) = arc_at st1 (next_arc st)"
    "trace (snd w) = trace st1"
    by (auto simp: connect_turn_def status_read_ok split: bind_splits)
  with run f e t pos show ?thesis
    by - (rule exI [of _ hash], rule exI [of _ rt], rule exI [of _ port], rule exI [of _ c], rule exI [of _ wc],
        rule exI [of _ ep], simp)
qed

text \<open>
  C19: A client connected in Dart is the one its configuration asks for: when \<open>QuicClient.connect\<close>
  answers \<open>ok\<close> the caller has a client over a handle that names a new endpoint and the id of its one
  session; the network was asked to connect to exactly the URL of the configuration, an \<open>https\<close> one,
  to trust exactly its fingerprint, which is 32 bytes, and to use its timeout, which is not zero; when
  it answers anything else there is no client and the process has no endpoint it did not have before.
\<close>

theorem dart_client_connects_as_configured:
  assumes "arcs_wf [] st" and "reg st (handle_counter st + 1) = None"
    and "meanwhile k = []" and "cell1 k \<noteq> 0" and "cell2 k \<noteq> 0" and "cell1 k \<noteq> cell2 k"
    and "printed enc (x_client_config_from_str x) ClientConfig_deserialize (QuicClientConfig_toJson config)"
    and "QuicClient_connect x enc loaded config ([], k) st = Some (status, client, detail, st')"
  shows "if status = D_ok then
      (\<exists>q hash rt port c wc ep. client = Some (handle_counter st, q) \<and>
        created_by x enc (ConnectCommand (QuicClientConfig_toJson config)) ([], k) st = Some q \<and>
        world (channel q) = (handle_counter st + 1, st') \<and>
        reg st' = (reg st)(handle_counter st + 1 \<mapsto> next_arc st) \<and>
        arc_at st' (next_arc st) = arc.truncate (client_node rt port (handle_counter st) c (qc_url config)) \<and>
        trace st' = trace st @ [BuildRuntime, OpenClientEndpoint wc, Connect ep (qc_url config)] \<and>
        starts_with (qc_url config) ''https://'' \<and>
        parse_hash (x_debug_str x) (qc_certificateHashSha256 config) = Returned (Inr hash) \<and> length hash = 32 \<and>
        wc_certificate_hashes wc = [hash] \<and>
        0 < qc_idleTimeoutMs config \<and> wc_max_idle_timeout wc = nat (qc_idleTimeoutMs config) * 1000000)
    else client = None \<and> reg st' = reg st \<and> arcs st' = arcs st"
proof (cases loaded)
  case False
  with assms(8) show ?thesis by (auto simp: QuicClient_connect_def)
next
  case True
  let ?m = "QuicClientConfig_toJson config" and ?st0 = "calloc_u64 (cell2 k) (calloc_u64 (cell1 k) st)"
  from assms(8) True obtain r w where turn: "connect_turn x enc k ?m (0, st) = Some (r, w)"
    by (auto simp: connect_result dart_work_def split: option.splits)
  obtain result st1 where call:
    "rk_quic_client_connect x (on_thread k) (toNativeUtf8 (enc ?m)) (cell1 k) (cell2 k) ?st0 = (result, st1)" by fastforce
  have d: "dart_work x enc ([], k) (ConnectCommand ?m) (0, st) = Some (r, w)" using turn by (simp add: dart_work_def)
  show ?thesis
  proof (cases "result = as_c_str StatusOk")
    case False
    from client_turn_fails [OF assms(1,3) call this turn] assms(8) True d show ?thesis
      by (auto simp: connect_result)
  next
    case ok: True
    from client_turn_connects [OF assms(1,2,4-7) call [unfolded ok] turn] obtain hash rt port c wc ep where
      r: "r = ConnectedReply (handle_counter st + 1) (handle_counter st)" "fst w = handle_counter st + 1" and run:
      "reg (snd w) = (reg st)(handle_counter st + 1 \<mapsto> next_arc st)"
      "arc_at (snd w) (next_arc st) = arc.truncate (client_node rt port (handle_counter st) c (qc_url config))"
      "trace (snd w) = trace st @ [BuildRuntime, OpenClientEndpoint wc, Connect ep (qc_url config)]"
      "starts_with (qc_url config) ''https://''"
      "parse_hash (x_debug_str x) (qc_certificateHashSha256 config) = Returned (Inr hash)" "length hash = 32"
      "wc_certificate_hashes wc = [hash]" "0 < qc_idleTimeoutMs config"
      "wc_max_idle_timeout wc = nat (qc_idleTimeoutMs config) * 1000000"
      by (elim exE conjE) (rule that; assumption)
    let ?q = "held_by \<lparr>pending_ids = [], next_id = 1, inbox = [], replies = [], running = True, world = w,
      asked = [(0, ConnectCommand ?m)], turns = [(0, ConnectCommand ?m, r)], completed = [(0, r)]\<rparr>"
    from assms(8) True d r(1) have out: "status = D_ok" "client = Some (handle_counter st, ?q)" "st' = snd w"
      by (simp_all add: connect_result)
    have q: "created_by x enc (ConnectCommand ?m) ([], k) st = Some ?q" "world (channel ?q) = (handle_counter st + 1, snd w)"
      using r(2) by (simp_all only: created_by_def first_command d option.case prod.case option.map)
        (cases w, simp add: held_by_def)
    show ?thesis
      unfolding out if_True simp_thms
      by (rule exI [of _ ?q], rule exI [of _ hash], rule exI [of _ rt], rule exI [of _ port], rule exI [of _ c],
          rule exI [of _ wc], rule exI [of _ ep]) (use q run in simp)
  qed
qed

definition demo_client_config :: QuicClientConfig where
  "demo_client_config = \<lparr>qc_url = ''https://localhost:4433/rk'',
     qc_certificateHashSha256 = hash_hex (replicate 32 7), qc_idleTimeoutMs = 30000\<rparr>"

lemma demo_client_config_printed:
  "printed (\<lambda>_. []) (x_client_config_from_str calm) ClientConfig_deserialize (QuicClientConfig_toJson demo_client_config)"
  by (simp add: printed_def object_text_def demo_client_config_def QuicClientConfig_toJson_def dart_int_def
      ClientConfig_deserialize_def client_fields_eval string_field_def u64_field_def calm_def good_client_config_def)

theorem dart_client_connects_as_configured_witness:
  "\<exists>q st' rt port c. QuicClient_connect calm (\<lambda>_. []) True demo_client_config demo_turn initial_process =
       Some (D_ok, Some (1, q), None, st') \<and> world (channel q) = (2, st') \<and> reg st' 2 = Some 0 \<and>
     arc_at st' 0 = arc.truncate (client_node rt port 1 c ''https://localhost:4433/rk'')"
proof -
  let ?k = "snd demo_turn" and ?m = "QuicClientConfig_toJson demo_client_config"
  have k: "demo_turn = ([], ?k)" "meanwhile ?k = []" "cell1 ?k \<noteq> 0" "cell2 ?k \<noteq> 0" "cell1 ?k \<noteq> cell2 ?k"
    by (simp_all add: demo_turn_def)
  have fit: "fit_turn demo_turn" by (simp add: fit_turn_def demo_turn_def)
  obtain r w where d: "dart_work calm (\<lambda>_. []) demo_turn (ConnectCommand ?m) (0, initial_process) = Some (r, w)"
    using dart.answers_always [OF _ fit, of "(0, initial_process)"] ffi_wf_initial by fastforce
  have "\<exists>st1. rk_quic_client_connect calm (on_thread ?k) (toNativeUtf8 []) (cell1 ?k) (cell2 ?k)
      (calloc_u64 (cell2 ?k) (calloc_u64 (cell1 ?k) initial_process)) = (as_c_str StatusOk, st1)"
  proof -
    have b: "borrow_c_string (toNativeUtf8 []) = Some []" by code_simp
    have j: "x_client_config_from_str calm [] = Inr good_client_config" by (simp add: calm_def)
    show ?thesis
      by (simp add: rk_quic_client_connect_def b j good_client_parses Let_def calloc_u64_def)
        (simp add: connect_def calm_def Let_def next_handle_def register_def arc_new_def)
  qed
  then obtain st1 where call: "rk_quic_client_connect calm (on_thread ?k) (toNativeUtf8 []) (cell1 ?k) (cell2 ?k)
      (calloc_u64 (cell2 ?k) (calloc_u64 (cell1 ?k) initial_process)) = (as_c_str StatusOk, st1)" by blast
  have f: "reg initial_process (handle_counter initial_process + 1) = None" by (simp add: reg_def new_mutex_def)
  have turn: "connect_turn calm (\<lambda>_. []) ?k ?m (0, initial_process) = Some (r, w)"
    using d k(1) by (simp add: dart_work_def demo_turn_def)
  from client_turn_connects [OF arcs_wf_initial f k(3-5) demo_client_config_printed call turn] have
    "r = ConnectedReply (handle_counter initial_process + 1) (handle_counter initial_process)" by blast
  with d obtain q where out: "QuicClient_connect calm (\<lambda>_. []) True demo_client_config ([], ?k) initial_process =
      Some (D_ok, Some (handle_counter initial_process, q), None, snd w)" using k(1) by (auto simp: connect_result)
  from dart_client_connects_as_configured [OF arcs_wf_initial f k(2-5) demo_client_config_printed out] out k(1) show ?thesis
    by (auto simp: demo_client_config_def)
qed

end
