(* ===== verification/Spec2Isabelle.thy ===== *)
theory Spec2Isabelle
  imports RkPoll RkGuarantees RkEvent RkWhole RkRest RkTyping RkHandles RkFfiTests
    RkWire RkFrames RkServed RkPoller RkLoader RkDartClient
begin

text \<open>
  rk-quic is a QUIC and WebTransport endpoint written in Rust behind a small C ABI, with a Dart
  package on top. This development models the Rust crate (\<open>rust/src\<close>) and the Dart side of the
  boundary (\<open>lib/src\<close>), and proves what an endpoint promises to a caller of either.

  \<^bold>\<open>The program.\<close> A caller starts a server or connects a client through the C ABI
  (\<open>server_ffi.rs\<close>, \<open>client_ffi.rs\<close>). The JSON configuration is checked (\<open>config.rs\<close>,
  \<open>client_config.rs\<close>); \<open>transport.rs\<close> builds a tokio runtime and a network endpoint, spawns the
  tasks that accept and serve sessions, and registers the endpoint in a process-wide map of counted
  references under a fresh handle. The tasks push events (\<open>event.rs\<close>) into a bounded queue; the
  caller polls them as JSON and sends through the handle. Every answer is a status name
  (\<open>status.rs\<close>), and the sentence that goes with a failure waits in a slot of the thread
  (\<open>lib.rs\<close>). Memory and panics at the boundary are the matter of \<open>ffi.rs\<close>. A Dart application holds
  a \<open>QuicServer\<close> or \<open>QuicClient\<close>: its calls travel as commands with ids to a helper isolate that makes
  the native calls in turn, while a second isolate polls the events and posts their JSON.

  \<^bold>\<open>The theories\<close>, each imported by those below it that use it.
  \<^item> \<open>RkPrelude\<close>: integers by width, a panic as a value (\<open>outcome\<close>), a mutex with poisoning, Rust
    strings as bytes (UTF-8, slicing at character boundaries, trimming, decimal and hex digits),
    and the contract of a handle table (locale \<open>handle_table\<close>), interpreted on association lists.
  \<^item> \<open>RkStatus\<close>: \<open>status.rs\<close> and \<open>lib/src/status.dart\<close>; locale \<open>named_enum\<close> for a closed set of
    names, interpreted for both sides.
  \<^item> \<open>RkSockAddr\<close>: the standard library's parser and printer of socket addresses, which decide what
    a \<open>bindAddress\<close> is and how an error names it.
  \<^item> \<open>RkFfi\<close>: \<open>ffi.rs\<close> and the error slot of \<open>lib.rs\<close> over an explicit heap and explicit caller
    cells (record \<open>ffi_state\<close>); locale \<open>ffi_entry\<close> states what every entry point owes its caller.
  \<^item> \<open>RkEvent\<close>: \<open>event.rs\<close>, the members of its JSON object, and the reader \<open>QuicEvent.fromJson\<close>.
  \<^item> \<open>RkConfig\<close>, \<open>RkClientConfig\<close>: the two configurations, every check and message in order.
  \<^item> \<open>RkSerde\<close>: how the two configuration structures are read from the members of a JSON object, as
    their serde attributes say: renamed, defaulted, duplicate and unknown members.
  \<^item> \<open>RkChannel\<close>: the event queue (\<open>emit\<close>, \<open>recv_timeout\<close>, the depth of 1024); locale
    \<open>bounded_queue\<close>, interpreted on the channel.
  \<^item> \<open>RkTransport\<close>: the endpoint (record \<open>Endpoint\<close>), \<open>send\<close>, \<open>stream_send\<close>, \<open>stream_close\<close>,
    \<open>next_event\<close>, dropping; the registry and reference counts (record \<open>process\<close>); \<open>start\<close>,
    \<open>connect\<close>, \<open>open_stream\<close>.
  \<^item> \<open>RkRegistry\<close>: the ownership invariant \<open>arcs_wf\<close>, for any references that calls in flight hold.
  \<^item> \<open>RkEntry\<close>: the nine handle-related entry points, collected as \<open>api\<close>; they interpret \<open>ffi_entry\<close>
    and keep \<open>arcs_wf\<close>.
  \<^item> \<open>RkSession\<close>: the tasks (\<open>accept_loop\<close>, \<open>session_loop\<close>, \<open>read_bi_stream\<close>, the task of
    \<open>connect\<close>) cut at every await, lock and emit into moves (\<open>task_step\<close>); the step relation
    \<open>node_step\<close> lets any task move, or a call of the boundary read an event, close a stream or
    begin to open one; \<open>phase\<close> is the abstract life of a session.
  \<^item> \<open>RkLifecycle\<close>, \<open>RkClientLife\<close>: the invariants of a server and of a client endpoint: which
    session is in which table, and how far its events have got, is a function of the point its task
    has reached.
  \<^item> \<open>RkRuns\<close>, \<open>RkSafety\<close>: runs as data that evaluate, equivalent to \<open>node_step\<close>; what is read
    against what is emitted.
  \<^item> \<open>RkScenario\<close>: the process before the first call and a world where every request succeeds.
  \<^item> \<open>RkGuarantees\<close>: the properties of every run. \<open>RkOps\<close>: the operations of the transport on every
    branch. \<open>RkPromises\<close>, \<open>RkStop\<close>, \<open>RkPoll\<close>: the properties of the C ABI. \<open>RkHandles\<close>: handles are
    issued once.
  \<^item> \<open>RkTyping\<close>: the shape of what a server reports; every event can be read by the Dart side.
    \<open>RkRest\<close>: a measure on the tasks of an endpoint; without new input from the network they stop.
  \<^item> \<open>RkDelivery\<close>: what tasks are given against what is reported. \<open>RkWire\<close>: a sending and a receiving
    endpoint with the network between them, end to end. \<open>RkServed\<close>: from the members of a JSON
    configuration to the endpoint that runs, through the C ABI.
  \<^item> \<open>RkFrames\<close>: \<open>stream_send\<close> and \<open>stream_close\<close> by many threads at once, cut at the lookup, at
    the lock of the stream and at every piece the network takes; \<open>stream_send_alone\<close> relates them to
    the one-step operations of \<open>RkTransport\<close>.
  \<^item> \<open>RkSystem\<close>, \<open>RkTouch\<close>, \<open>RkWhole\<close>: the whole process as a state machine (\<open>sys_step\<close>): any number
    of endpoints with their tasks, and threads inside calls that run whole or in parts. What one call
    changes; the invariant of the process; and that every endpoint in it is in a state of its own
    runs (\<open>process_refines_endpoints\<close>), which carries the properties of one endpoint to the process.
  \<^item> \<open>RkTests\<close>, \<open>RkBench\<close>, \<open>RkTransportTests\<close>, \<open>RkFfiTests\<close>: the unit tests of the crate as
    predicates on the model, one definition for each test function, and that all of them hold.
  \<^item> \<open>RkBindings\<close>: \<open>bindings_io.dart\<close> and one turn of the command loop of \<open>endpoint_io.dart\<close> for each
    command (\<open>commandLoop\<close>), over the heap and the cells of the boundary; what the reply of a turn owes
    to its native call.
  \<^item> \<open>RkCommands\<close>: the command channel (record \<open>channel_state\<close>) with calls that overlap, replies
    matched by id and disposal, refined to calls made directly one after the other (\<open>direct\<close>); the
    object callers hold (record \<open>holder\<close>) and its stop; locale \<open>answering_worker\<close> for what a caller
    relies on of the worker, interpreted on the command loop over the C ABI.
  \<^item> \<open>RkPoller\<close>: the poll loop as a transition system beside the steps of the whole process, and
    \<open>QuicEvent.fromJson\<close> on what it posts.
  \<^item> \<open>RkDart\<close>, \<open>RkDartClient\<close>: \<open>server_io.dart\<close> and \<open>client_io.dart\<close>: from the configuration objects to
    the endpoint that runs.
    \<open>RkLoader\<close>: \<open>loader_io.dart\<close>, which library is found, and which is bound.
  \<^item> This theory: the detail of a failure against the answer of the call.

  \<^bold>\<open>What is external.\<close> wtransport, quinn, tokio and rustls are not in the repository: they are the fields
  of the record \<open>external\<close>, an argument of every definition that uses them, with no assumption made
  about them, with exceptions that are hypotheses of the theorems that need them: that a JSON text
  is read by its members (\<open>object_text\<close>, and on the Dart side \<open>printed\<close> for \<open>jsonEncode\<close> and
  \<open>json_agrees\<close> for \<open>jsonDecode\<close>), and that a QUIC stream delivers what was written to it
  before it was finished, once (in \<open>sent_texts_arrive\<close>). The dynamic linker is the record \<open>machine\<close>. A request to the network or the runtime is appended to a trace, and its answer is any
  function of the trace so far. What tasks receive is the input of their moves and is arbitrary. The
  unit tests need a machine that can bind a local port and a certificate that can be read; \<open>bench_ok\<close>
  says so, and \<open>demo_bench_ok\<close> shows that there is one.

  \<^bold>\<open>Bounds.\<close> No definition uses fuel. The guarantees over runs of a server assume fewer than
  \<open>2 ^ 64 - 1\<close> accepted sessions, so that the session counter does not wrap; that events can be read
  as Dart integers assumes fewer than \<open>2 ^ 63 - 1\<close>. That handles are not reused assumes that
  \<open>2 * n + 3 < 2 ^ 64\<close> for \<open>n\<close> calls, since a call takes at most two numbers of the counter; the unit
  tests allow \<open>2 ^ 60\<close> calls before them. The guarantees on starting and connecting assume that
  the next handle is not in use, which can only fail after the handle counter has wrapped. The
  guarantee that a closed session is forgotten is proved for runs without a stream being opened by
  the caller (\<open>opens\<close> is false), and \<open>open_stream_outlives_session\<close> shows that this is needed.

  \<^bold>\<open>What is not modelled.\<close> JSON as text: printing and parsing it are external; the members of an
  object are modelled, and the form of a structure as a JSON array, which serde also reads, is not.
  The thread that waits inside a poll is one move: the poll that finds the event once it is there.
  A call that works on an endpoint reaches the network in one step of the process, except that
  opening a stream waits between its two halves; for writes to a stream \<open>RkFrames\<close> has the finer
  steps. The memory order of the counters is not modelled.
  On the Dart side a turn of the command loop and a turn of the poll loop are one step each, with the
  calls other threads make inside a turn given as data (\<open>meanwhile\<close>); an isolate killed in the middle
  of a turn is not modelled. Identifiers of commands are numbers without a bound where Dart has 64
  bits. The memory that \<open>package:ffi\<close> allocates is a cell at an address of the turn. The web halves of
  server and client answer constants; the build scripts, the C header, the Dart tests and the
  integration tests, which need real sockets, are left out.
\<close>

section \<open>Answers and details\<close>

text \<open>
  C34: The detail of a failure matches the answer: after any call of the C ABI that answers \<open>ok\<close>
  there is no detail to read in its thread, and after a failed start, connect or opening of a
  stream that did not panic there is one.
\<close>

theorem detail_matches_answer:
  assumes "api x t c st = (result, st')"
  shows "(result = as_c_str StatusOk \<longrightarrow> last_error st' t = None) \<and>
    (reports_detail c \<and> result \<noteq> as_c_str StatusOk \<and> result \<noteq> as_c_str Panic \<longrightarrow>
       last_error st' t \<noteq> None)"
  using assms ok_no_detail failure_detail by blast

theorem detail_matches_answer_witness:
  "\<exists>st'. api calm 3 (ClientOpenStream 77 1 9) initial_process = (as_c_str UnknownHandle, st') \<and>
     last_error st' 3 \<noteq> None"
proof -
  obtain res st' where s: "api calm 3 (ClientOpenStream 77 1 9) initial_process = (res, st')" by fastforce
  have "lookup 77 (clear_last_error 3 initial_process) = (None, clear_last_error 3 initial_process)"
    by (rule lookup_gone [of "[]"]) (simp_all add: reg_def new_mutex_def)
  with s have "res = as_c_str UnknownHandle"
    by (simp add: rk_quic_client_open_stream_def open_stream_def)
  with detail_matches_answer [OF s] s show ?thesis by simp
qed

end
